(* ===== verification/Infuse_Base.thy ===== *)
theory Infuse_Base
  imports Main "HOL-Library.Word" "HOL-Library.Code_Target_Numeral"
begin

text \<open>
  The prelude of the development: the machine types of the C sources as words, the error numbers the
  firmware returns, little-endian byte codecs, stores into byte arrays, and the list lemmas that the
  components share. Nothing here models a file of the SDK; every component theory imports it.

  Conventions used throughout.
  \<^item> \<open>uint8_t\<close>, \<open>uint16_t\<close>, \<open>uint32_t\<close>, \<open>uint64_t\<close> are the words below wherever the code does bit
    operations on them or wraps; counters and sizes are \<open>nat\<close> with the truncation written out by
    \<open>u8\<close>, \<open>u16\<close>, \<open>u32\<close> where C truncates.
  \<^item> An \<open>int\<close> return code that is a negative error number or a non-negative result is a value of
    \<open>errno + 'a\<close>, \<open>Inl\<close> being the error.
  \<^item> All targets of the SDK are little-endian, so a store of a multi-byte field of a packed struct is
    \<open>put_le\<close>, and a load is \<open>get_le\<close>.
\<close>

unbundle bit_operations_syntax

named_theorems field_simps_c "field accesses and codecs evaluated by the component proofs"

subsection \<open>Machine types and error numbers\<close>

type_synonym byte = "8 word"
type_synonym word16 = "16 word"
type_synonym word32 = "32 word"
type_synonym word64 = "64 word"

datatype errno =
    EINVAL | ENOMEM | ENOSPC | ENOTCONN | ENOENT | EBUSY | ENOTSUP | ENODEV | ENOSYS | EIO
  | EACCES | EPERM | EDEADLK | EBADF | ENODATA | EOTHER nat

type_synonym 'a res = "errno + 'a"

definition u8 :: "nat \<Rightarrow> nat" where "u8 n = n mod 256"
definition u16 :: "nat \<Rightarrow> nat" where "u16 n = n mod 65536"
definition u32 :: "nat \<Rightarrow> nat" where "u32 n = n mod 4294967296"

lemma u8_id [simp]: "n < 256 \<Longrightarrow> u8 n = n" by (simp add: u8_def)
lemma u16_id [simp]: "n < 65536 \<Longrightarrow> u16 n = n" by (simp add: u16_def)
lemma u32_id [simp]: "n < 4294967296 \<Longrightarrow> u32 n = n" by (simp add: u32_def)

lemma u8_less [simp]: "u8 n < 256" by (simp add: u8_def)
lemma u16_less [simp]: "u16 n < 65536" by (simp add: u16_def)
lemma u32_less [simp]: "u32 n < 4294967296" by (simp add: u32_def)

lemma unat_byte_less [simp]: "unat (b :: byte) < 256"
  using unsigned_less [of b] by simp

lemma unat_byte_le [simp]: "unat (b :: byte) \<le> 255"
  using unat_byte_less [of b] by linarith

lemma unat_word16_less [simp]: "unat (w :: word16) < 65536"
  using unsigned_less [of w] by simp

lemma unat_word32_less [simp]: "unat (w :: word32) < 4294967296"
  using unsigned_less [of w] by simp

lemma unat_word64_less [simp]: "unat (w :: word64) < 18446744073709551616"
  using unsigned_less [of w] by simp

lemma and_mask_self:
  assumes "unat (x :: 'a :: len word) < 2 ^ n"
  shows "x AND mask n = x"
proof -
  have "take_bit n (unat x) = unat x" using assms by (simp add: take_bit_eq_mod)
  then have "unat (take_bit n x) = unat x" by (simp only: unsigned_take_bit_eq)
  then have "take_bit n x = x" by (simp only: word_unat_eq_iff)
  then show ?thesis by (simp add: take_bit_eq_mask)
qed

subsection \<open>Little-endian bytes\<close>

fun put_le :: "nat \<Rightarrow> nat \<Rightarrow> byte list" where
  "put_le 0 v = []"
| "put_le (Suc k) v = word_of_nat v # put_le k (v div 256)"

fun get_le :: "byte list \<Rightarrow> nat" where
  "get_le [] = 0"
| "get_le (b # bs) = unat b + 256 * get_le bs"

lemma length_put_le [simp]: "length (put_le k v) = k"
  by (induction k arbitrary: v) auto

lemma get_put_le: "get_le (put_le k v) = v mod 256 ^ k"
proof (induction k arbitrary: v)
  case (Suc k)
  have "get_le (put_le (Suc k) v) = v mod 256 + 256 * (v div 256 mod 256 ^ k)"
    by (simp add: Suc.IH unat_of_nat)
  also have "\<dots> = v mod (256 * 256 ^ k)"
    by (simp add: mod_mult2_eq)
  finally show ?case by simp
qed simp

lemma get_put_le_id [simp]: "v < 256 ^ k \<Longrightarrow> get_le (put_le k v) = v"
  by (simp add: get_put_le)

lemma get_le_less: "get_le bs < 256 ^ length bs"
proof (induction bs)
  case (Cons b bs)
  have "get_le bs + 1 \<le> 256 ^ length bs" using Cons.IH by simp
  then have "256 * get_le bs + 256 \<le> 256 * 256 ^ length bs" by linarith
  moreover have "unat b < 256" by simp
  ultimately show ?case by (simp del: unat_byte_less)
qed simp

lemma put_get_le [simp]: "put_le (length bs) (get_le bs) = bs"
proof (induction bs)
  case (Cons b bs)
  have "(unat b + 256 * get_le bs) div 256 = get_le bs" by simp
  moreover have "(word_of_nat (unat b + 256 * get_le bs) :: byte) = b"
  proof -
    have "unat (word_of_nat (unat b + 256 * get_le bs) :: byte) = (unat b + 256 * get_le bs) mod 2 ^ 8"
      by (subst unat_of_nat) simp
    then show ?thesis by (simp only: word_unat_eq_iff) simp
  qed
  ultimately show ?case by (simp add: Cons.IH)
qed simp

lemma put_le_mod: "put_le k (v mod 256 ^ k) = put_le k v"
proof -
  have "put_le (length (put_le k v)) (get_le (put_le k v)) = put_le k v"
    by (rule put_get_le)
  then show ?thesis by (simp add: get_put_le)
qed

text \<open>The \<open>n\<close> bytes at an offset, and the little-endian value there.\<close>

definition bytes_at :: "nat \<Rightarrow> nat \<Rightarrow> 'a list \<Rightarrow> 'a list" where
  "bytes_at off n xs = take n (drop off xs)"

definition le_at :: "nat \<Rightarrow> nat \<Rightarrow> byte list \<Rightarrow> nat" where
  "le_at off n xs = get_le (bytes_at off n xs)"

lemma le_at_less: "le_at off n xs < 256 ^ n"
proof -
  have "length (bytes_at off n xs) \<le> n" by (simp add: bytes_at_def)
  then have "(256 :: nat) ^ length (bytes_at off n xs) \<le> 256 ^ n" by (rule power_increasing) simp
  then show ?thesis unfolding le_at_def using get_le_less [of "bytes_at off n xs"] by linarith
qed

subsection \<open>Stores into byte arrays\<close>

definition store_at :: "nat \<Rightarrow> 'a list \<Rightarrow> 'a list \<Rightarrow> 'a list" where
  "store_at off ys xs = take off xs @ ys @ drop (off + length ys) xs"

lemma length_store_at [simp]:
  "off + length ys \<le> length xs \<Longrightarrow> length (store_at off ys xs) = length xs"
  by (simp add: store_at_def)

lemma store_at_append [simp]:
  "off = length xs \<Longrightarrow> length ys \<le> length zs \<Longrightarrow>
   store_at off ys (xs @ zs) = xs @ ys @ drop (length ys) zs"
  by (simp add: store_at_def)

lemma store_at_inside:
  "off = length xs \<Longrightarrow> length ys = length zs \<Longrightarrow> store_at off ys (xs @ zs @ ws) = xs @ ys @ ws"
  by (simp add: store_at_def)

lemma take_drop_store_at_same:
  "off + length ys \<le> length xs \<Longrightarrow> take (length ys) (drop off (store_at off ys xs)) = ys"
  by (simp add: store_at_def)

lemma slice_of_prefix:
  assumes "a + l \<le> m" "m \<le> length xs"
  shows "take l (drop a (take m xs @ post)) = take l (drop a xs)"
proof -
  have "drop a (take m xs @ post) = take (m - a) (drop a xs) @ post" using assms by (simp add: drop_take)
  moreover have "length (take (m - a) (drop a xs)) = m - a" "l \<le> m - a" using assms by simp_all
  ultimately show ?thesis by (simp add: min_def)
qed

subsection \<open>Equal-width chunks\<close>

text \<open>
  An array of \<open>n\<close> fields of \<open>d\<close> bytes is \<open>concat (map f [0..<n])\<close>; a run of its fields is a
  contiguous slice.
\<close>

lemma length_concat_const:
  assumes "\<And>i. length (f i) = d"
  shows "length (concat (map f is)) = length is * d"
  using assms by (induction "is") auto

lemma slice_concat_map:
  assumes d: "\<And>i. length (f i) = d" and "k + m \<le> n"
  shows "take (m * d) (drop (k * d) (concat (map f [0..<n]))) = concat (map f [k..<k + m])"
proof -
  have "[0..<n] = [0..<k] @ [k..<k + m] @ [k + m..<n]"
    using assms(2) by (metis le_add1 le_add_same_cancel1 upt_add_eq_append zero_le ordered_cancel_comm_monoid_diff_class.add_diff_inverse append.assoc)
  then show ?thesis
    by (simp add: length_concat_const [OF d])
qed

lemma drop_drop_mult: "drop (i * w) (drop (j * w) xs) = drop ((j + i) * w) xs"
  by (simp add: add.commute add_mult_distrib)

end
