(* ===== verification/Net_Buf.thy ===== *)
theory Net_Buf
  imports Infuse_Base
begin

text \<open>
  Zephyr's \<open>net_buf_simple\<close>, which is not part of the SDK's sources, as the SDK uses it: the structure
  (its fields are read and written directly by \<open>tdf.c\<close> and \<open>tdf_data_logger.c\<close>) is a record, the
  library functions are the fields of a record \<open>net_buf_api\<close> that every definition using them takes as
  its first argument, and what Zephyr's API documentation says of them is the locale \<open>net_buf_lib\<close>.
  A result about code that uses the library is proved in that locale and has \<open>net_buf_lib api\<close> as its
  named hypothesis. Each law is restricted to calls that respect the documented bounds: nothing is
  known of a call that would overrun or underrun the buffer.

  Pointers into a buffer are offsets from \<open>__buf\<close>; the memory behind \<open>__buf\<close> is \<open>nb_buf\<close>.
\<close>

record net_buf_simple =
  nb_buf :: "byte list"
  nb_data :: nat
  nb_len :: nat
  nb_size :: nat

definition nb_ok :: "net_buf_simple \<Rightarrow> bool" where
  "nb_ok b \<longleftrightarrow> nb_data b + nb_len b \<le> nb_size b \<and> nb_size b \<le> length (nb_buf b) \<and> nb_size b < 65536"

text \<open>The bytes a buffer currently holds, and its free space at the end.\<close>

definition nb_bytes :: "net_buf_simple \<Rightarrow> byte list" where
  "nb_bytes b = take (nb_len b) (drop (nb_data b) (nb_buf b))"

definition nb_room :: "net_buf_simple \<Rightarrow> nat" where
  "nb_room b = nb_size b - nb_data b - nb_len b"

text \<open>A store through a pointer into the buffer's memory.\<close>

definition nb_store :: "net_buf_simple \<Rightarrow> nat \<Rightarrow> byte list \<Rightarrow> net_buf_simple" where
  "nb_store b ptr xs = b\<lparr>nb_buf := store_at ptr xs (nb_buf b)\<rparr>"

definition nb_load :: "net_buf_simple \<Rightarrow> nat \<Rightarrow> nat \<Rightarrow> byte list" where
  "nb_load b ptr n = take n (drop ptr (nb_buf b))"

subsection \<open>The library's functions and their documented behaviour\<close>

record net_buf_api =
  net_buf_simple_tailroom :: "net_buf_simple \<Rightarrow> nat"
  net_buf_simple_add :: "net_buf_simple \<Rightarrow> nat \<Rightarrow> nat \<times> net_buf_simple"
  net_buf_simple_add_mem :: "net_buf_simple \<Rightarrow> byte list \<Rightarrow> net_buf_simple"
  net_buf_simple_add_le16 :: "net_buf_simple \<Rightarrow> nat \<Rightarrow> net_buf_simple"
  net_buf_simple_add_le24 :: "net_buf_simple \<Rightarrow> nat \<Rightarrow> net_buf_simple"
  net_buf_simple_add_le64 :: "net_buf_simple \<Rightarrow> nat \<Rightarrow> net_buf_simple"
  net_buf_simple_remove_le64 :: "net_buf_simple \<Rightarrow> nat \<times> net_buf_simple"
  net_buf_simple_pull_mem :: "net_buf_simple \<Rightarrow> nat \<Rightarrow> nat \<times> net_buf_simple"
  net_buf_simple_pull_le16 :: "net_buf_simple \<Rightarrow> nat \<times> net_buf_simple"
  net_buf_simple_pull_le24 :: "net_buf_simple \<Rightarrow> nat \<times> net_buf_simple"
  net_buf_simple_push :: "net_buf_simple \<Rightarrow> nat \<Rightarrow> net_buf_simple"
  net_buf_simple_reserve :: "net_buf_simple \<Rightarrow> nat \<Rightarrow> net_buf_simple"
  net_buf_simple_reset :: "net_buf_simple \<Rightarrow> net_buf_simple"
  net_buf_simple_init_with_data :: "byte list \<Rightarrow> nat \<Rightarrow> net_buf_simple"

locale net_buf_lib =
  fixes api :: net_buf_api
  assumes tailroom: "nb_ok b \<Longrightarrow> net_buf_simple_tailroom api b = nb_room b"
    and add: "nb_ok b \<Longrightarrow> n \<le> nb_room b \<Longrightarrow>
      net_buf_simple_add api b n = (nb_data b + nb_len b, b\<lparr>nb_len := nb_len b + n\<rparr>)"
    and add_mem: "nb_ok b \<Longrightarrow> length xs \<le> nb_room b \<Longrightarrow>
      net_buf_simple_add_mem api b xs =
      (nb_store b (nb_data b + nb_len b) xs)\<lparr>nb_len := nb_len b + length xs\<rparr>"
    and add_le16: "nb_ok b \<Longrightarrow> 2 \<le> nb_room b \<Longrightarrow>
      net_buf_simple_add_le16 api b v = net_buf_simple_add_mem api b (put_le 2 v)"
    and add_le24: "nb_ok b \<Longrightarrow> 3 \<le> nb_room b \<Longrightarrow>
      net_buf_simple_add_le24 api b v = net_buf_simple_add_mem api b (put_le 3 v)"
    and add_le64: "nb_ok b \<Longrightarrow> 8 \<le> nb_room b \<Longrightarrow>
      net_buf_simple_add_le64 api b v = net_buf_simple_add_mem api b (put_le 8 v)"
    and remove_le64: "nb_ok b \<Longrightarrow> 8 \<le> nb_len b \<Longrightarrow>
      net_buf_simple_remove_le64 api b =
      (get_le (nb_load b (nb_data b + nb_len b - 8) 8), b\<lparr>nb_len := nb_len b - 8\<rparr>)"
    and pull_mem: "nb_ok b \<Longrightarrow> n \<le> nb_len b \<Longrightarrow>
      net_buf_simple_pull_mem api b n =
      (nb_data b, b\<lparr>nb_data := nb_data b + n, nb_len := nb_len b - n\<rparr>)"
    and pull_le16: "nb_ok b \<Longrightarrow> 2 \<le> nb_len b \<Longrightarrow>
      net_buf_simple_pull_le16 api b =
      (get_le (nb_load b (nb_data b) 2), snd (net_buf_simple_pull_mem api b 2))"
    and pull_le24: "nb_ok b \<Longrightarrow> 3 \<le> nb_len b \<Longrightarrow>
      net_buf_simple_pull_le24 api b =
      (get_le (nb_load b (nb_data b) 3), snd (net_buf_simple_pull_mem api b 3))"
    and push: "nb_ok b \<Longrightarrow> n \<le> nb_data b \<Longrightarrow>
      net_buf_simple_push api b n = b\<lparr>nb_data := nb_data b - n, nb_len := nb_len b + n\<rparr>"
    and reserve: "nb_ok b \<Longrightarrow> nb_len b = 0 \<Longrightarrow> nb_data b + n \<le> nb_size b \<Longrightarrow>
      net_buf_simple_reserve api b n = b\<lparr>nb_data := nb_data b + n\<rparr>"
    and reset: "net_buf_simple_reset api b = b\<lparr>nb_data := 0, nb_len := 0\<rparr>"
    and init_with_data: "sz < 65536 \<Longrightarrow> net_buf_simple_init_with_data api mem sz =
      \<lparr>nb_buf = mem, nb_data = 0, nb_len = sz, nb_size = sz\<rparr>"

subsection \<open>Contents after the operations\<close>

lemma nb_okD:
  "nb_ok b \<Longrightarrow> nb_data b + nb_len b \<le> nb_size b"
  "nb_ok b \<Longrightarrow> nb_size b \<le> length (nb_buf b)"
  "nb_ok b \<Longrightarrow> nb_size b < 65536"
  by (simp_all add: nb_ok_def)

lemma length_nb_bytes [simp]: "nb_ok b \<Longrightarrow> length (nb_bytes b) = nb_len b"
  by (auto simp: nb_ok_def nb_bytes_def)

lemma nb_room_less: "nb_ok b \<Longrightarrow> nb_room b < 65536"
  by (auto simp: nb_ok_def nb_room_def)

lemma nb_ok_grow: "nb_ok b \<Longrightarrow> n \<le> nb_room b \<Longrightarrow> nb_ok (b\<lparr>nb_len := nb_len b + n\<rparr>)"
  by (auto simp: nb_ok_def nb_room_def)

lemma nb_ok_store [simp]:
  "nb_ok b \<Longrightarrow> ptr + length xs \<le> length (nb_buf b) \<Longrightarrow> nb_ok (nb_store b ptr xs)"
  by (auto simp: nb_ok_def nb_store_def)

lemma nb_store_simps [simp]:
  "nb_data (nb_store b ptr xs) = nb_data b"
  "nb_len (nb_store b ptr xs) = nb_len b"
  "nb_size (nb_store b ptr xs) = nb_size b"
  "nb_room (nb_store b ptr xs) = nb_room b"
  by (simp_all add: nb_store_def nb_room_def)

lemma nb_store_Nil [simp]: "nb_store b ptr [] = b"
  by (simp add: nb_store_def store_at_def)

lemma nb_bytes_grow:
  "nb_bytes (b\<lparr>nb_len := nb_len b + n\<rparr>) = nb_bytes b @ nb_load b (nb_data b + nb_len b) n"
  by (simp add: nb_bytes_def nb_load_def take_add add.commute [of "nb_data b"])

lemma nb_split:
  assumes "nb_ok b"
  obtains pre post where "nb_buf b = pre @ nb_bytes b @ post" "length pre = nb_data b"
proof
  let ?m = "nb_buf b" and ?d = "nb_data b" and ?l = "nb_len b"
  show "?m = take ?d ?m @ nb_bytes b @ drop ?l (drop ?d ?m)"
    by (simp only: nb_bytes_def append_take_drop_id)
  show "length (take ?d ?m) = ?d" using assms by (auto simp: nb_ok_def)
qed

lemma nb_bytes_store_inside:
  assumes "nb_ok b" "nb_bytes b = xs @ zs @ ws" "ptr = nb_data b + length xs" "length ys = length zs"
  shows "nb_bytes (nb_store b ptr ys) = xs @ ys @ ws"
proof -
  obtain pre post where m: "nb_buf b = pre @ nb_bytes b @ post" and pre: "length pre = nb_data b"
    using assms(1) by (rule nb_split)
  have l: "nb_len b = length xs + length zs + length ws"
    using length_nb_bytes [OF assms(1)] assms(2) by simp
  have "store_at (length pre + length xs) ys (pre @ (xs @ zs @ ws) @ post) = pre @ (xs @ ys @ ws) @ post"
    by (simp add: store_at_def assms(4))
  then have "store_at ptr ys (nb_buf b) = pre @ (xs @ ys @ ws) @ post"
    unfolding m assms(2,3) pre .
  then show ?thesis
    by (simp add: nb_bytes_def nb_store_def pre [symmetric] l assms(4))
qed

lemma nb_bytes_store_end:
  assumes "nb_ok b" "nb_bytes b = xs @ zs" "ptr = nb_data b + length xs" "length ys = length zs"
  shows "nb_bytes (nb_store b ptr ys) = xs @ ys"
  using nb_bytes_store_inside [of b xs zs "[]"] assms by simp

lemma nb_load_bytes:
  assumes "nb_ok b" "nb_bytes b = xs @ ys @ zs" "ptr = nb_data b + length xs" "n = length ys"
  shows "nb_load b ptr n = ys"
proof -
  obtain pre post where m: "nb_buf b = pre @ nb_bytes b @ post" and pre: "length pre = nb_data b"
    using assms(1) by (rule nb_split)
  show ?thesis
    by (simp add: nb_load_def m assms(2-4) pre [symmetric])
qed

subsection \<open>Appending\<close>

text \<open>
  \<open>nb_app b b' xs\<close>: the buffer \<open>b'\<close> is \<open>b\<close> with \<open>xs\<close> appended to its contents. The lemmas below
  follow a sequence of library calls and pointer stores with this relation.
\<close>

definition nb_app :: "net_buf_simple \<Rightarrow> net_buf_simple \<Rightarrow> byte list \<Rightarrow> bool" where
  "nb_app b b' xs \<longleftrightarrow> nb_ok b \<and> nb_ok b' \<and> nb_data b' = nb_data b \<and> nb_size b' = nb_size b \<and>
     nb_bytes b' = nb_bytes b @ xs"

lemma nb_app_refl: "nb_ok b \<Longrightarrow> nb_app b b []"
  by (simp add: nb_app_def)

lemma nb_app_ok: "nb_app b b' xs \<Longrightarrow> nb_ok b'" "nb_app b b' xs \<Longrightarrow> nb_ok b"
  by (simp_all add: nb_app_def)

lemma nb_app_len: "nb_app b b' xs \<Longrightarrow> nb_len b' = nb_len b + length xs"
proof -
  assume app: "nb_app b b' xs"
  then have "nb_ok b'" by (simp add: nb_app_def)
  then have "nb_len b' = length (nb_bytes b')" by simp
  also have "nb_bytes b' = nb_bytes b @ xs" using app by (simp add: nb_app_def)
  finally show ?thesis using app by (simp add: nb_app_def)
qed

lemma nb_app_room: "nb_app b b' xs \<Longrightarrow> nb_room b' = nb_room b - length xs"
  using nb_app_len [of b b' xs] by (simp add: nb_app_def nb_room_def)

lemma nb_app_fits: "nb_app b b' xs \<Longrightarrow> length xs \<le> nb_room b"
  using nb_app_len [of b b' xs] by (auto simp: nb_app_def nb_room_def nb_ok_def)

lemma nb_app_store:
  assumes "nb_app b b' (xs @ zs @ ws)" "length ys = length zs"
    "ptr = nb_data b + nb_len b + length xs"
  shows "nb_app b (nb_store b' ptr ys) (xs @ ys @ ws)"
proof -
  have ok: "nb_ok b" "nb_ok b'" and d: "nb_data b' = nb_data b"
    and bytes: "nb_bytes b' = (nb_bytes b @ xs) @ zs @ ws"
    using assms(1) by (simp_all add: nb_app_def)
  have len: "nb_len b' = nb_len b + length xs + length zs + length ws"
    using nb_app_len [OF assms(1)] by simp
  have ptr: "ptr = nb_data b' + length (nb_bytes b @ xs)"
    using ok assms(3) d by simp
  have "ptr + length ys \<le> length (nb_buf b')"
    using ok(2) len d assms(2,3) by (auto simp: nb_ok_def)
  then have "nb_ok (nb_store b' ptr ys)" using ok by simp
  moreover have "nb_bytes (nb_store b' ptr ys) = (nb_bytes b @ xs) @ ys @ ws"
    by (rule nb_bytes_store_inside [OF ok(2) bytes ptr assms(2)])
  ultimately show ?thesis using assms(1) by (simp add: nb_app_def)
qed

lemma nb_app_load:
  assumes "nb_app b b' (xs @ ys @ zs)" "ptr = nb_data b + nb_len b + length xs" "n = length ys"
  shows "nb_load b' ptr n = ys"
proof (rule nb_load_bytes)
  show "nb_ok b'" "nb_bytes b' = (nb_bytes b @ xs) @ ys @ zs"
    using assms(1) by (simp_all add: nb_app_def)
  show "ptr = nb_data b' + length (nb_bytes b @ xs)"
    using assms(1,2) by (simp add: nb_app_def)
qed (rule assms(3))

context net_buf_lib
begin

lemma app_add:
  assumes "nb_app b b' xs" "length xs + n \<le> nb_room b"
  obtains junk where "length junk = n"
    "nb_app b (snd (net_buf_simple_add api b' n)) (xs @ junk)"
    "fst (net_buf_simple_add api b' n) = nb_data b + nb_len b + length xs"
proof
  let ?junk = "nb_load b' (nb_data b' + nb_len b') n"
  have ok: "nb_ok b'" and room: "n \<le> nb_room b'"
    using assms nb_app_room [OF assms(1)] by (simp_all add: nb_app_def)
  show "length ?junk = n"
    using ok room by (auto simp: nb_load_def nb_ok_def nb_room_def)
  show "nb_app b (snd (net_buf_simple_add api b' n)) (xs @ ?junk)"
    using assms(1) ok room by (simp add: add nb_app_def nb_bytes_grow nb_ok_grow)
  show "fst (net_buf_simple_add api b' n) = nb_data b + nb_len b + length xs"
    using assms(1) ok room nb_app_len [OF assms(1)] by (simp add: add nb_app_def)
qed

lemma app_add_mem:
  assumes "nb_app b b' xs" "length xs + length ys \<le> nb_room b"
  shows "nb_app b (net_buf_simple_add_mem api b' ys) (xs @ ys)"
proof -
  have ok: "nb_ok b'" and room: "length ys \<le> nb_room b'"
    using assms nb_app_room [OF assms(1)] by (simp_all add: nb_app_def)
  let ?g = "b'\<lparr>nb_len := nb_len b' + length ys\<rparr>"
  let ?junk = "nb_load b' (nb_data b' + nb_len b') (length ys)"
  have app: "nb_app b ?g (xs @ ?junk @ [])"
    using assms(1) ok room by (simp add: nb_app_def nb_bytes_grow nb_ok_grow)
  have "length ys = length ?junk"
    using ok room by (auto simp: nb_load_def nb_ok_def nb_room_def)
  moreover have "nb_data b' + nb_len b' = nb_data b + nb_len b + length xs"
    using assms(1) nb_app_len [OF assms(1)] by (simp add: nb_app_def)
  ultimately have "nb_app b (nb_store ?g (nb_data b' + nb_len b') ys) (xs @ ys @ [])"
    by (rule nb_app_store [OF app])
  moreover have "net_buf_simple_add_mem api b' ys = nb_store ?g (nb_data b' + nb_len b') ys"
    using ok room by (simp add: add_mem nb_store_def)
  ultimately show ?thesis by simp
qed

lemma pull_bytes:
  assumes "nb_ok b" "nb_bytes b = xs @ ys" "n = length xs"
  shows "nb_ok (snd (net_buf_simple_pull_mem api b n))"
    and "nb_bytes (snd (net_buf_simple_pull_mem api b n)) = ys"
    and "nb_len (snd (net_buf_simple_pull_mem api b n)) = length ys"
    and "nb_buf (snd (net_buf_simple_pull_mem api b n)) = nb_buf b"
    and "nb_load b (fst (net_buf_simple_pull_mem api b n)) n = xs"
    and "fst (net_buf_simple_pull_mem api b n) = nb_data b"
proof -
  have len: "nb_len b = length xs + length ys"
    using length_nb_bytes [OF assms(1)] assms(2) by simp
  then have eq: "net_buf_simple_pull_mem api b n =
      (nb_data b, b\<lparr>nb_data := nb_data b + n, nb_len := nb_len b - n\<rparr>)"
    using assms by (intro pull_mem) auto
  have "take n (take (nb_len b) (drop (nb_data b) (nb_buf b))) = xs"
    and dr: "drop n (take (nb_len b) (drop (nb_data b) (nb_buf b))) = ys"
    using assms(2,3) unfolding nb_bytes_def by simp_all
  then show "nb_load b (fst (net_buf_simple_pull_mem api b n)) n = xs"
    using len assms(3) unfolding eq by (simp add: nb_load_def)
  show "nb_bytes (snd (net_buf_simple_pull_mem api b n)) = ys"
    using dr by (simp add: eq nb_bytes_def drop_take add.commute)
  show "nb_ok (snd (net_buf_simple_pull_mem api b n))"
    and "nb_len (snd (net_buf_simple_pull_mem api b n)) = length ys"
    and "nb_buf (snd (net_buf_simple_pull_mem api b n)) = nb_buf b"
    and "fst (net_buf_simple_pull_mem api b n) = nb_data b"
    using assms(1,3) len unfolding eq by (auto simp: nb_ok_def)
qed

end

subsection \<open>A reference implementation\<close>

text \<open>
  The documented behaviour, executed: the instance of the interface that closed examples run on.
\<close>

definition ref_add_mem :: "net_buf_simple \<Rightarrow> byte list \<Rightarrow> net_buf_simple" where
  "ref_add_mem b xs = (nb_store b (nb_data b + nb_len b) xs)\<lparr>nb_len := nb_len b + length xs\<rparr>"

definition ref_pull_mem :: "net_buf_simple \<Rightarrow> nat \<Rightarrow> nat \<times> net_buf_simple" where
  "ref_pull_mem b n = (nb_data b, b\<lparr>nb_data := nb_data b + n, nb_len := nb_len b - n\<rparr>)"

definition ref_net_buf :: net_buf_api where
  "ref_net_buf =
    \<lparr>net_buf_simple_tailroom = nb_room,
     net_buf_simple_add = (\<lambda>b n. (nb_data b + nb_len b, b\<lparr>nb_len := nb_len b + n\<rparr>)),
     net_buf_simple_add_mem = ref_add_mem,
     net_buf_simple_add_le16 = (\<lambda>b v. ref_add_mem b (put_le 2 v)),
     net_buf_simple_add_le24 = (\<lambda>b v. ref_add_mem b (put_le 3 v)),
     net_buf_simple_add_le64 = (\<lambda>b v. ref_add_mem b (put_le 8 v)),
     net_buf_simple_remove_le64 = (\<lambda>b.
       (get_le (nb_load b (nb_data b + nb_len b - 8) 8), b\<lparr>nb_len := nb_len b - 8\<rparr>)),
     net_buf_simple_pull_mem = ref_pull_mem,
     net_buf_simple_pull_le16 = (\<lambda>b. (get_le (nb_load b (nb_data b) 2), snd (ref_pull_mem b 2))),
     net_buf_simple_pull_le24 = (\<lambda>b. (get_le (nb_load b (nb_data b) 3), snd (ref_pull_mem b 3))),
     net_buf_simple_push = (\<lambda>b n. b\<lparr>nb_data := nb_data b - n, nb_len := nb_len b + n\<rparr>),
     net_buf_simple_reserve = (\<lambda>b n. b\<lparr>nb_data := nb_data b + n\<rparr>),
     net_buf_simple_reset = (\<lambda>b. b\<lparr>nb_data := 0, nb_len := 0\<rparr>),
     net_buf_simple_init_with_data = (\<lambda>mem sz.
       \<lparr>nb_buf = mem, nb_data = 0, nb_len = sz, nb_size = sz\<rparr>)\<rparr>"

interpretation ref_nb: net_buf_lib ref_net_buf
  by unfold_locales (simp_all add: ref_net_buf_def ref_add_mem_def ref_pull_mem_def)

end
