(* ===== verification/Tdf_Diffs.thy ===== *)
theory Tdf_Diffs
  imports Infuse_Base
begin

text \<open>
  \<open>subsys/tdf/diffs.c\<close>: the three difference codecs of the Tagged Data Format (TDF). A TDF whose
  fields are all 16 or 32 bit integers can be stored as the difference to its predecessor, in 8 or 16
  bits per field. Each codec is three functions (the function-pointer types of \<open>diffs.h\<close>): \<open>check\<close>
  says whether every field's difference is representable, \<open>encode\<close> writes the differences, \<open>apply\<close>
  adds one row of differences to a TDF.

  The locale \<open>tdf_diff_codec\<close> is that interface with the laws the TDF encoder and decoder rely on; it
  is interpreted for each of the three codecs, and its client lemma is that replaying encoded
  differences yields the original sequence of TDFs.
\<close>

subsection \<open>Unaligned field access\<close>

definition get_u8 :: "byte list \<Rightarrow> nat \<Rightarrow> byte" where
  "get_u8 bs i = word_of_nat (get_le (take 1 (drop i bs)))"

definition get_u16 :: "byte list \<Rightarrow> nat \<Rightarrow> word16" where
  "get_u16 bs i = word_of_nat (get_le (take 2 (drop (i * 2) bs)))"

definition get_u32 :: "byte list \<Rightarrow> nat \<Rightarrow> word32" where
  "get_u32 bs i = word_of_nat (get_le (take 4 (drop (i * 4) bs)))"

definition put_u16 :: "word16 \<Rightarrow> byte list" where "put_u16 w = put_le 2 (unat w)"
definition put_u32 :: "word32 \<Rightarrow> byte list" where "put_u32 w = put_le 4 (unat w)"

lemma length_put_u [simp]: "length (put_u16 w) = 2" "length (put_u32 v) = 4"
  by (simp_all add: put_u16_def put_u32_def)

subsection \<open>The codecs\<close>

definition tdf_diff_check_16_8 :: "nat \<Rightarrow> byte list \<Rightarrow> byte list \<Rightarrow> bool" where
  "tdf_diff_check_16_8 tdf_len current next =
     list_all (\<lambda>i. let c_val = get_u16 current i; n_val = get_u16 next i;
                      diff = (ucast (n_val - c_val) :: byte);
                      res = c_val + (scast diff :: word16)
                  in res = n_val) [0..<tdf_len div 2]"

definition tdf_diff_encode_16_8 :: "nat \<Rightarrow> byte list \<Rightarrow> byte list \<Rightarrow> byte list" where
  "tdf_diff_encode_16_8 num_fields current next =
     concat (map (\<lambda>i. [ucast (get_u16 next i - get_u16 current i) :: byte]) [0..<num_fields])"

definition tdf_diff_apply_16_8 :: "nat \<Rightarrow> byte list \<Rightarrow> byte list \<Rightarrow> byte list" where
  "tdf_diff_apply_16_8 tdf_len base diffs =
     concat (map (\<lambda>i. put_u16 (get_u16 base i + scast (get_u8 diffs i))) [0..<tdf_len div 2])"

definition tdf_diff_check_32_8 :: "nat \<Rightarrow> byte list \<Rightarrow> byte list \<Rightarrow> bool" where
  "tdf_diff_check_32_8 tdf_len current next =
     list_all (\<lambda>i. let c_val = get_u32 current i; n_val = get_u32 next i;
                      diff = (ucast (n_val - c_val) :: byte);
                      res = c_val + (scast diff :: word32)
                  in res = n_val) [0..<tdf_len div 4]"

definition tdf_diff_encode_32_8 :: "nat \<Rightarrow> byte list \<Rightarrow> byte list \<Rightarrow> byte list" where
  "tdf_diff_encode_32_8 num_fields current next =
     concat (map (\<lambda>i. [ucast (get_u32 next i - get_u32 current i) :: byte]) [0..<num_fields])"

definition tdf_diff_apply_32_8 :: "nat \<Rightarrow> byte list \<Rightarrow> byte list \<Rightarrow> byte list" where
  "tdf_diff_apply_32_8 tdf_len base diffs =
     concat (map (\<lambda>i. put_u32 (get_u32 base i + scast (get_u8 diffs i))) [0..<tdf_len div 4])"

definition tdf_diff_check_32_16 :: "nat \<Rightarrow> byte list \<Rightarrow> byte list \<Rightarrow> bool" where
  "tdf_diff_check_32_16 tdf_len current next =
     list_all (\<lambda>i. let c_val = get_u32 current i; n_val = get_u32 next i;
                      diff = (ucast (n_val - c_val) :: word16);
                      res = c_val + (scast diff :: word32)
                  in res = n_val) [0..<tdf_len div 4]"

definition tdf_diff_encode_32_16 :: "nat \<Rightarrow> byte list \<Rightarrow> byte list \<Rightarrow> byte list" where
  "tdf_diff_encode_32_16 num_fields current next =
     concat (map (\<lambda>i. put_u16 (ucast (get_u32 next i - get_u32 current i))) [0..<num_fields])"

definition tdf_diff_apply_32_16 :: "nat \<Rightarrow> byte list \<Rightarrow> byte list \<Rightarrow> byte list" where
  "tdf_diff_apply_32_16 tdf_len base diffs =
     concat (map (\<lambda>i. put_u32 (get_u32 base i + scast (get_u16 diffs i))) [0..<tdf_len div 4])"

subsection \<open>Field lemmas\<close>

lemma get_u16_put [simp]: "word_of_nat (get_le (put_u16 w)) = (w :: word16)"
  by (simp add: put_u16_def)

lemma get_u32_put [simp]: "word_of_nat (get_le (put_u32 w)) = (w :: word32)"
  by (simp add: put_u32_def)

lemma put_u16_get: "(i + 1) * 2 \<le> length bs \<Longrightarrow> put_u16 (get_u16 bs i) = take 2 (drop (i * 2) bs)"
proof -
  assume "(i + 1) * 2 \<le> length bs"
  then have l: "length (take 2 (drop (i * 2) bs)) = 2" by simp
  have "get_le (take 2 (drop (i * 2) bs)) < 256 ^ 2"
    using get_le_less [of "take 2 (drop (i * 2) bs)"] l by simp
  then have "unat (get_u16 bs i) = get_le (take 2 (drop (i * 2) bs))"
    by (simp add: get_u16_def unat_of_nat)
  then show ?thesis
    using put_get_le [of "take 2 (drop (i * 2) bs)"] l by (simp add: put_u16_def)
qed

lemma put_u32_get: "(i + 1) * 4 \<le> length bs \<Longrightarrow> put_u32 (get_u32 bs i) = take 4 (drop (i * 4) bs)"
proof -
  assume "(i + 1) * 4 \<le> length bs"
  then have l: "length (take 4 (drop (i * 4) bs)) = 4" by simp
  have "get_le (take 4 (drop (i * 4) bs)) < 256 ^ 4"
    using get_le_less [of "take 4 (drop (i * 4) bs)"] l by simp
  then have "unat (get_u32 bs i) = get_le (take 4 (drop (i * 4) bs))"
    by (simp add: get_u32_def unat_of_nat)
  then show ?thesis
    using put_get_le [of "take 4 (drop (i * 4) bs)"] l by (simp add: put_u32_def)
qed

lemma get_drop [simp]:
  "get_u8 (drop k bs) i = get_u8 bs (k + i)"
  "get_u16 (drop (k * 2) bs) i = get_u16 bs (k + i)"
  "get_u32 (drop (k * 4) bs) i = get_u32 bs (k + i)"
  by (simp_all add: get_u8_def get_u16_def get_u32_def drop_drop_mult add.commute)

lemma get_take:
  "i < n \<Longrightarrow> get_u8 (take n bs) i = get_u8 bs i"
  "i < n \<Longrightarrow> get_u16 (take (n * 2) bs) i = get_u16 bs i"
  "i < n \<Longrightarrow> get_u32 (take (n * 4) bs) i = get_u32 bs i"
  by (simp_all add: get_u8_def get_u16_def get_u32_def take_drop min_def)

lemma get_u8_map [simp]: "i < n \<Longrightarrow> get_u8 (map f [0..<n]) i = f i"
  by (simp add: get_u8_def take_Suc_conv_app_nth drop_map)

lemma get_u16_encode [simp]: "i < n \<Longrightarrow> get_u16 (concat (map (\<lambda>i. put_u16 (f i)) [0..<n])) i = f i"
  using slice_concat_map [of "\<lambda>i. put_u16 (f i)" 2 i 1 n] by (simp add: get_u16_def)

text \<open>The rows of consecutive fields of an array are its slices.\<close>

lemma concat_put_u16_get:
  "n * 2 \<le> length bs \<Longrightarrow> concat (map (\<lambda>i. put_u16 (get_u16 bs i)) [0..<n]) = take (n * 2) bs"
proof (induction n)
  case (Suc n)
  then show ?case
    by (simp add: put_u16_get take_add [of "n * 2" 2, symmetric] add.commute)
qed simp

lemma concat_put_u32_get:
  "n * 4 \<le> length bs \<Longrightarrow> concat (map (\<lambda>i. put_u32 (get_u32 bs i)) [0..<n]) = take (n * 4) bs"
proof (induction n)
  case (Suc n)
  then show ?case
    by (simp add: put_u32_get take_add [of "n * 4" 4, symmetric] add.commute)
qed simp

subsection \<open>The codec interface\<close>

text \<open>
  The loop of \<open>tdf_parse_diff_reconstruct\<close>: starting from the base TDF, apply one row of \<open>row\<close>
  difference bytes per iteration.
\<close>

fun diff_replay :: "(byte list \<Rightarrow> byte list \<Rightarrow> byte list) \<Rightarrow> nat \<Rightarrow> nat \<Rightarrow> byte list \<Rightarrow> byte list \<Rightarrow> byte list" where
  "diff_replay ap row 0 out diffs = out"
| "diff_replay ap row (Suc n) out diffs = diff_replay ap row n (ap out diffs) (drop row diffs)"

locale tdf_diff_codec =
  fixes field_bytes diff_bytes :: nat
    and check :: "nat \<Rightarrow> byte list \<Rightarrow> byte list \<Rightarrow> bool"
    and encode :: "nat \<Rightarrow> byte list \<Rightarrow> byte list \<Rightarrow> byte list"
    and apply_diff :: "nat \<Rightarrow> byte list \<Rightarrow> byte list \<Rightarrow> byte list"
  assumes field_pos: "0 < field_bytes"
    and diff_pos: "0 < diff_bytes"
    and length_encode: "length (encode n c x) = n * diff_bytes"
    and length_apply: "field_bytes dvd len \<Longrightarrow> length (apply_diff len b d) = len"
    and encode_rows: "k + m \<le> n \<Longrightarrow>
      take (m * diff_bytes) (drop (k * diff_bytes) (encode n c x)) =
      encode m (drop (k * field_bytes) c) (drop (k * field_bytes) x)"
    and apply_local: "field_bytes dvd len \<Longrightarrow>
      apply_diff len (take len b) (take (len div field_bytes * diff_bytes) d) = apply_diff len b d"
    and apply_encode: "field_bytes dvd len \<Longrightarrow> len \<le> length x \<Longrightarrow> check len c x \<Longrightarrow>
      apply_diff len c (encode (len div field_bytes) c x) = take len x"
begin

lemma apply_first_row:
  assumes "field_bytes dvd len" "len \<le> length x" "check len c x" "len div field_bytes \<le> n"
  shows "apply_diff len (take len c) (encode n c x) = take len x"
proof -
  let ?f = "len div field_bytes"
  have row: "take (?f * diff_bytes) (encode n c x) = encode ?f c x"
    using encode_rows [of 0 ?f n c x] assms(4) by simp
  have "apply_diff len (take len c) (encode n c x) =
      apply_diff len c (take (?f * diff_bytes) (encode n c x))"
    using apply_local [OF assms(1), of "take len c" "encode n c x"]
      apply_local [OF assms(1), of c "take (?f * diff_bytes) (encode n c x)"] by simp
  then show ?thesis
    using assms row by (simp add: apply_encode)
qed

lemma encode_tail:
  assumes "field_bytes dvd len"
  shows "drop (len div field_bytes * diff_bytes) (encode (Suc n * (len div field_bytes)) c x) =
    encode (n * (len div field_bytes)) (drop len c) (drop len x)"
proof -
  let ?f = "len div field_bytes"
  have f: "?f * field_bytes = len" using assms by simp
  have "take (n * ?f * diff_bytes) (drop (?f * diff_bytes) (encode (Suc n * ?f) c x)) =
      encode (n * ?f) (drop (?f * field_bytes) c) (drop (?f * field_bytes) x)"
    by (rule encode_rows) simp
  moreover have "length (drop (?f * diff_bytes) (encode (Suc n * ?f) c x)) = n * ?f * diff_bytes"
    by (simp add: length_encode algebra_simps)
  ultimately show ?thesis
    by (simp only: f) (metis order_refl take_all)
qed

lemma replay_prefix:
  assumes "field_bytes dvd len" "j * (len div field_bytes * diff_bytes) \<le> length d"
  shows "diff_replay (apply_diff len) (len div field_bytes * diff_bytes) j out (d @ post) =
    diff_replay (apply_diff len) (len div field_bytes * diff_bytes) j out d"
  using assms(2)
proof (induction j arbitrary: out d)
  case (Suc j)
  let ?row = "len div field_bytes * diff_bytes"
  have row: "?row \<le> length d" and rest: "j * ?row \<le> length (drop ?row d)" using Suc.prems by simp_all
  have "apply_diff len out (d @ post) = apply_diff len out d"
    using apply_local [OF assms(1), of out "d @ post"] apply_local [OF assms(1), of out d] row by simp
  then show ?case using Suc.IH [OF rest] row by simp
qed simp

lemma replay_encode:
  assumes "field_bytes dvd len" "j \<le> n" "Suc n * len \<le> length xs"
    and "\<And>i. i < n \<Longrightarrow> check len (drop (i * len) xs) (drop (Suc i * len) xs)"
  shows "diff_replay (apply_diff len) (len div field_bytes * diff_bytes) j (take len xs)
     (encode (n * (len div field_bytes)) xs (drop len xs)) = take len (drop (j * len) xs)"
  using assms(2-)
proof (induction j arbitrary: n xs)
  case 0
  then show ?case by simp
next
  case (Suc j)
  then obtain n' where n: "n = Suc n'" by (cases n) auto
  let ?f = "len div field_bytes" and ?ys = "drop len xs"
  let ?E = "encode (n * ?f) xs ?ys"
  have chk: "check len xs ?ys" using Suc.prems(3) [of 0] n by simp
  have "apply_diff len (take len xs) ?E = take len ?ys"
    using Suc.prems(2) n by (intro apply_first_row [OF assms(1) _ chk]) auto
  moreover have "drop (?f * diff_bytes) ?E = encode (n' * ?f) ?ys (drop len ?ys)"
    unfolding n by (rule encode_tail [OF assms(1)])
  moreover have "diff_replay (apply_diff len) (?f * diff_bytes) j (take len ?ys)
      (encode (n' * ?f) ?ys (drop len ?ys)) = take len (drop (j * len) ?ys)"
  proof (rule Suc.IH)
    show "check len (drop (i * len) ?ys) (drop (Suc i * len) ?ys)" if "i < n'" for i
      using Suc.prems(3) [of "Suc i"] that n by (simp add: algebra_simps)
  qed (use Suc.prems n in auto)
  ultimately show ?case by (simp add: algebra_simps)
qed

end

subsection \<open>The codecs satisfy the interface\<close>

lemmas codec_16_8_defs = tdf_diff_check_16_8_def tdf_diff_encode_16_8_def tdf_diff_apply_16_8_def
lemmas codec_32_8_defs = tdf_diff_check_32_8_def tdf_diff_encode_32_8_def tdf_diff_apply_32_8_def
lemmas codec_32_16_defs =
  tdf_diff_check_32_16_def tdf_diff_encode_32_16_def tdf_diff_apply_32_16_def

lemma concat_map_cong: "(\<And>i. i < n \<Longrightarrow> f i = g i) \<Longrightarrow> concat (map f [0..<n]) = concat (map g [0..<n])"
  by (metis (mono_tags, lifting) atLeastLessThan_iff map_eq_conv set_upt)

lemma map_shift: "map f [k..<k + m] = map (\<lambda>i. f (k + i)) [0..<m]"
  by (induction m) auto

interpretation d16_8: tdf_diff_codec 2 1 tdf_diff_check_16_8 tdf_diff_encode_16_8 tdf_diff_apply_16_8
proof
  fix n k m len :: nat and c x b d :: "byte list"
  show "length (tdf_diff_encode_16_8 n c x) = n * 1"
    by (simp add: codec_16_8_defs length_concat_const)
  show "k + m \<le> n \<Longrightarrow> take (m * 1) (drop (k * 1) (tdf_diff_encode_16_8 n c x)) =
      tdf_diff_encode_16_8 m (drop (k * 2) c) (drop (k * 2) x)"
    unfolding tdf_diff_encode_16_8_def
    by (subst slice_concat_map) (simp_all add: map_shift)
  assume len: "2 dvd len"
  show "length (tdf_diff_apply_16_8 len b d) = len"
    using len by (simp add: codec_16_8_defs length_concat_const [where d = 2])
  show "tdf_diff_apply_16_8 len (take len b) (take (len div 2 * 1) d) = tdf_diff_apply_16_8 len b d"
    unfolding tdf_diff_apply_16_8_def using len
    by (intro concat_map_cong) (metis dvd_div_mult_self get_take(1,2) mult.right_neutral)
  show "tdf_diff_apply_16_8 len c (tdf_diff_encode_16_8 (len div 2) c x) = take len x"
    if "len \<le> length x" "tdf_diff_check_16_8 len c x"
  proof -
    have "tdf_diff_apply_16_8 len c (tdf_diff_encode_16_8 (len div 2) c x) =
        concat (map (\<lambda>i. put_u16 (get_u16 x i)) [0..<len div 2])"
      using that(2) unfolding codec_16_8_defs
      by (intro concat_map_cong) (simp add: list_all_iff Let_def)
    then show ?thesis using len that(1) by (simp add: concat_put_u16_get)
  qed
qed simp_all

interpretation d32_8: tdf_diff_codec 4 1 tdf_diff_check_32_8 tdf_diff_encode_32_8 tdf_diff_apply_32_8
proof
  fix n k m len :: nat and c x b d :: "byte list"
  show "length (tdf_diff_encode_32_8 n c x) = n * 1"
    by (simp add: codec_32_8_defs length_concat_const)
  show "k + m \<le> n \<Longrightarrow> take (m * 1) (drop (k * 1) (tdf_diff_encode_32_8 n c x)) =
      tdf_diff_encode_32_8 m (drop (k * 4) c) (drop (k * 4) x)"
    unfolding tdf_diff_encode_32_8_def
    by (subst slice_concat_map) (simp_all add: map_shift)
  assume len: "4 dvd len"
  show "length (tdf_diff_apply_32_8 len b d) = len"
    using len by (simp add: codec_32_8_defs length_concat_const [where d = 4])
  show "tdf_diff_apply_32_8 len (take len b) (take (len div 4 * 1) d) = tdf_diff_apply_32_8 len b d"
    unfolding tdf_diff_apply_32_8_def using len
    by (intro concat_map_cong) (metis dvd_div_mult_self get_take(1,3) mult.right_neutral)
  show "tdf_diff_apply_32_8 len c (tdf_diff_encode_32_8 (len div 4) c x) = take len x"
    if "len \<le> length x" "tdf_diff_check_32_8 len c x"
  proof -
    have "tdf_diff_apply_32_8 len c (tdf_diff_encode_32_8 (len div 4) c x) =
        concat (map (\<lambda>i. put_u32 (get_u32 x i)) [0..<len div 4])"
      using that(2) unfolding codec_32_8_defs
      by (intro concat_map_cong) (simp add: list_all_iff Let_def)
    then show ?thesis using len that(1) by (simp add: concat_put_u32_get)
  qed
qed simp_all

interpretation d32_16: tdf_diff_codec 4 2 tdf_diff_check_32_16 tdf_diff_encode_32_16 tdf_diff_apply_32_16
proof
  fix n k m len :: nat and c x b d :: "byte list"
  show "length (tdf_diff_encode_32_16 n c x) = n * 2"
    by (simp add: codec_32_16_defs length_concat_const [where d = 2])
  show "k + m \<le> n \<Longrightarrow> take (m * 2) (drop (k * 2) (tdf_diff_encode_32_16 n c x)) =
      tdf_diff_encode_32_16 m (drop (k * 4) c) (drop (k * 4) x)"
    unfolding tdf_diff_encode_32_16_def
    by (subst slice_concat_map) (simp_all add: map_shift)
  assume len: "4 dvd len"
  show "length (tdf_diff_apply_32_16 len b d) = len"
    using len by (simp add: codec_32_16_defs length_concat_const [where d = 4])
  show "tdf_diff_apply_32_16 len (take len b) (take (len div 4 * 2) d) = tdf_diff_apply_32_16 len b d"
    unfolding tdf_diff_apply_32_16_def using len
    by (intro concat_map_cong) (metis dvd_div_mult_self get_take(2,3))
  show "tdf_diff_apply_32_16 len c (tdf_diff_encode_32_16 (len div 4) c x) = take len x"
    if "len \<le> length x" "tdf_diff_check_32_16 len c x"
  proof -
    have "tdf_diff_apply_32_16 len c (tdf_diff_encode_32_16 (len div 4) c x) =
        concat (map (\<lambda>i. put_u32 (get_u32 x i)) [0..<len div 4])"
      using that(2) unfolding codec_32_16_defs
      by (intro concat_map_cong) (simp add: list_all_iff Let_def)
    then show ?thesis using len that(1) by (simp add: concat_put_u32_get)
  qed
qed simp_all

end
