(* ===== verification/Epoch_Time.thy ===== *)
theory Epoch_Time
  imports Infuse_Base
begin

text \<open>
  Epoch time, \<open>include/infuse/time/epoch.h\<close> and \<open>lib/time/epoch.c\<close>: a 64 bit count of 1/65536 seconds
  since the GPS epoch. First the packing of seconds and subseconds, the conversions from GPS and Unix
  time and the classification of time sources (the inline functions of the header); then the
  reference instant that links the local tick counter to epoch time.
\<close>

subsection \<open>Packing and conversions\<close>

definition epoch_time_seconds :: "word64 \<Rightarrow> word64" where
  "epoch_time_seconds epoch_time = drop_bit 16 epoch_time"

definition epoch_time_subseconds :: "word64 \<Rightarrow> word16" where
  "epoch_time_subseconds epoch_time = ucast (epoch_time AND 0xFFFF)"

definition epoch_time_from :: "word64 \<Rightarrow> word16 \<Rightarrow> word64" where
  "epoch_time_from seconds subseconds = push_bit 16 seconds OR ucast subseconds"

definition SECONDS_PER_WEEK :: nat where "SECONDS_PER_WEEK = 7 * 24 * 60 * 60"

definition epoch_time_from_gps :: "word16 \<Rightarrow> word32 \<Rightarrow> word16 \<Rightarrow> word64" where
  "epoch_time_from_gps week week_seconds subseconds =
     (let seconds = of_nat SECONDS_PER_WEEK * ucast week + ucast week_seconds
      in epoch_time_from seconds subseconds)"

definition GPS_UNIX_OFFSET_LEAP :: nat where "GPS_UNIX_OFFSET_LEAP = 18"
definition GPS_UNIX_OFFSET_BASE :: nat where "GPS_UNIX_OFFSET_BASE = 315964800"

definition unix_time_from_epoch :: "word64 \<Rightarrow> word32" where
  "unix_time_from_epoch epoch_time =
     ucast (epoch_time_seconds epoch_time + of_nat GPS_UNIX_OFFSET_BASE - of_nat GPS_UNIX_OFFSET_LEAP)"

definition epoch_time_from_unix :: "word32 \<Rightarrow> word16 \<Rightarrow> word64" where
  "epoch_time_from_unix unix_time subseconds =
     (let epoch_seconds = ucast (unix_time - of_nat GPS_UNIX_OFFSET_BASE + of_nat GPS_UNIX_OFFSET_LEAP)
      in epoch_time_from epoch_seconds subseconds)"

text \<open>The two halves of an epoch time, as numbers.\<close>

lemma unat_epoch_time_seconds: "unat (epoch_time_seconds t) = unat t div 65536"
  by (simp add: epoch_time_seconds_def unsigned_drop_bit_eq)
    (simp add: drop_bit_eq_div take_bit_eq_mod)

lemma unat_epoch_time_subseconds: "unat (epoch_time_subseconds t) = unat t mod 65536"
proof -
  have "t AND 0xFFFF = take_bit 16 t"
    by (simp add: take_bit_eq_mask mask_eq_exp_minus_1)
  then show ?thesis
    by (simp add: epoch_time_subseconds_def unsigned_ucast_eq unsigned_take_bit_eq)
      (simp add: take_bit_eq_mod)
qed

lemma unat_epoch_time_from:
  assumes "unat s < 2 ^ 48"
  shows "unat (epoch_time_from s ss) = unat s * 65536 + unat ss"
proof -
  have "push_bit 16 s AND (ucast ss :: word64) = 0"
    by (rule bit_word_eqI) (auto simp: bit_simps dest: bit_imp_le_length)
  then have "epoch_time_from s ss = push_bit 16 s + ucast ss"
    by (simp add: epoch_time_from_def disjunctive_add_eq_or)
  moreover have "unat (push_bit 16 s) = unat s * 65536"
    using assms by (simp add: unsigned_push_bit_eq) (simp add: push_bit_eq_mult take_bit_eq_mod)
  moreover have "unat (ucast ss :: word64) = unat ss"
    by (simp add: unsigned_ucast_eq take_bit_eq_mod mod_less order_less_trans [OF unat_word16_less])
  moreover have "unat s * 65536 + unat ss < 2 ^ 64"
    using assms unat_word16_less [of ss] by (simp del: unat_word16_less)
  ultimately show ?thesis by (simp add: unat_word_ariths)
qed

lemma epoch_time_from_parts:
  "epoch_time_from (epoch_time_seconds t) (epoch_time_subseconds t) = t"
proof -
  have "unat (epoch_time_seconds t) < 2 ^ 48"
    by (simp add: unat_epoch_time_seconds) (use unat_word64_less [of t] in linarith)
  then have "unat (epoch_time_from (epoch_time_seconds t) (epoch_time_subseconds t)) = unat t"
    by (simp add: unat_epoch_time_from unat_epoch_time_seconds unat_epoch_time_subseconds)
  then show ?thesis by (simp only: word_unat_eq_iff)
qed

end
