(* ===== verification/Tdf_Core.thy ===== *)
theory Tdf_Core
  imports Net_Buf Tdf_Diffs Epoch_Time
begin

text \<open>
  The encoder of the Tagged Data Format, \<open>subsys/tdf/tdf.c\<close> lines 18 to 434 with
  \<open>include/infuse/tdf/tdf.h\<close>, built with \<open>CONFIG_TDF_DIFF\<close>. \<open>tdf_add_core\<close> appends samples to a buffer:
  a header (identifier, flags, sample length), an optional timestamp relative to the previous one on
  the buffer, an optional array header, and the samples, either verbatim or as a base sample and its
  differences. The function is split along its phases; each phase names its lines.

  Structures are packed: \<open>struct tdf_header\<close> is \<open>id_flags\<close> (2 bytes) then \<open>size\<close>; \<open>struct tdf_array_header\<close>
  is \<open>num\<close> or \<open>diff_info\<close> (1 byte) then \<open>period\<close> or \<open>sample_num\<close> (2 bytes); \<open>struct tdf_time\<close> is
  \<open>seconds\<close> (4 bytes) then \<open>subseconds\<close> (2 bytes).
\<close>

subsection \<open>Constants and state\<close>

abbreviation TDF_DATA_FORMAT_SINGLE :: byte where "TDF_DATA_FORMAT_SINGLE \<equiv> 0"
abbreviation TDF_DATA_FORMAT_TIME_ARRAY :: byte where "TDF_DATA_FORMAT_TIME_ARRAY \<equiv> 1"
abbreviation TDF_DATA_FORMAT_IDX_ARRAY :: byte where "TDF_DATA_FORMAT_IDX_ARRAY \<equiv> 2"
abbreviation TDF_DATA_FORMAT_DIFF_ARRAY_16_8 :: byte where "TDF_DATA_FORMAT_DIFF_ARRAY_16_8 \<equiv> 3"
abbreviation TDF_DATA_FORMAT_DIFF_ARRAY_32_8 :: byte where "TDF_DATA_FORMAT_DIFF_ARRAY_32_8 \<equiv> 4"
abbreviation TDF_DATA_FORMAT_DIFF_ARRAY_32_16 :: byte where "TDF_DATA_FORMAT_DIFF_ARRAY_32_16 \<equiv> 5"
abbreviation TDF_DATA_FORMAT_INVALID :: byte where "TDF_DATA_FORMAT_INVALID \<equiv> 6"
abbreviation TDF_DATA_FORMAT_DIFF_PRECOMPUTED :: byte where "TDF_DATA_FORMAT_DIFF_PRECOMPUTED \<equiv> 0x80"

abbreviation TDF_TIMESTAMP_NONE :: word16 where "TDF_TIMESTAMP_NONE \<equiv> 0"
abbreviation TDF_TIMESTAMP_ABSOLUTE :: word16 where "TDF_TIMESTAMP_ABSOLUTE \<equiv> 0x4000"
abbreviation TDF_TIMESTAMP_RELATIVE :: word16 where "TDF_TIMESTAMP_RELATIVE \<equiv> 0x8000"
abbreviation TDF_TIMESTAMP_EXTENDED_RELATIVE :: word16 where "TDF_TIMESTAMP_EXTENDED_RELATIVE \<equiv> 0xC000"
abbreviation TDF_ARRAY_TIME :: word16 where "TDF_ARRAY_TIME \<equiv> 0x1000"
abbreviation TDF_ARRAY_DIFF :: word16 where "TDF_ARRAY_DIFF \<equiv> 0x2000"
abbreviation TDF_ARRAY_IDX :: word16 where "TDF_ARRAY_IDX \<equiv> 0x3000"

definition TDF_MAXIMUM_DIFFS :: nat where "TDF_MAXIMUM_DIFFS = 64"
definition TDF_ARRAY_TIME_SCALE_FACTOR :: nat where "TDF_ARRAY_TIME_SCALE_FACTOR = 8192"
definition TDF_ARRAY_TIME_PERIOD_VAL_MASK :: nat where "TDF_ARRAY_TIME_PERIOD_VAL_MASK = 0x7FFF"
definition TDF_ARRAY_TIME_PERIOD_MAX :: nat where
  "TDF_ARRAY_TIME_PERIOD_MAX = TDF_ARRAY_TIME_PERIOD_VAL_MASK * TDF_ARRAY_TIME_SCALE_FACTOR"

record tdf_buffer_state =
  tbs_time :: word64
  tbs_buf :: net_buf_simple

text \<open>The tables indexed by the format. The code indexes them with a difference format only.\<close>

definition tdf_diff_divisor :: "byte \<Rightarrow> nat" where
  "tdf_diff_divisor format =
    (if format = TDF_DATA_FORMAT_DIFF_ARRAY_16_8 then 2
     else if format = TDF_DATA_FORMAT_DIFF_ARRAY_32_8 then 4
     else if format = TDF_DATA_FORMAT_DIFF_ARRAY_32_16 then 4 else 0)"

definition tdf_diff_size :: "byte \<Rightarrow> nat" where
  "tdf_diff_size format =
    (if format = TDF_DATA_FORMAT_DIFF_ARRAY_16_8 then 1
     else if format = TDF_DATA_FORMAT_DIFF_ARRAY_32_8 then 1
     else if format = TDF_DATA_FORMAT_DIFF_ARRAY_32_16 then 2 else 0)"

definition tdf_diff_encoded :: "byte \<Rightarrow> byte" where
  "tdf_diff_encoded format =
    (if format = TDF_DATA_FORMAT_DIFF_ARRAY_16_8 then 1
     else if format = TDF_DATA_FORMAT_DIFF_ARRAY_32_8 then 2
     else if format = TDF_DATA_FORMAT_DIFF_ARRAY_32_16 then 3 else 0)"

definition tdf_diff_check_functions :: "byte \<Rightarrow> nat \<Rightarrow> byte list \<Rightarrow> byte list \<Rightarrow> bool" where
  "tdf_diff_check_functions format =
    (if format = TDF_DATA_FORMAT_DIFF_ARRAY_16_8 then tdf_diff_check_16_8
     else if format = TDF_DATA_FORMAT_DIFF_ARRAY_32_8 then tdf_diff_check_32_8
     else tdf_diff_check_32_16)"

definition tdf_diff_encode_functions :: "byte \<Rightarrow> nat \<Rightarrow> byte list \<Rightarrow> byte list \<Rightarrow> byte list" where
  "tdf_diff_encode_functions format =
    (if format = TDF_DATA_FORMAT_DIFF_ARRAY_16_8 then tdf_diff_encode_16_8
     else if format = TDF_DATA_FORMAT_DIFF_ARRAY_32_8 then tdf_diff_encode_32_8
     else tdf_diff_encode_32_16)"

definition tdf_diff_apply_functions :: "byte \<Rightarrow> nat \<Rightarrow> byte list \<Rightarrow> byte list \<Rightarrow> byte list" where
  "tdf_diff_apply_functions format =
    (if format = TDF_DATA_FORMAT_DIFF_ARRAY_16_8 then tdf_diff_apply_16_8
     else if format = TDF_DATA_FORMAT_DIFF_ARRAY_32_8 then tdf_diff_apply_32_8
     else tdf_diff_apply_32_16)"

definition is_diff_format :: "byte \<Rightarrow> bool" where
  "is_diff_format format \<longleftrightarrow>
     format = TDF_DATA_FORMAT_DIFF_ARRAY_16_8 \<or> format = TDF_DATA_FORMAT_DIFF_ARRAY_32_8 \<or>
     format = TDF_DATA_FORMAT_DIFF_ARRAY_32_16"

subsection \<open>How many differences are valid\<close>

text \<open>
  The two loops of \<open>tdf_num_valid_diffs\<close>; \<open>p0\<close> is the offset of the pointer of that name into the
  data, and \<open>p1\<close> is always \<open>p0 + tdf_len\<close>. The first loop returns its counter and \<open>p0\<close>.
\<close>

function valid_diffs_first ::
    "(byte list \<Rightarrow> byte list \<Rightarrow> bool) \<Rightarrow> nat \<Rightarrow> nat \<Rightarrow> byte list \<Rightarrow> nat \<Rightarrow> nat \<Rightarrow> nat \<times> nat" where
  "valid_diffs_first check_fn tdf_len tdf_num data i p0 =
     (if i < tdf_num - 2 then
        if check_fn (drop p0 data) (drop (p0 + tdf_len) data) then
          if check_fn (drop (p0 + tdf_len) data) (drop (p0 + 2 * tdf_len) data)
          then (i, p0 + 2 * tdf_len)
          else valid_diffs_first check_fn tdf_len tdf_num data (i + 2) (p0 + 2 * tdf_len)
        else valid_diffs_first check_fn tdf_len tdf_num data (i + 1) (p0 + tdf_len)
      else (i, p0))"
  by pat_completeness auto
termination by (relation "measure (\<lambda>(_, _, num, _, i, _). num - i)") auto

function valid_diffs_count ::
    "(byte list \<Rightarrow> byte list \<Rightarrow> bool) \<Rightarrow> nat \<Rightarrow> nat \<Rightarrow> byte list \<Rightarrow> nat \<Rightarrow> nat \<Rightarrow> nat" where
  "valid_diffs_count check_fn tdf_len tdf_num data i p0 =
     (if i < tdf_num - 1 then
        if \<not> check_fn (drop p0 data) (drop (p0 + tdf_len) data) then i
        else valid_diffs_count check_fn tdf_len tdf_num data (i + 1) (p0 + tdf_len)
      else i)"
  by pat_completeness auto
termination by (relation "measure (\<lambda>(_, _, num, _, i, _). num - i)") auto

declare valid_diffs_first.simps [simp del] valid_diffs_count.simps [simp del]

definition tdf_num_valid_diffs :: "byte \<Rightarrow> nat \<Rightarrow> nat \<Rightarrow> byte list \<Rightarrow> int" where
  "tdf_num_valid_diffs diff_type tdf_len tdf_num data =
     (let check_fn = tdf_diff_check_functions diff_type tdf_len;
          (i, p0) = valid_diffs_first check_fn tdf_len tdf_num data 0 0
      in if i = 0 then
           int (valid_diffs_count check_fn tdf_len (min tdf_num TDF_MAXIMUM_DIFFS) data 2 p0)
         else if i = tdf_num - 2 then - int (i + 2)
         else - int i)"

subsection \<open>Adding samples\<close>

definition tdf_input_validate ::
    "word16 \<Rightarrow> nat \<Rightarrow> nat \<Rightarrow> word32 \<Rightarrow> byte \<Rightarrow> nat \<Rightarrow> nat \<Rightarrow> unit res" where
  "tdf_input_validate tdf_id tdf_len tdf_num idx_period format min_size max_space =
     (if tdf_id = 0 \<or> 4095 \<le> tdf_id \<or> tdf_len = 0 \<or> tdf_num = 0 \<or> TDF_DATA_FORMAT_INVALID \<le> format
      then Inl EINVAL
      else if format \<noteq> TDF_DATA_FORMAT_IDX_ARRAY \<and> TDF_ARRAY_TIME_PERIOD_MAX < unat idx_period
      then Inl EINVAL
      else if max_space < min_size then Inl ENOSPC
      else Inr ())"

text \<open>
  \<open>tdf_add_header\<close>: the header is written through the pointer returned by the library, then the
  timestamp is appended. The \<open>int32_t\<close> argument \<open>timestamp_delta\<close> is a 32 bit word.
\<close>

definition tdf_add_header ::
    "net_buf_api \<Rightarrow> tdf_buffer_state \<Rightarrow> word16 \<Rightarrow> word16 \<Rightarrow> byte \<Rightarrow> word64 \<Rightarrow> word32 \<Rightarrow>
     nat \<times> tdf_buffer_state" where
  "tdf_add_header api state tdf_header tdf_id tdf_len epoch_time timestamp_delta =
     (let (header, buf) = net_buf_simple_add api (tbs_buf state) 3;
          buf = nb_store buf header (put_u16 (tdf_header OR tdf_id));
          buf = nb_store buf (header + 2) [tdf_len]
      in if tdf_header = TDF_TIMESTAMP_RELATIVE then
           (header, \<lparr>tbs_time = epoch_time,
                     tbs_buf = net_buf_simple_add_le16 api buf (unat (ucast timestamp_delta :: word16))\<rparr>)
         else if tdf_header = TDF_TIMESTAMP_EXTENDED_RELATIVE then
           (header, \<lparr>tbs_time = epoch_time,
                     tbs_buf = net_buf_simple_add_le24 api buf (unat timestamp_delta)\<rparr>)
         else if tdf_header = TDF_TIMESTAMP_ABSOLUTE then
           (let (t, buf) = net_buf_simple_add api buf 6;
                buf = nb_store buf t (put_u32 (ucast (epoch_time_seconds epoch_time)));
                buf = nb_store buf (t + 4) (put_u16 (epoch_time_subseconds epoch_time))
            in (header, \<lparr>tbs_time = epoch_time, tbs_buf = buf\<rparr>))
         else (header, state\<lparr>tbs_buf := buf\<rparr>))"

text \<open>The read-modify-write \<open>header->id_flags |= flags\<close>.\<close>

definition id_flags_or :: "net_buf_simple \<Rightarrow> nat \<Rightarrow> word16 \<Rightarrow> net_buf_simple" where
  "id_flags_or buf header flags = nb_store buf header (put_u16 (get_u16 (nb_load buf header 2) 0 OR flags))"

text \<open>The 16 bit period field: direct, or scaled with the top bit set.\<close>

definition tdf_period_field :: "word32 \<Rightarrow> word16" where
  "tdf_period_field idx_period =
     (if TDF_ARRAY_TIME_PERIOD_VAL_MASK < unat idx_period
      then ucast (0x8000 OR (idx_period div of_nat TDF_ARRAY_TIME_SCALE_FACTOR))
      else ucast idx_period)"

definition tdf_add_array_header ::
    "net_buf_api \<Rightarrow> tdf_buffer_state \<Rightarrow> nat \<Rightarrow> nat \<Rightarrow> word32 \<Rightarrow> bool \<Rightarrow> bool \<Rightarrow>
     nat option \<times> tdf_buffer_state" where
  "tdf_add_array_header api state header tdf_num idx_period is_idx is_diff =
     (if tdf_num \<le> 1 \<and> \<not> is_idx then (None, state)
      else
        let (array_header_ptr, buf) = net_buf_simple_add api (tbs_buf state) 3;
            buf = (if is_idx
                   then nb_store (id_flags_or buf header TDF_ARRAY_IDX) (array_header_ptr + 1)
                          (put_u16 (ucast idx_period))
                   else nb_store (id_flags_or buf header (if is_diff then TDF_ARRAY_DIFF else TDF_ARRAY_TIME))
                          (array_header_ptr + 1) (put_u16 (tdf_period_field idx_period)));
            buf = nb_store buf array_header_ptr [of_nat tdf_num]
        in (Some array_header_ptr, state\<lparr>tbs_buf := buf\<rparr>))"

text \<open>Lines 286 to 305: the kind of timestamp, its size, and the difference to the buffer time.\<close>

definition tdf_timestamp_plan :: "word64 \<Rightarrow> word64 \<Rightarrow> word16 \<times> nat \<times> word64" where
  "tdf_timestamp_plan buf_time time =
     (if time = 0 then (TDF_TIMESTAMP_NONE, 0, 0)
      else if buf_time = 0 then (TDF_TIMESTAMP_ABSOLUTE, 6, 0)
      else let timestamp_delta = time - buf_time; d = sint timestamp_delta in
        if 0 \<le> d \<and> d \<le> 65535 then (TDF_TIMESTAMP_RELATIVE, 2, timestamp_delta)
        else if - 8388608 \<le> d \<and> d \<le> 8388607 then (TDF_TIMESTAMP_EXTENDED_RELATIVE, 3, timestamp_delta)
        else (TDF_TIMESTAMP_ABSOLUTE, 6, timestamp_delta))"

text \<open>Lines 311 to 335: whether to encode differences, and how many samples are considered.\<close>

definition tdf_diff_plan :: "byte \<Rightarrow> bool \<Rightarrow> nat \<Rightarrow> nat \<Rightarrow> byte list \<Rightarrow> bool \<times> nat" where
  "tdf_diff_plan format diff_precomputed tdf_len tdf_num data =
     (if is_diff_format format \<and> 2 < tdf_num then
        if diff_precomputed then (True, tdf_num)
        else let diffs = tdf_num_valid_diffs format tdf_len tdf_num data in
          if diffs < 0 then (False, u8 (nat (- diffs))) else (u8 (1 + nat diffs) > 1, u8 (1 + nat diffs))
      else (False, tdf_num))"

text \<open>
  Lines 342 to 387: the number of samples that fit and the size of their data, for a payload space of
  \<open>payload_space\<close> bytes. \<open>total_data\<close> is the code's variable of that name.
\<close>

definition tdf_total_data :: "bool \<Rightarrow> nat \<Rightarrow> nat \<Rightarrow> nat \<Rightarrow> nat" where
  "tdf_total_data is_diff tdf_len per_tdf_diff_size tdf_num =
     (if is_diff then u16 (tdf_len + (tdf_num - 1) * per_tdf_diff_size) else u16 (tdf_len * tdf_num))"

definition tdf_fit ::
    "bool \<Rightarrow> bool \<Rightarrow> nat \<Rightarrow> nat \<Rightarrow> nat \<Rightarrow> nat \<Rightarrow> (nat \<times> nat) option" where
  "tdf_fit is_idx is_diff tdf_len per_tdf_diff_size tdf_num payload_space =
     (let total_data = tdf_total_data is_diff tdf_len per_tdf_diff_size tdf_num in
      if payload_space < total_data then
        let can_fit =
              (if \<not> is_diff then u8 (payload_space div tdf_len)
               else if tdf_len \<le> payload_space
               then u8 (1 + (payload_space - tdf_len) div per_tdf_diff_size) else 0);
            can_fit =
              (if can_fit = 0 \<and> 1 < tdf_num \<and> \<not> is_idx
               then u8 (u16 (payload_space + 3) div tdf_len) else can_fit)
        in if can_fit = 0 then None
           else Some (can_fit, tdf_total_data is_diff tdf_len per_tdf_diff_size can_fit)
      else Some (tdf_num, total_data))"

text \<open>Lines 399 to 431: the samples.\<close>

definition tdf_add_payload ::
    "net_buf_api \<Rightarrow> net_buf_simple \<Rightarrow> byte \<Rightarrow> bool \<Rightarrow> bool \<Rightarrow> nat option \<Rightarrow> nat \<Rightarrow> nat \<Rightarrow> nat \<Rightarrow>
     byte list \<Rightarrow> net_buf_simple" where
  "tdf_add_payload api buf format diff_precomputed is_diff array_header_ptr tdf_len tdf_num total_data data =
     (if is_diff \<and> 1 < tdf_num then
        let per_tdf_fields = tdf_len div tdf_diff_divisor format;
            per_tdf_diff_size = u8 (per_tdf_fields * tdf_diff_size format);
            total_diff_size = (tdf_num - 1) * per_tdf_diff_size;
            buf = (if diff_precomputed
                   then net_buf_simple_add_mem api buf (take (tdf_len + total_diff_size) data)
                   else
                     let buf = net_buf_simple_add_mem api buf (take tdf_len data);
                         (diff_ptr, buf) = net_buf_simple_add api buf total_diff_size
                     in nb_store buf diff_ptr
                          (tdf_diff_encode_functions format ((tdf_num - 1) * per_tdf_fields)
                             data (drop tdf_len data)))
        in case array_header_ptr of
             None \<Rightarrow> buf
           | Some p \<Rightarrow>
               nb_store buf p [push_bit 6 (tdf_diff_encoded format) OR of_nat (tdf_num - 1)]
      else net_buf_simple_add_mem api buf (take total_data data))"

definition tdf_add_core ::
    "net_buf_api \<Rightarrow> tdf_buffer_state \<Rightarrow> word16 \<Rightarrow> byte \<Rightarrow> byte \<Rightarrow> word64 \<Rightarrow> word32 \<Rightarrow> byte list \<Rightarrow> byte \<Rightarrow>
     nat res \<times> tdf_buffer_state" where
  "tdf_add_core api state tdf_id tdf_len tdf_num time idx_period data format =
     (let len = unat tdf_len; buf = tbs_buf state;
          buffer_remaining = u16 (net_buf_simple_tailroom api buf);
          max_space = u16 (nb_size buf - nb_data buf);
          min_size = 3 + (if time \<noteq> 0 then 6 else 0) + len;
          is_idx = (format = TDF_DATA_FORMAT_IDX_ARRAY);
          diff_precomputed = (format AND TDF_DATA_FORMAT_DIFF_PRECOMPUTED \<noteq> 0);
          format = format AND NOT TDF_DATA_FORMAT_DIFF_PRECOMPUTED
      in case tdf_input_validate tdf_id len (unat tdf_num) idx_period format min_size max_space of
           Inl e \<Rightarrow> (Inl e, state)
         | Inr _ \<Rightarrow>
             let (tdf_header, timestamp_header, timestamp_delta) = tdf_timestamp_plan (tbs_time state) time
             in if is_diff_format format \<and> len mod tdf_diff_divisor format \<noteq> 0 then (Inl EINVAL, state)
             else
               let (is_diff, num) = tdf_diff_plan format diff_precomputed len (unat tdf_num) data;
                   array_header = (if 1 < num \<or> is_idx then 3 else 0);
                   total_header = 3 + array_header + timestamp_header
               in if buffer_remaining \<le> total_header then (Inl ENOMEM, state)
               else
                 let per_tdf_diff_size = u8 (len div tdf_diff_divisor format * tdf_diff_size format)
                 in case tdf_fit is_idx is_diff len per_tdf_diff_size num (buffer_remaining - total_header) of
                      None \<Rightarrow> (Inl ENOMEM, state)
                    | Some (num, total_data) \<Rightarrow>
                        let (header, state) = tdf_add_header api state tdf_header tdf_id tdf_len time
                              (ucast timestamp_delta);
                            (array_header_ptr, state) = tdf_add_array_header api state header num idx_period
                              is_idx is_diff
                        in (Inr num, state\<lparr>tbs_buf := tdf_add_payload api (tbs_buf state) format
                              diff_precomputed is_diff array_header_ptr len num total_data data\<rparr>))"

definition tdf_add ::
    "net_buf_api \<Rightarrow> tdf_buffer_state \<Rightarrow> word16 \<Rightarrow> byte \<Rightarrow> byte \<Rightarrow> word64 \<Rightarrow> word32 \<Rightarrow> byte list \<Rightarrow>
     nat res \<times> tdf_buffer_state" where
  "tdf_add api state tdf_id tdf_len tdf_num time period data =
     tdf_add_core api state tdf_id tdf_len tdf_num time period data
       (if 1 < tdf_num then TDF_DATA_FORMAT_TIME_ARRAY else TDF_DATA_FORMAT_SINGLE)"

definition tdf_buffer_state_reset :: "net_buf_api \<Rightarrow> tdf_buffer_state \<Rightarrow> tdf_buffer_state" where
  "tdf_buffer_state_reset api state = \<lparr>tbs_time = 0, tbs_buf = net_buf_simple_reset api (tbs_buf state)\<rparr>"

end
