(* ===== verification/Tdf_Wire.thy ===== *)
theory Tdf_Wire
  imports Tdf_Core
begin

text \<open>
  What the encoder puts on the buffer. \<open>tdf_num_valid_diffs\<close> is characterised by the validity of
  neighbouring samples; the fitting phase is shown to stay within the buffer; and each phase of
  \<open>tdf_add_core\<close> is related to the bytes it appends with \<open>nb_app\<close>, ending in \<open>add_core_wire\<close>: a
  successful call appends exactly one TDF, \<open>tdf_wire\<close>.
\<close>

subsection \<open>Valid differences\<close>

definition diff_valid_at :: "(byte list \<Rightarrow> byte list \<Rightarrow> bool) \<Rightarrow> nat \<Rightarrow> byte list \<Rightarrow> nat \<Rightarrow> bool" where
  "diff_valid_at check_fn len data k = check_fn (drop (k * len) data) (drop (Suc k * len) data)"

lemma valid_diffs_first_step:
  "valid_diffs_first check_fn len num data i (i * len) =
     (if i < num - 2 then
        if diff_valid_at check_fn len data i then
          if diff_valid_at check_fn len data (Suc i) then (i, (i + 2) * len)
          else valid_diffs_first check_fn len num data (i + 2) ((i + 2) * len)
        else valid_diffs_first check_fn len num data (i + 1) ((i + 1) * len)
      else (i, i * len))"
proof -
  have "i * len + 2 * len = (i + 2) * len" "i * len + len = (i + 1) * len"
    by (simp_all add: algebra_simps)
  then show ?thesis
    by (subst valid_diffs_first.simps) (simp only: diff_valid_at_def Suc_eq_plus1 add.assoc one_add_one)
qed

lemma valid_diffs_first_result:
  assumes "valid_diffs_first check_fn len num data i (i * len) = (j, p)" "i \<le> num - 1"
  shows "if j < num - 2
    then diff_valid_at check_fn len data j \<and> diff_valid_at check_fn len data (Suc j) \<and> p = (j + 2) * len
    else j \<le> num - 1"
  using assms
proof (induction "num - i" arbitrary: i rule: less_induct)
  case less
  note eq = less.prems(1) [unfolded valid_diffs_first_step [of _ _ _ _ i]]
  note IH1 = less.hyps [of "i + 1"] and IH2 = less.hyps [of "i + 2"]
  show ?case
  proof (cases "i < num - 2")
    case True
    then have "num - (i + 1) < num - i" "num - (i + 2) < num - i" "i + 1 \<le> num - 1" "i + 2 \<le> num - 1"
      by auto
    then show ?thesis
      using eq True IH1 IH2 by (auto split: if_split_asm)
  qed (use eq less.prems(2) in auto)
qed

lemma valid_diffs_count_step:
  "valid_diffs_count check_fn len num data i (i * len) =
     (if i < num - 1 \<and> diff_valid_at check_fn len data i
      then valid_diffs_count check_fn len num data (Suc i) (Suc i * len) else i)"
  by (subst valid_diffs_count.simps) (simp add: diff_valid_at_def add.commute)

lemma valid_diffs_count_result:
  fixes check_fn len data
  assumes "i \<le> num - 1"
  defines "r \<equiv> valid_diffs_count check_fn len num data i (i * len)"
  shows "i \<le> r \<and> r \<le> num - 1 \<and> (\<forall>k. i \<le> k \<and> k < r \<longrightarrow> diff_valid_at check_fn len data k)"
  using assms(1) unfolding r_def
proof (induction "num - i" arbitrary: i rule: less_induct)
  case less
  note eq = valid_diffs_count_step [of check_fn len num data i]
  show ?case
  proof (cases "i < num - 1 \<and> diff_valid_at check_fn len data i")
    case True
    then have "num - Suc i < num - i" "Suc i \<le> num - 1" by auto
    from less.hyps [OF this] show ?thesis
      using True unfolding eq by (auto simp: Suc_le_eq) (metis le_neq_implies_less)+
  qed (use less.prems eq in auto)
qed

lemma valid_diffs_first_min:
  assumes "valid_diffs_first check_fn len num data i (i * len) = (j, p)" "i \<le> k" "k < j" "k < num - 2"
  shows "\<not> (diff_valid_at check_fn len data k \<and> diff_valid_at check_fn len data (Suc k))"
  using assms(1,2)
proof (induction "num - i" arbitrary: i rule: less_induct)
  case less
  note eq = less.prems(1) [unfolded valid_diffs_first_step [of _ _ _ _ i]]
  note IH1 = less.hyps [of "i + 1"] and IH2 = less.hyps [of "i + 2"]
  have i: "i < num - 2" using less.prems(2) assms(4) by simp
  then have m: "num - (i + 1) < num - i" "num - (i + 2) < num - i" by auto
  consider "k = i" | "k = i + 1" | "i + 2 \<le> k" using less.prems(2) by linarith
  then show ?case
    using eq i m IH1 IH2 assms(3) by cases (auto split: if_split_asm)
qed

lemma valid_diffs_count_max:
  assumes "r = valid_diffs_count check_fn len num data i (i * len)" "r < num - 1"
  shows "\<not> diff_valid_at check_fn len data r"
  using assms(1)
proof (induction "num - i" arbitrary: i rule: less_induct)
  case less
  note eq = less.prems [unfolded valid_diffs_count_step [of _ _ _ _ i]]
  show ?case
  proof (cases "i < num - 1 \<and> diff_valid_at check_fn len data i")
    case True
    then have "num - Suc i < num - i" by auto
    then show ?thesis using eq True less.hyps [of "Suc i"] by simp
  qed (use eq assms(2) in auto)
qed

lemma num_valid_diffs_nonneg:
  assumes "2 < num" "0 \<le> tdf_num_valid_diffs fmt len num data"
  defines "d \<equiv> nat (tdf_num_valid_diffs fmt len num data)"
  shows "2 \<le> d" "d < num" "d < 64"
    and "k < d \<Longrightarrow> diff_valid_at (tdf_diff_check_functions fmt len) len data k"
proof -
  let ?c = "tdf_diff_check_functions fmt len"
  obtain i p where f: "valid_diffs_first ?c len num data 0 0 = (i, p)" by fastforce
  have i: "if i < num - 2 then diff_valid_at ?c len data i \<and> diff_valid_at ?c len data (Suc i) \<and>
      p = (i + 2) * len else i \<le> num - 1"
    using valid_diffs_first_result [of ?c len num data 0] f by simp
  have "i = 0"
  proof (rule ccontr)
    assume "i \<noteq> 0"
    then have "tdf_num_valid_diffs fmt len num data < 0"
      using assms(1) by (auto simp: tdf_num_valid_diffs_def f)
    with assms(2) show False by simp
  qed
  let ?r = "valid_diffs_count ?c len (min num TDF_MAXIMUM_DIFFS) data 2 p"
  have v: "diff_valid_at ?c len data 0" "diff_valid_at ?c len data 1" "p = 2 * len"
    using i assms(1) \<open>i = 0\<close> by auto
  have d: "d = ?r" by (simp add: d_def tdf_num_valid_diffs_def f \<open>i = 0\<close>)
  have r: "2 \<le> ?r \<and> ?r \<le> min num TDF_MAXIMUM_DIFFS - 1 \<and>
      (\<forall>k. 2 \<le> k \<and> k < ?r \<longrightarrow> diff_valid_at ?c len data k)"
    using assms(1) unfolding v(3) by (intro valid_diffs_count_result) (auto simp: TDF_MAXIMUM_DIFFS_def)
  then show "2 \<le> d" "d < num" "d < 64"
    using assms(1) by (auto simp: d TDF_MAXIMUM_DIFFS_def)
  show "k < d \<Longrightarrow> diff_valid_at ?c len data k"
    using r v by (cases "k = 0 \<or> k = 1") (auto simp: d)
qed

lemma num_valid_diffs_neg:
  assumes "2 < num" "tdf_num_valid_diffs fmt len num data < 0"
  shows "1 \<le> nat (- tdf_num_valid_diffs fmt len num data)"
    and "nat (- tdf_num_valid_diffs fmt len num data) \<le> num"
proof -
  let ?c = "tdf_diff_check_functions fmt len"
  obtain i p where f: "valid_diffs_first ?c len num data 0 0 = (i, p)" by fastforce
  have "i \<le> num - 1"
    using valid_diffs_first_result [of ?c len num data 0] f assms(1) by (auto split: if_splits)
  moreover have "i \<noteq> 0"
    using assms(2) by (intro notI) (simp add: tdf_num_valid_diffs_def f)
  ultimately show "1 \<le> nat (- tdf_num_valid_diffs fmt len num data)"
    and "nat (- tdf_num_valid_diffs fmt len num data) \<le> num"
    using assms(1) by (auto simp: tdf_num_valid_diffs_def f)
qed

subsection \<open>Fitting\<close>

definition tdf_data_size :: "bool \<Rightarrow> nat \<Rightarrow> nat \<Rightarrow> nat \<Rightarrow> nat" where
  "tdf_data_size is_diff len d n = (if is_diff then len + (n - 1) * d else len * n)"

lemma tdf_data_size_le:
  assumes "is_diff \<Longrightarrow> d \<le> len" "1 \<le> n"
  shows "tdf_data_size is_diff len d n \<le> len * n"
proof -
  have "is_diff \<Longrightarrow> (n - 1) * d \<le> (n - 1) * len" using assms(1) by simp
  moreover have "len * n = len + (n - 1) * len" using assms(2) by (cases n) simp_all
  ultimately show ?thesis by (simp add: tdf_data_size_def)
qed

lemma tdf_total_data_eq:
  assumes "is_diff \<Longrightarrow> d \<le> len" "1 \<le> n" "n < 256" "len < 256"
  shows "tdf_total_data is_diff len d n = tdf_data_size is_diff len d n"
proof -
  have "len * n \<le> 255 * 255" using assms(3,4) by (intro mult_le_mono) auto
  then have "tdf_data_size is_diff len d n < 65536"
    using tdf_data_size_le [of is_diff d len n] assms by linarith
  then show ?thesis by (simp add: tdf_total_data_def tdf_data_size_def split: if_splits)
qed

text \<open>The first guess of the number of samples: it is below the requested number, and it fits.\<close>

definition tdf_can_fit :: "bool \<Rightarrow> nat \<Rightarrow> nat \<Rightarrow> nat \<Rightarrow> nat" where
  "tdf_can_fit is_diff len d space =
     (if \<not> is_diff then space div len else if len \<le> space then 1 + (space - len) div d else 0)"

lemma tdf_can_fit_less:
  assumes "space < tdf_data_size is_diff len d num" "0 < len" "is_diff \<Longrightarrow> 0 < d" "1 \<le> num"
  shows "tdf_can_fit is_diff len d space < num"
proof (cases "is_diff \<and> len \<le> space")
  case True
  then have "(space - len) div d < num - 1"
    using assms(1,3) by (subst div_less_iff_less_mult) (auto simp: tdf_data_size_def)
  then show ?thesis using True by (simp add: tdf_can_fit_def)
next
  case False
  moreover have "\<not> is_diff \<Longrightarrow> space div len < num"
    using assms(1,2) by (subst div_less_iff_less_mult) (auto simp: tdf_data_size_def mult.commute)
  ultimately show ?thesis using assms(4) by (auto simp: tdf_can_fit_def)
qed

lemma tdf_can_fit_size:
  assumes "0 < tdf_can_fit is_diff len d space"
  shows "tdf_data_size is_diff len d (tdf_can_fit is_diff len d space) \<le> space"
proof (cases is_diff)
  case True
  with assms have "len \<le> space" by (auto simp: tdf_can_fit_def split: if_splits)
  moreover have "(space - len) div d * d \<le> space - len" by simp
  ultimately have "len + (space - len) div d * d \<le> space" by linarith
  with True \<open>len \<le> space\<close> show ?thesis by (simp add: tdf_data_size_def tdf_can_fit_def)
qed (simp add: tdf_data_size_def tdf_can_fit_def)

lemma tdf_fit_no_diff: "tdf_fit is_idx False len d num space = tdf_fit is_idx False len d' num space"
  by (simp add: tdf_fit_def tdf_total_data_def Let_def)

lemma tdf_fit_Some:
  assumes fit: "tdf_fit is_idx is_diff len d num space = Some (n, t)"
    and len: "0 < len" "len < 256" and num: "1 \<le> num" "num < 256"
    and space: "0 < space" "space + 3 < 65536"
    and two: "\<not> (len = 2 \<and> \<not> is_idx \<and> 1 < num \<and> space = 1)"
    and diff: "is_diff \<Longrightarrow> 0 < d \<and> d \<le> len"
  shows "1 \<le> n" "n \<le> num" "t = tdf_data_size is_diff len d n"
    and "t + (if 1 < n \<or> is_idx then 3 else 0) \<le> space + (if 1 < num \<or> is_idx then 3 else 0)"
proof -
  let ?c = "tdf_can_fit is_diff len d space"
  have T: "tdf_total_data is_diff len d k = tdf_data_size is_diff len d k" if "1 \<le> k" "k < 256" for k
    using that diff len by (intro tdf_total_data_eq) auto
  have "1 \<le> n \<and> n \<le> num \<and> t = tdf_data_size is_diff len d n \<and>
     t + (if 1 < n \<or> is_idx then 3 else 0) \<le> space + (if 1 < num \<or> is_idx then 3 else 0)"
  proof (cases "space < tdf_data_size is_diff len d num")
    case False
    then show ?thesis using fit num T by (auto simp: tdf_fit_def)
  next
    case True
    then have c: "?c < num" using len diff num by (intro tdf_can_fit_less) auto
    have body: "(if \<not> is_diff then u8 (space div len)
        else if len \<le> space then u8 (1 + (space - len) div d) else 0) = ?c"
      using c num by (auto simp: tdf_can_fit_def)
    show ?thesis
    proof (cases "?c = 0")
      case False
      then have "n = ?c" "t = tdf_data_size is_diff len d ?c"
        using fit True num T [of ?c] T [of num] c by (auto simp: tdf_fit_def body Let_def)
      then show ?thesis using False c tdf_can_fit_size [of is_diff len d space] by auto
    next
      case zero: True
      then have "space < len"
        using len diff by (auto simp: tdf_can_fit_def div_eq_0_iff split: if_splits)
      have "n = u8 (u16 (space + 3) div len)" and n0: "n \<noteq> 0" and big: "1 < num" "\<not> is_idx"
        and t: "t = tdf_total_data is_diff len d n"
        using fit True num T [of num] zero
        by (auto simp: tdf_fit_def body Let_def split: if_splits)
      have l3: "3 \<le> len" using space \<open>space < len\<close> two big by linarith
      have "(space + 3) div len \<le> 1"
        using \<open>space < len\<close> l3 by (simp add: less_Suc_eq_le [symmetric] div_less_iff_less_mult)
      with \<open>n = u8 _\<close> n0 have "n = 1" using space(2) by (simp add: le_Suc_eq split: if_splits)
      moreover have "len \<le> space + 3"
        using n0 \<open>n = u8 _\<close> space(2) by (cases "len \<le> space + 3") auto
      ultimately show ?thesis using big t T [of 1] by (simp add: tdf_data_size_def)
    qed
  qed
  then show "1 \<le> n" "n \<le> num" "t = tdf_data_size is_diff len d n"
    and "t + (if 1 < n \<or> is_idx then 3 else 0) \<le> space + (if 1 < num \<or> is_idx then 3 else 0)"
    by auto
qed

subsection \<open>The bytes of each phase\<close>

definition tdf_ts_bytes :: "word16 \<Rightarrow> word32 \<Rightarrow> word64 \<Rightarrow> byte list" where
  "tdf_ts_bytes tdf_header timestamp_delta time =
     (if tdf_header = TDF_TIMESTAMP_RELATIVE then put_le 2 (unat (ucast timestamp_delta :: word16))
      else if tdf_header = TDF_TIMESTAMP_EXTENDED_RELATIVE then put_le 3 (unat timestamp_delta)
      else if tdf_header = TDF_TIMESTAMP_ABSOLUTE
      then put_u32 (ucast (epoch_time_seconds time)) @ put_u16 (epoch_time_subseconds time)
      else [])"

lemma length_tdf_ts_bytes:
  "tdf_timestamp_plan buf_time time = (hdr, ts, delta) \<Longrightarrow> length (tdf_ts_bytes hdr (ucast delta) time) = ts"
  by (auto simp: tdf_timestamp_plan_def tdf_ts_bytes_def Let_def split: if_splits)

definition tdf_array_flags :: "nat \<Rightarrow> bool \<Rightarrow> bool \<Rightarrow> word16" where
  "tdf_array_flags n is_idx is_diff =
     (if n \<le> 1 \<and> \<not> is_idx then 0 else if is_idx then TDF_ARRAY_IDX
      else if is_diff then TDF_ARRAY_DIFF else TDF_ARRAY_TIME)"

definition tdf_array_field :: "word32 \<Rightarrow> bool \<Rightarrow> word16" where
  "tdf_array_field idx_period is_idx = (if is_idx then ucast idx_period else tdf_period_field idx_period)"

context net_buf_lib
begin

lemma app_add_fields:
  assumes app: "nb_app b b' xs" and room: "length xs + (n + m) \<le> nb_room b"
    and call: "net_buf_simple_add api b' (n + m) = (p, b'')" and fields: "length ys = n" "length zs = m"
  shows "nb_app b (nb_store (nb_store b'' p ys) (p + n) zs) (xs @ ys @ zs)"
    and "p = nb_data b + nb_len b + length xs"
proof -
  obtain junk where j: "length junk = n + m" "nb_app b b'' (xs @ junk)"
    and p: "p = nb_data b + nb_len b + length xs"
    using app_add [OF app room] call by (metis fst_conv snd_conv)
  have "nb_app b b'' (xs @ take n junk @ drop n junk)" using j(2) by simp
  then have "nb_app b (nb_store b'' p ys) (xs @ ys @ drop n junk)"
    by (rule nb_app_store) (simp_all add: p fields j(1))
  then have "nb_app b (nb_store b'' p ys) ((xs @ ys) @ drop n junk @ [])" by simp
  then have "nb_app b (nb_store (nb_store b'' p ys) (p + n) zs) ((xs @ ys) @ zs @ [])"
    by (rule nb_app_store) (simp_all add: p fields j(1))
  then show "nb_app b (nb_store (nb_store b'' p ys) (p + n) zs) (xs @ ys @ zs)" by simp
qed (use app_add [OF app room] call in \<open>metis fst_conv\<close>)

lemma add_le16_app:
  "nb_app b b' xs \<Longrightarrow> length xs + 2 \<le> nb_room b \<Longrightarrow> nb_app b (net_buf_simple_add_le16 api b' v) (xs @ put_le 2 v)"
  using nb_app_room [of b b' xs] app_add_mem [of b b' xs "put_le 2 v"] nb_app_ok [of b b' xs]
  by (simp add: add_le16)

lemma add_le24_app:
  "nb_app b b' xs \<Longrightarrow> length xs + 3 \<le> nb_room b \<Longrightarrow> nb_app b (net_buf_simple_add_le24 api b' v) (xs @ put_le 3 v)"
  using nb_app_room [of b b' xs] app_add_mem [of b b' xs "put_le 3 v"] nb_app_ok [of b b' xs]
  by (simp add: add_le24)

lemma add_header_app:
  assumes ok: "nb_ok b" "b = tbs_buf st"
    and room: "3 + length (tdf_ts_bytes hdr delta time) \<le> nb_room b"
    and call: "tdf_add_header api st hdr tdf_id len time delta = (h, st')"
  shows "nb_app b (tbs_buf st') (put_u16 (hdr OR tdf_id) @ [len] @ tdf_ts_bytes hdr delta time)"
    and "h = nb_data b + nb_len b"
    and "tbs_time st' =
      (if hdr = TDF_TIMESTAMP_RELATIVE \<or> hdr = TDF_TIMESTAMP_EXTENDED_RELATIVE \<or> hdr = TDF_TIMESTAMP_ABSOLUTE
       then time else tbs_time st)"
proof -
  obtain p b1 where add: "net_buf_simple_add api b (2 + 1) = (p, b1)" by fastforce
  define b2 where "b2 = nb_store (nb_store b1 p (put_u16 (hdr OR tdf_id))) (p + 2) [len]"
  let ?h = "put_u16 (hdr OR tdf_id) @ [len]"
  have hdr: "nb_app b b2 ?h" and p: "p = nb_data b + nb_len b"
    using app_add_fields [OF nb_app_refl [OF ok(1)] _ add, of "put_u16 (hdr OR tdf_id)" "[len]"] room
    by (simp_all add: b2_def)
  obtain t b3 where t: "net_buf_simple_add api b2 (4 + 2) = (t, b3)" by fastforce
  show "h = nb_data b + nb_len b" using call add ok(2) p
    by (auto simp: tdf_add_header_def Let_def split: if_splits prod.splits)
  show "tbs_time st' =
      (if hdr = TDF_TIMESTAMP_RELATIVE \<or> hdr = TDF_TIMESTAMP_EXTENDED_RELATIVE \<or> hdr = TDF_TIMESTAMP_ABSOLUTE
       then time else tbs_time st)"
    using call by (auto simp: tdf_add_header_def Let_def split: if_splits prod.splits)
  consider (rel) "hdr = TDF_TIMESTAMP_RELATIVE" | (ext) "hdr = TDF_TIMESTAMP_EXTENDED_RELATIVE"
    | (abs) "hdr = TDF_TIMESTAMP_ABSOLUTE"
    | (none) "hdr \<noteq> TDF_TIMESTAMP_RELATIVE" "hdr \<noteq> TDF_TIMESTAMP_EXTENDED_RELATIVE" "hdr \<noteq> TDF_TIMESTAMP_ABSOLUTE"
    by blast
  then show "nb_app b (tbs_buf st') (put_u16 (hdr OR tdf_id) @ [len] @ tdf_ts_bytes hdr delta time)"
  proof cases
    case rel
    then show ?thesis
      using call add ok(2) room add_le16_app [OF hdr]
      by (auto simp: tdf_add_header_def tdf_ts_bytes_def Let_def b2_def)
  next
    case ext
    then show ?thesis
      using call add ok(2) room add_le24_app [OF hdr]
      by (auto simp: tdf_add_header_def tdf_ts_bytes_def Let_def b2_def)
  next
    case abs
    then show ?thesis
      using call add ok(2) room app_add_fields(1) [OF hdr _ t] t
      by (auto simp: tdf_add_header_def tdf_ts_bytes_def Let_def b2_def)
  next
    case none
    then show ?thesis
      using call add ok(2) hdr by (auto simp: tdf_add_header_def tdf_ts_bytes_def Let_def b2_def)
  qed
qed

lemma id_flags_or_app:
  assumes "nb_app b b' (put_u16 w @ xs)" "h = nb_data b + nb_len b"
  shows "nb_app b (id_flags_or b' h flags) (put_u16 (w OR flags) @ xs)"
proof -
  have "nb_load b' h 2 = put_u16 w"
    using assms by (intro nb_app_load [of b b' "[]" _ xs]) simp_all
  then have "get_u16 (nb_load b' h 2) 0 = w" by (simp add: get_u16_def)
  moreover have "nb_app b (nb_store b' h (put_u16 (w OR flags))) ([] @ put_u16 (w OR flags) @ xs)"
    using assms by (intro nb_app_store [of b b' "[]" "put_u16 w" xs]) simp_all
  ultimately show ?thesis by (simp add: id_flags_or_def)
qed

lemma add_array_header_app:
  assumes app: "nb_app b (tbs_buf st) (put_u16 w @ xs)" and h: "h = nb_data b + nb_len b"
    and room: "2 + length xs + (if 1 < n \<or> is_idx then 3 else 0) \<le> nb_room b"
    and call: "tdf_add_array_header api st h n idx_period is_idx is_diff = (ptr, st')"
  shows "nb_app b (tbs_buf st') (put_u16 (w OR tdf_array_flags n is_idx is_diff) @ xs @
      (if 1 < n \<or> is_idx then of_nat n # put_u16 (tdf_array_field idx_period is_idx) else []))"
    and "ptr = (if 1 < n \<or> is_idx then Some (h + 2 + length xs) else None)"
    and "tbs_time st' = tbs_time st"
proof -
  let ?f = "tdf_array_flags n is_idx is_diff" and ?v = "put_u16 (tdf_array_field idx_period is_idx)"
  obtain p b1 where add: "net_buf_simple_add api (tbs_buf st) 3 = (p, b1)" by fastforce
  define b2 where "b2 = id_flags_or b1 h ?f"
  show "tbs_time st' = tbs_time st"
    using call by (auto simp: tdf_add_array_header_def Let_def split: if_splits prod.splits)
  have "nb_app b (tbs_buf st') (put_u16 (w OR ?f) @ xs @ of_nat n # ?v) \<and> ptr = Some (h + 2 + length xs)"
    if arr: "1 < n \<or> is_idx"
  proof
    obtain junk where j: "length junk = 3" "nb_app b b1 ((put_u16 w @ xs) @ junk)"
      and p: "p = nb_data b + nb_len b + (2 + length xs)"
      using app_add [OF app, of 3] room arr add by (auto simp: prod_eq_iff)
    have "nb_app b b1 (put_u16 w @ xs @ junk)" using j(2) by simp
    then have b2: "nb_app b b2 (put_u16 (w OR ?f) @ xs @ junk)"
      unfolding b2_def using h by (rule id_flags_or_app)
    obtain x ys where junk: "junk = x # ys" and ys: "length ys = 2"
      using j(1) by (cases junk) auto
    have "nb_app b b2 ((put_u16 (w OR ?f) @ xs @ [x]) @ ys @ [])" using b2 junk by simp
    then have "nb_app b (nb_store b2 (p + 1) ?v) ((put_u16 (w OR ?f) @ xs @ [x]) @ ?v @ [])"
      by (rule nb_app_store) (simp_all add: ys p)
    then have "nb_app b (nb_store b2 (p + 1) ?v) ((put_u16 (w OR ?f) @ xs) @ [x] @ ?v)" by simp
    then have "nb_app b (nb_store (nb_store b2 (p + 1) ?v) p [of_nat n]) ((put_u16 (w OR ?f) @ xs) @ [of_nat n] @ ?v)"
      by (rule nb_app_store) (simp_all add: p)
    moreover have "tbs_buf st' = nb_store (nb_store b2 (p + 1) ?v) p [of_nat n]" and "ptr = Some p"
      using call arr add
      by (auto simp: tdf_add_array_header_def b2_def tdf_array_flags_def tdf_array_field_def Let_def)
    ultimately show "nb_app b (tbs_buf st') (put_u16 (w OR ?f) @ xs @ of_nat n # ?v)"
      and "ptr = Some (h + 2 + length xs)"
      by (simp_all add: p h)
  qed
  moreover have "nb_app b (tbs_buf st') (put_u16 (w OR ?f) @ xs) \<and> ptr = None" if "\<not> (1 < n \<or> is_idx)"
    using call app that by (auto simp: tdf_add_array_header_def tdf_array_flags_def)
  ultimately show "nb_app b (tbs_buf st') (put_u16 (w OR ?f) @ xs @
      (if 1 < n \<or> is_idx then of_nat n # ?v else []))"
    and "ptr = (if 1 < n \<or> is_idx then Some (h + 2 + length xs) else None)"
    by auto
qed

end

subsection \<open>The payload\<close>

lemma diff_codec:
  "is_diff_format fmt \<Longrightarrow> tdf_diff_codec (tdf_diff_divisor fmt) (tdf_diff_size fmt)
     (tdf_diff_check_functions fmt) (tdf_diff_encode_functions fmt) (tdf_diff_apply_functions fmt)"
  using d16_8.tdf_diff_codec_axioms d32_8.tdf_diff_codec_axioms d32_16.tdf_diff_codec_axioms
  by (auto simp: is_diff_format_def tdf_diff_divisor_def tdf_diff_size_def tdf_diff_check_functions_def
      tdf_diff_encode_functions_def tdf_diff_apply_functions_def)

text \<open>The bytes of the differences between two samples.\<close>

definition diff_row :: "byte \<Rightarrow> nat \<Rightarrow> nat" where
  "diff_row fmt len = len div tdf_diff_divisor fmt * tdf_diff_size fmt"

lemma diff_row_bounds:
  assumes "is_diff_format fmt" "len mod tdf_diff_divisor fmt = 0" "0 < len"
  shows "0 < diff_row fmt len" "diff_row fmt len \<le> len"
  using assms
  by (auto simp: diff_row_def is_diff_format_def tdf_diff_divisor_def tdf_diff_size_def elim!: dvdE
      simp flip: dvd_eq_mod_eq_0)

definition tdf_payload_bytes :: "byte \<Rightarrow> bool \<Rightarrow> bool \<Rightarrow> nat \<Rightarrow> nat \<Rightarrow> byte list \<Rightarrow> byte list" where
  "tdf_payload_bytes fmt precomputed is_diff len n data =
     (if is_diff \<and> 1 < n then
        if precomputed then take (len + (n - 1) * diff_row fmt len) data
        else take len data @
          tdf_diff_encode_functions fmt ((n - 1) * (len div tdf_diff_divisor fmt)) data (drop len data)
      else take (len * n) data)"

definition tdf_array_num :: "byte \<Rightarrow> bool \<Rightarrow> nat \<Rightarrow> byte" where
  "tdf_array_num fmt is_diff n =
     (if is_diff \<and> 1 < n then push_bit 6 (tdf_diff_encoded fmt) OR of_nat (n - 1) else of_nat n)"

text \<open>The caller provides the samples: \<open>n\<close> of them, or a base and \<open>n - 1\<close> rows of differences.\<close>

definition tdf_data_ok :: "byte \<Rightarrow> bool \<Rightarrow> bool \<Rightarrow> nat \<Rightarrow> nat \<Rightarrow> byte list \<Rightarrow> bool" where
  "tdf_data_ok fmt precomputed is_diff len n data \<longleftrightarrow>
     (if precomputed \<and> is_diff then len + (n - 1) * diff_row fmt len \<le> length data
      else len * n \<le> length data)"

lemma tdf_data_ok_mono: "tdf_data_ok fmt p d len m data \<Longrightarrow> n \<le> m \<Longrightarrow> tdf_data_ok fmt p d len n data"
proof -
  assume ok: "tdf_data_ok fmt p d len m data" and le: "n \<le> m"
  show ?thesis
  proof (cases "p \<and> d")
    case True
    have "len + (n - 1) * diff_row fmt len \<le> len + (m - 1) * diff_row fmt len"
      using le by (intro add_left_mono mult_le_mono) auto
    also have "\<dots> \<le> length data" using ok True by (simp add: tdf_data_ok_def)
    finally show ?thesis using True by (simp add: tdf_data_ok_def)
  next
    case False
    have "len * n \<le> len * m" using le by (intro mult_le_mono) auto
    also have "\<dots> \<le> length data" using ok False by (auto simp: tdf_data_ok_def)
    finally show ?thesis using False by (auto simp: tdf_data_ok_def)
  qed
qed

lemma length_tdf_payload_bytes:
  assumes "is_diff \<Longrightarrow> is_diff_format fmt" "1 \<le> n" "tdf_data_ok fmt precomputed is_diff len n data"
  shows "length (tdf_payload_bytes fmt precomputed is_diff len n data) =
    tdf_data_size is_diff len (diff_row fmt len) n"
proof (cases "is_diff \<and> 1 < n")
  case True
  then have "len \<le> length data"
    using assms(3) by (cases n) (auto simp: tdf_data_ok_def split: if_splits)
  then show ?thesis
    using True assms tdf_diff_codec.length_encode [OF diff_codec [of fmt]]
    by (auto simp: tdf_payload_bytes_def tdf_data_size_def tdf_data_ok_def diff_row_def mult.assoc)
next
  case False
  then show ?thesis
    using assms by (auto simp: tdf_payload_bytes_def tdf_data_size_def tdf_data_ok_def split: if_splits)
qed

context net_buf_lib
begin

lemma add_payload_app:
  assumes app: "nb_app b buf (xs @ arr)" and len: "len < 256"
    and diff: "is_diff \<Longrightarrow> is_diff_format fmt \<and> len mod tdf_diff_divisor fmt = 0 \<and> 0 < len"
    and arr: "is_diff \<and> 1 < n \<Longrightarrow> arr \<noteq> [] \<and> ptr = Some (nb_data b + nb_len b + length xs)"
    and n: "1 \<le> n" and data: "tdf_data_ok fmt pre is_diff len n data"
    and t: "t = tdf_data_size is_diff len (diff_row fmt len) n"
    and room: "length xs + length arr + t \<le> nb_room b"
  shows "nb_app b (tdf_add_payload api buf fmt pre is_diff ptr len n t data)
    (xs @ (if is_diff \<and> 1 < n then tdf_array_num fmt is_diff n # tl arr else arr) @
     tdf_payload_bytes fmt pre is_diff len n data)"
proof (cases "is_diff \<and> 1 < n")
  case False
  then have "t = len * n" using t n by (auto simp: tdf_data_size_def)
  moreover have "length (take (len * n) data) = len * n"
    using data False n by (auto simp: tdf_data_ok_def split: if_splits)
  ultimately have "nb_app b (net_buf_simple_add_mem api buf (take t data)) ((xs @ arr) @ take t data)"
    using room by (intro app_add_mem [OF app]) simp
  then show ?thesis
    using False \<open>t = len * n\<close> by (auto simp: tdf_add_payload_def tdf_payload_bytes_def)
next
  case True
  define row where "row = diff_row fmt len"
  have row: "u8 (len div tdf_diff_divisor fmt * tdf_diff_size fmt) = row"
    using diff_row_bounds [of fmt len] True diff len by (simp add: row_def flip: diff_row_def)
  have L: "length (tdf_payload_bytes fmt pre is_diff len n data) = len + (n - 1) * row"
    using length_tdf_payload_bytes [of is_diff fmt n pre len data] diff n data True
    by (simp add: tdf_data_size_def row_def)
  let ?pay = "tdf_payload_bytes fmt pre is_diff len n data"
  let ?info = "tdf_array_num fmt is_diff n"
  have t': "t = len + (n - 1) * row" using t True by (simp add: tdf_data_size_def row_def)
  obtain a as where a: "arr = a # as" using arr True by (cases arr) auto
  define buf2 where "buf2 = (if pre then net_buf_simple_add_mem api buf (take (len + (n - 1) * row) data)
     else case net_buf_simple_add api (net_buf_simple_add_mem api buf (take len data)) ((n - 1) * row) of
       (p, c) \<Rightarrow> nb_store c p (tdf_diff_encode_functions fmt ((n - 1) * (len div tdf_diff_divisor fmt)) data
         (drop len data)))"
  have "nb_app b buf2 ((xs @ arr) @ ?pay)"
  proof (cases pre)
    case pre: True
    have "length (take (len + (n - 1) * row) data) = len + (n - 1) * row"
      using data True pre by (simp add: tdf_data_ok_def row_def)
    then show ?thesis
      using pre True room t' app_add_mem [OF app] by (simp add: buf2_def tdf_payload_bytes_def row_def)
  next
    case pre: False
    let ?e = "tdf_diff_encode_functions fmt ((n - 1) * (len div tdf_diff_divisor fmt)) data (drop len data)"
    have pay: "?pay = take len data @ ?e" using pre True by (simp add: tdf_payload_bytes_def)
    have tl: "length (take len data) = len"
      using tdf_data_ok_mono [OF data n] pre by (simp add: tdf_data_ok_def)
    have e: "length ?e = (n - 1) * row" using L tl unfolding pay by simp
    let ?b1 = "net_buf_simple_add_mem api buf (take len data)"
    have b1: "nb_app b ?b1 ((xs @ arr) @ take len data)"
      using room t' tl by (intro app_add_mem [OF app]) simp
    obtain p c where add: "net_buf_simple_add api ?b1 ((n - 1) * row + 0) = (p, c)" by fastforce
    have "nb_app b (nb_store (nb_store c p ?e) (p + (n - 1) * row) []) (((xs @ arr) @ take len data) @ ?e @ [])"
      using room t' tl e by (intro app_add_fields(1) [OF b1 _ add]) simp_all
    then have "nb_app b (nb_store c p ?e) ((xs @ arr) @ ?pay)"
      unfolding pay by simp
    then show ?thesis using add pre by (simp add: buf2_def)
  qed
  then have "nb_app b buf2 (xs @ [a] @ (as @ ?pay))" using a by simp
  then have "nb_app b (nb_store buf2 (nb_data b + nb_len b + length xs) [?info]) (xs @ [?info] @ (as @ ?pay))"
    by (rule nb_app_store) simp_all
  moreover have "tdf_add_payload api buf fmt pre is_diff ptr len n t data =
      nb_store buf2 (nb_data b + nb_len b + length xs) [?info]"
    using True arr row by (simp add: tdf_add_payload_def buf2_def tdf_array_num_def Let_def)
  ultimately show ?thesis using True a by simp
qed

end

subsection \<open>A successful call\<close>

lemma tdf_diff_plan_facts:
  assumes "tdf_diff_plan fmt pre len num data = (is_diff, m)" "1 \<le> num" "num < 256"
  shows "1 \<le> m" "m \<le> num"
    and "is_diff \<Longrightarrow> is_diff_format fmt \<and> 2 < num \<and> 1 < m"
    and "is_diff \<Longrightarrow> pre \<Longrightarrow> m = num"
    and "is_diff \<Longrightarrow> \<not> pre \<Longrightarrow> m \<le> 64"
    and "is_diff \<Longrightarrow> \<not> pre \<Longrightarrow> k < m - 1 \<Longrightarrow>
      diff_valid_at (tdf_diff_check_functions fmt len) len data k"
proof -
  let ?r = "tdf_num_valid_diffs fmt len num data"
  let ?v = "diff_valid_at (tdf_diff_check_functions fmt len) len data"
  have "1 \<le> m \<and> m \<le> num \<and> (is_diff \<longrightarrow> is_diff_format fmt \<and> 2 < num \<and> 1 < m) \<and>
    (is_diff \<and> pre \<longrightarrow> m = num) \<and> (is_diff \<and> \<not> pre \<longrightarrow> m \<le> 64 \<and> (k < m - 1 \<longrightarrow> ?v k))"
  proof (cases "is_diff_format fmt \<and> 2 < num \<and> \<not> pre")
    case False
    then show ?thesis using assms by (auto simp: tdf_diff_plan_def split: if_splits)
  next
    case True
    then have num: "2 < num" by simp
    show ?thesis
    proof (cases "?r < 0")
      case neg: True
      then have "m = nat (- ?r)" "\<not> is_diff"
        using True assms num_valid_diffs_neg [OF num neg] by (auto simp: tdf_diff_plan_def Let_def)
      then show ?thesis using num_valid_diffs_neg [OF num neg] by simp
    next
      case False
      then have r: "0 \<le> ?r" by simp
      note f = num_valid_diffs_nonneg [OF num r]
      have m: "m = 1 + nat ?r" and is_diff
        using True r assms f(1-3) by (auto simp: tdf_diff_plan_def Let_def)
      then show ?thesis using True f by auto
    qed
  qed
  then show "1 \<le> m" "m \<le> num" "is_diff \<Longrightarrow> is_diff_format fmt \<and> 2 < num \<and> 1 < m"
    "is_diff \<Longrightarrow> pre \<Longrightarrow> m = num" "is_diff \<Longrightarrow> \<not> pre \<Longrightarrow> m \<le> 64"
    "is_diff \<Longrightarrow> \<not> pre \<Longrightarrow> k < m - 1 \<Longrightarrow> ?v k"
    by auto
qed

definition tdf_wire ::
    "word16 \<Rightarrow> word32 \<Rightarrow> word64 \<Rightarrow> word16 \<Rightarrow> byte \<Rightarrow> nat \<Rightarrow> word32 \<Rightarrow> bool \<Rightarrow> bool \<Rightarrow> byte \<Rightarrow> bool \<Rightarrow> byte list \<Rightarrow> byte list"
where
  "tdf_wire hdr delta time tdf_id tdf_len n idx_period is_idx is_diff fmt pre data =
     put_u16 ((hdr OR tdf_id) OR tdf_array_flags n is_idx is_diff) @ ([tdf_len] @ tdf_ts_bytes hdr delta time) @
     (if 1 < n \<or> is_idx then tdf_array_num fmt is_diff n # put_u16 (tdf_array_field idx_period is_idx) else []) @
     tdf_payload_bytes fmt pre is_diff (unat tdf_len) n data"

text \<open>
  The one situation in which the space reclaimed from the array header is miscounted: samples of two
  bytes, more than one of them to add, no index array, and a single byte of payload space after the
  headers (three bytes of header, three of array header and the timestamp). The division of the
  reclaimed \<open>1 + 3\<close> bytes then gives two samples, which need the array header again.
\<close>

definition tdf_reclaims_two :: "tdf_buffer_state \<Rightarrow> byte \<Rightarrow> byte \<Rightarrow> word64 \<Rightarrow> byte list \<Rightarrow> byte \<Rightarrow> bool" where
  "tdf_reclaims_two st len num time data fmt \<longleftrightarrow> unat len = 2 \<and> fmt \<noteq> TDF_DATA_FORMAT_IDX_ARRAY \<and>
     1 < snd (tdf_diff_plan (fmt AND NOT 0x80) (fmt AND 0x80 \<noteq> 0) 2 (unat num) data) \<and>
     nb_room (tbs_buf st) = 7 + fst (snd (tdf_timestamp_plan (tbs_time st) time))"

lemma not_reclaims_two [simp]: "unat len \<noteq> 2 \<Longrightarrow> \<not> tdf_reclaims_two st len num time data fmt"
  by (simp add: tdf_reclaims_two_def)

context net_buf_lib
begin

lemma add_core_run:
  fixes fmt :: byte and len num :: byte
  defines "fmt' \<equiv> fmt AND NOT 0x80" and "pre \<equiv> fmt AND 0x80 \<noteq> 0" and "is_idx \<equiv> fmt = TDF_DATA_FORMAT_IDX_ARRAY"
  assumes call: "tdf_add_core api st tdf_id len num time idx_period data fmt = (Inr n, st')"
    and ok: "nb_ok (tbs_buf st)" and len2: "\<not> tdf_reclaims_two st len num time data fmt"
    and plan: "tdf_diff_plan fmt' pre (unat len) (unat num) data = (is_diff, m)"
    and ts: "tdf_timestamp_plan (tbs_time st) time = (hdr, tsn, delta)"
  obtains t where "tdf_input_validate tdf_id (unat len) (unat num) idx_period fmt'
      (3 + (if time \<noteq> 0 then 6 else 0) + unat len) (u16 (nb_size (tbs_buf st) - nb_data (tbs_buf st))) = Inr ()"
    and "is_diff \<Longrightarrow> is_diff_format fmt' \<and> unat len mod tdf_diff_divisor fmt' = 0 \<and> 0 < unat len"
    and "1 \<le> n" "n \<le> m" "t = tdf_data_size is_diff (unat len) (diff_row fmt' (unat len)) n"
    and "3 + tsn + (if 1 < n \<or> is_idx then 3 else 0) + t \<le> nb_room (tbs_buf st)"
    and "(case tdf_add_header api st hdr tdf_id len time (ucast delta) of (h, st1) \<Rightarrow>
        case tdf_add_array_header api st1 h n idx_period is_idx is_diff of (ptr, st2) \<Rightarrow>
        st2\<lparr>tbs_buf := tdf_add_payload api (tbs_buf st2) fmt' pre is_diff ptr (unat len) n t data\<rparr>) = st'"
proof -
  let ?b = "tbs_buf st" and ?l = "unat len"
  define row where "row = diff_row fmt' ?l"
  define th where "th = 3 + (if 1 < m \<or> is_idx then 3 else 0) + tsn"
  have R: "net_buf_simple_tailroom api ?b = nb_room ?b" "nb_room ?b < 65536"
    using ok by (simp_all add: tailroom nb_room_less)
  have lenb: "?l < 256" "unat num < 256" by simp_all
  obtain t where valid: "tdf_input_validate tdf_id ?l (unat num) idx_period fmt'
        (3 + (if time \<noteq> 0 then 6 else 0) + ?l) (u16 (nb_size ?b - nb_data ?b)) = Inr ()"
    and dvd: "\<not> (is_diff_format fmt' \<and> ?l mod tdf_diff_divisor fmt' \<noteq> 0)"
    and hdr_room: "th < nb_room ?b"
    and fit: "tdf_fit is_idx is_diff ?l (u8 row) m (nb_room ?b - th) = Some (n, t)"
    and st': "(case tdf_add_header api st hdr tdf_id len time (ucast delta) of (h, st1) \<Rightarrow>
        case tdf_add_array_header api st1 h n idx_period is_idx is_diff of (ptr, st2) \<Rightarrow>
        st2\<lparr>tbs_buf := tdf_add_payload api (tbs_buf st2) fmt' pre is_diff ptr ?l n t data\<rparr>) = st'"
    using call plan ts R
    by (auto simp: tdf_add_core_def Let_def fmt'_def pre_def is_idx_def th_def row_def diff_row_def
        split: sum.splits if_splits option.splits prod.splits)
  have l0: "0 < ?l" and num1: "1 \<le> unat num"
    using valid by (auto simp: tdf_input_validate_def split: if_splits)
  note pf = tdf_diff_plan_facts [OF plan num1 lenb(2)]
  have diff: "is_diff_format fmt' \<and> ?l mod tdf_diff_divisor fmt' = 0 \<and> 0 < ?l" if is_diff
    using that pf(3) dvd l0 by auto
  have row: "0 < row" "row \<le> ?l" "u8 row = row" if is_diff
    using diff_row_bounds [of fmt' ?l] diff [OF that]
    by (auto simp: row_def intro!: u8_id le_less_trans [OF _ lenb(1)])
  have "tdf_fit is_idx is_diff ?l row m (nb_room ?b - th) = Some (n, t)"
  proof (cases is_diff)
    case False
    then show ?thesis using fit tdf_fit_no_diff [of is_idx ?l "u8 row" m _ row] by simp
  qed (use fit row in simp)
  note fits = tdf_fit_Some [OF this l0 lenb(1) pf(1)]
  have two: "\<not> (?l = 2 \<and> \<not> is_idx \<and> 1 < m \<and> nb_room ?b - th = 1)"
    using len2 plan ts hdr_room by (auto simp: tdf_reclaims_two_def is_idx_def fmt'_def pre_def th_def)
  have "1 \<le> n \<and> n \<le> m \<and> t = tdf_data_size is_diff ?l row n \<and>
      t + (if 1 < n \<or> is_idx then 3 else 0) \<le> nb_room ?b - th + (if 1 < m \<or> is_idx then 3 else 0)"
    using fits [OF _ _ _ two] hdr_room R(2) pf(2) lenb(2) row by (auto simp: th_def)
  moreover from this have "3 + tsn + (if 1 < n \<or> is_idx then 3 else 0) + t \<le> nb_room ?b"
    using hdr_room by (auto simp: th_def split: if_splits)
  ultimately show thesis using that [OF valid diff _ _ _ _ st'] by (simp add: row_def)
qed

lemma add_core_wire:
  fixes fmt :: byte and len num :: byte
  defines "fmt' \<equiv> fmt AND NOT 0x80" and "pre \<equiv> fmt AND 0x80 \<noteq> 0" and "is_idx \<equiv> fmt = TDF_DATA_FORMAT_IDX_ARRAY"
  assumes call: "tdf_add_core api st tdf_id len num time idx_period data fmt = (Inr n, st')"
    and ok: "nb_ok (tbs_buf st)" and len2: "\<not> tdf_reclaims_two st len num time data fmt"
    and plan: "tdf_diff_plan fmt' pre (unat len) (unat num) data = (is_diff, m)"
    and data: "tdf_data_ok fmt' pre is_diff (unat len) m data"
    and ts: "tdf_timestamp_plan (tbs_time st) time = (hdr, tsn, delta)"
  shows "nb_app (tbs_buf st) (tbs_buf st')
      (tdf_wire hdr (ucast delta) time tdf_id len n idx_period is_idx is_diff fmt' pre data)"
    and "tbs_time st' = (if time = 0 then tbs_time st else time)"
proof -
  let ?b = "tbs_buf st" and ?l = "unat len" and ?h = "nb_data (tbs_buf st) + nb_len (tbs_buf st)"
  let ?ts = "tdf_ts_bytes hdr (ucast delta) time"
  let ?arr = "if 1 < n \<or> is_idx then of_nat n # put_u16 (tdf_array_field idx_period is_idx) else []"
  obtain t where diff: "is_diff \<Longrightarrow> is_diff_format fmt' \<and> ?l mod tdf_diff_divisor fmt' = 0 \<and> 0 < ?l"
    and n: "1 \<le> n" "n \<le> m" and t: "t = tdf_data_size is_diff ?l (diff_row fmt' ?l) n"
    and room: "3 + tsn + (if 1 < n \<or> is_idx then 3 else 0) + t \<le> nb_room ?b"
    and st': "(case tdf_add_header api st hdr tdf_id len time (ucast delta) of (h, st1) \<Rightarrow>
        case tdf_add_array_header api st1 h n idx_period is_idx is_diff of (ptr, st2) \<Rightarrow>
        st2\<lparr>tbs_buf := tdf_add_payload api (tbs_buf st2) fmt' pre is_diff ptr ?l n t data\<rparr>) = st'"
    using add_core_run [OF call ok len2 plan [unfolded fmt'_def pre_def] ts]
    unfolding fmt'_def pre_def is_idx_def by blast
  have tsl: "length ?ts = tsn" by (rule length_tdf_ts_bytes [OF ts])
  obtain h st1 where c1: "tdf_add_header api st hdr tdf_id len time (ucast delta) = (h, st1)" by fastforce
  obtain ptr st2 where c2: "tdf_add_array_header api st1 h n idx_period is_idx is_diff = (ptr, st2)"
    by fastforce
  have "nb_app ?b (tbs_buf st1) (put_u16 (hdr OR tdf_id) @ [len] @ ?ts)" and h: "h = ?h"
    and time1: "tbs_time st1 = (if hdr = TDF_TIMESTAMP_RELATIVE \<or> hdr = TDF_TIMESTAMP_EXTENDED_RELATIVE \<or>
       hdr = TDF_TIMESTAMP_ABSOLUTE then time else tbs_time st)"
    using add_header_app [OF ok refl _ c1] room tsl by auto
  note arr = add_array_header_app [OF this(1) h _ c2]
  have app2: "nb_app ?b (tbs_buf st2)
      ((put_u16 ((hdr OR tdf_id) OR tdf_array_flags n is_idx is_diff) @ [len] @ ?ts) @ ?arr)"
    and ptr: "ptr = (if 1 < n \<or> is_idx then Some (?h + 3 + tsn) else None)"
    and time2: "tbs_time st2 = tbs_time st1"
    using arr room tsl h by (auto split: if_splits)
  have "nb_app ?b (tdf_add_payload api (tbs_buf st2) fmt' pre is_diff ptr ?l n t data)
      ((put_u16 ((hdr OR tdf_id) OR tdf_array_flags n is_idx is_diff) @ [len] @ ?ts) @
       (if is_diff \<and> 1 < n then tdf_array_num fmt' is_diff n # tl ?arr else ?arr) @
       tdf_payload_bytes fmt' pre is_diff ?l n data)"
    using diff n room tsl
    by (intro add_payload_app [OF app2 _ _ _ _ tdf_data_ok_mono [OF data n(2)] t]) (auto simp: ptr)
  moreover have "(if is_diff \<and> 1 < n then tdf_array_num fmt' is_diff n # tl ?arr else ?arr) =
      (if 1 < n \<or> is_idx then tdf_array_num fmt' is_diff n # put_u16 (tdf_array_field idx_period is_idx) else [])"
    by (auto simp: tdf_array_num_def)
  moreover have "st' = st2\<lparr>tbs_buf := tdf_add_payload api (tbs_buf st2) fmt' pre is_diff ptr ?l n t data\<rparr>"
    using st' c1 c2 by simp
  ultimately show "nb_app ?b (tbs_buf st')
      (tdf_wire hdr (ucast delta) time tdf_id len n idx_period is_idx is_diff fmt' pre data)"
    and "tbs_time st' = (if time = 0 then tbs_time st else time)"
    using time1 time2 ts by (auto simp: tdf_wire_def tdf_timestamp_plan_def Let_def split: if_splits)
qed

end

end
