(* ===== verification/Tdf_Parse.thy ===== *)
theory Tdf_Parse
  imports Tdf_Core
begin

text \<open>
  The decoder of the Tagged Data Format, \<open>subsys/tdf/tdf.c\<close> lines 436 to 607, and the inline functions
  \<open>tdf_parse_start\<close> and \<open>tdf_parse_find_in_buf\<close> of \<open>include/infuse/tdf/tdf.h\<close>. The unions of
  \<open>struct tdf_parsed\<close> are one field each: \<open>tdf_num\<close> and \<open>diff_info.num\<close> are the same byte, and \<open>base_idx\<close>
  is the low half of \<open>period\<close>. \<open>data\<close> is an offset into the memory of the parsed buffer. The functions
  return the code's result with the state and the output structure they leave, also on errors.
\<close>

subsection \<open>Parsing one TDF\<close>

record tdf_parsed =
  p_time :: word64
  p_tdf_id :: word16
  p_tdf_len :: byte
  p_data_type :: byte
  p_num :: byte
  p_period :: word32
  p_data :: nat

definition sign_extend_24_bits :: "word32 \<Rightarrow> word32" where
  "sign_extend_24_bits x = (let m = push_bit 23 1 in (x XOR m) - m)"

definition tdf_time_flags_length :: "word16 \<Rightarrow> nat" where
  "tdf_time_flags_length time_flags =
     (if time_flags = TDF_TIMESTAMP_ABSOLUTE then 6
      else if time_flags = TDF_TIMESTAMP_RELATIVE then 2
      else if time_flags = TDF_TIMESTAMP_EXTENDED_RELATIVE then 3
      else 0)"

text \<open>\<open>state->time += time_diff\<close> converts the signed 32 bit difference to 64 bits.\<close>

definition tdf_time_advance ::
    "tdf_buffer_state \<Rightarrow> tdf_parsed \<Rightarrow> word32 \<Rightarrow> unit res \<times> tdf_buffer_state \<times> tdf_parsed" where
  "tdf_time_advance state parsed time_diff =
     (if tbs_time state = 0 then (Inl EINVAL, state, parsed)
      else let t = tbs_time state + scast time_diff
           in (Inr (), state\<lparr>tbs_time := t\<rparr>, parsed\<lparr>p_time := t\<rparr>))"

definition tdf_time_flags_consume ::
    "net_buf_api \<Rightarrow> tdf_buffer_state \<Rightarrow> tdf_parsed \<Rightarrow> word16 \<Rightarrow>
     unit res \<times> tdf_buffer_state \<times> tdf_parsed" where
  "tdf_time_flags_consume api state parsed time_flags =
     (if time_flags = TDF_TIMESTAMP_ABSOLUTE then
        let (t, buf) = net_buf_simple_pull_mem api (tbs_buf state) 6;
            time = epoch_time_from (ucast (get_u32 (nb_load buf t 4) 0)) (get_u16 (nb_load buf (t + 4) 2) 0)
        in (Inr (), \<lparr>tbs_time = time, tbs_buf = buf\<rparr>, parsed\<lparr>p_time := time\<rparr>)
      else if time_flags = TDF_TIMESTAMP_RELATIVE then
        let (time_diff, buf) = net_buf_simple_pull_le16 api (tbs_buf state)
        in tdf_time_advance (state\<lparr>tbs_buf := buf\<rparr>) parsed (of_nat time_diff)
      else if time_flags = TDF_TIMESTAMP_EXTENDED_RELATIVE then
        let (time_diff, buf) = net_buf_simple_pull_le24 api (tbs_buf state)
        in tdf_time_advance (state\<lparr>tbs_buf := buf\<rparr>) parsed (sign_extend_24_bits (of_nat time_diff))
      else (Inr (), state, parsed\<lparr>p_time := 0\<rparr>))"

text \<open>Lines 557 to 566: the period, or the index of the first sample.\<close>

definition tdf_parse_period :: "tdf_parsed \<Rightarrow> word16 \<Rightarrow> word16 \<Rightarrow> tdf_parsed" where
  "tdf_parse_period parsed array_flags field =
     (if array_flags = TDF_ARRAY_IDX
      then parsed\<lparr>p_period := (p_period parsed AND 0xFFFF0000) OR ucast field\<rparr>
      else if field AND 0x8000 \<noteq> 0
      then parsed\<lparr>p_period := of_nat TDF_ARRAY_TIME_SCALE_FACTOR * ucast (field AND 0x7FFF)\<rparr>
      else parsed\<lparr>p_period := ucast field\<rparr>)"

text \<open>Lines 524 to 570: the array header and the length of the data.\<close>

definition tdf_parse_array ::
    "net_buf_api \<Rightarrow> tdf_buffer_state \<Rightarrow> tdf_parsed \<Rightarrow> word16 \<Rightarrow> nat res \<times> tdf_buffer_state \<times> tdf_parsed" where
  "tdf_parse_array api state parsed array_flags =
     (if array_flags = 0 then
        (Inr (unat (p_tdf_len parsed)), state, parsed\<lparr>p_data_type := TDF_DATA_FORMAT_SINGLE\<rparr>)
      else if nb_len (tbs_buf state) \<le> 3 then (Inl EINVAL, state, parsed)
      else
        let (t_hdr, buf) = net_buf_simple_pull_mem api (tbs_buf state) 3;
            state = state\<lparr>tbs_buf := buf\<rparr>;
            num = get_u8 (nb_load buf t_hdr 1) 0;
            field = get_u16 (nb_load buf (t_hdr + 1) 2) 0
        in if array_flags = TDF_ARRAY_DIFF then
             let dt = drop_bit 6 num;
                 parsed = parsed\<lparr>p_data_type := TDF_DATA_FORMAT_DIFF_ARRAY_16_8 + dt - 1,
                                 p_num := num AND 0x3F\<rparr>
             in if dt = 0 then (Inl EINVAL, state, parsed)
                else let diff_bytes_per_tdf =
                           u8 (unat (p_tdf_len parsed) div tdf_diff_divisor (p_data_type parsed) *
                               tdf_diff_size (p_data_type parsed))
                     in (Inr (u16 (unat (p_tdf_len parsed) + unat (p_num parsed) * diff_bytes_per_tdf)),
                         state, tdf_parse_period parsed array_flags field)
           else if array_flags = TDF_ARRAY_TIME \<or> array_flags = TDF_ARRAY_IDX then
             let parsed = parsed\<lparr>p_data_type := if array_flags = TDF_ARRAY_TIME
                                   then TDF_DATA_FORMAT_TIME_ARRAY else TDF_DATA_FORMAT_IDX_ARRAY,
                                 p_num := num\<rparr>
             in (Inr (u16 (unat (p_tdf_len parsed) * unat (p_num parsed))), state,
                 tdf_parse_period parsed array_flags field)
           else (Inl EINVAL, state, parsed))"

definition tdf_parse ::
    "net_buf_api \<Rightarrow> tdf_buffer_state \<Rightarrow> tdf_parsed \<Rightarrow> unit res \<times> tdf_buffer_state \<times> tdf_parsed" where
  "tdf_parse api state parsed =
     (if nb_len (tbs_buf state) \<le> 3 then (Inl ENOMEM, state, parsed)
      else
        let (header, buf) = net_buf_simple_pull_mem api (tbs_buf state) 3;
            state = state\<lparr>tbs_buf := buf\<rparr>;
            id_flags = get_u16 (nb_load buf header 2) 0;
            size = get_u8 (nb_load buf (header + 2) 1) 0;
            time_flags = id_flags AND 0xC000;
            array_flags = id_flags AND 0x3000;
            parsed = parsed\<lparr>p_tdf_id := id_flags AND 0x0FFF, p_tdf_len := size, p_num := 1, p_period := 0\<rparr>
        in if p_tdf_id parsed = 0 \<or> p_tdf_id parsed = 4095 then (Inl EINVAL, state, parsed)
           else if nb_len (tbs_buf state) \<le> tdf_time_flags_length time_flags
           then (Inl EINVAL, state, parsed)
           else
             (case tdf_time_flags_consume api state parsed time_flags of
                (Inl e, state, parsed) \<Rightarrow> (Inl e, state, parsed)
              | (Inr _, state, parsed) \<Rightarrow>
                  (case tdf_parse_array api state parsed array_flags of
                     (Inl e, state, parsed) \<Rightarrow> (Inl e, state, parsed)
                   | (Inr data_len, state, parsed) \<Rightarrow>
                       if nb_len (tbs_buf state) < data_len then (Inl EINVAL, state, parsed)
                       else let (data, buf) = net_buf_simple_pull_mem api (tbs_buf state) data_len
                            in (Inr (), state\<lparr>tbs_buf := buf\<rparr>, parsed\<lparr>p_data := data\<rparr>))))"

subsection \<open>Reconstruction and search\<close>

text \<open>
  \<open>tdf_parse_diff_reconstruct\<close>: \<open>mem\<close> is the memory \<open>parsed->data\<close> points into; the result is the
  output buffer.
\<close>

definition tdf_parse_diff_reconstruct :: "byte list \<Rightarrow> tdf_parsed \<Rightarrow> nat \<Rightarrow> byte list res" where
  "tdf_parse_diff_reconstruct mem parsed idx =
     (let len = unat (p_tdf_len parsed); format = p_data_type parsed in
      if \<not> is_diff_format format \<or> unat (p_num parsed) < idx then Inl EINVAL
      else
        let per_tdf_fields = len div tdf_diff_divisor format;
            per_tdf_diff_size = u8 (per_tdf_fields * tdf_diff_size format)
        in Inr (diff_replay (tdf_diff_apply_functions format len) per_tdf_diff_size idx
                  (take len (drop (p_data parsed) mem)) (drop (p_data parsed + len) mem)))"

definition tdf_parse_start :: "net_buf_api \<Rightarrow> byte list \<Rightarrow> nat \<Rightarrow> tdf_buffer_state" where
  "tdf_parse_start api data sz =
     \<lparr>tbs_time = 0, tbs_buf = net_buf_simple_init_with_data api data sz\<rparr>"

text \<open>
  The search loop, with fuel: whether an iteration consumes data depends on the buffer library, so a
  bound on the iterations is proved from its laws (\<open>net_buf_lib.tdf_find_terminates\<close>) and not built in.
  \<open>None\<close> means the fuel ran out.
\<close>

fun tdf_find_loop ::
    "net_buf_api \<Rightarrow> nat \<Rightarrow> tdf_buffer_state \<Rightarrow> tdf_parsed \<Rightarrow> word16 \<Rightarrow> (unit res \<times> tdf_parsed) option" where
  "tdf_find_loop api 0 state parsed tdf_id = None"
| "tdf_find_loop api (Suc fuel) state parsed tdf_id =
     (case tdf_parse api state parsed of
        (Inl _, _, parsed) \<Rightarrow> Some (Inl ENOMEM, parsed)
      | (Inr _, state, parsed) \<Rightarrow>
          if p_tdf_id parsed = tdf_id then Some (Inr (), parsed)
          else tdf_find_loop api fuel state parsed tdf_id)"

definition tdf_parse_find_in_buf ::
    "net_buf_api \<Rightarrow> nat \<Rightarrow> byte list \<Rightarrow> nat \<Rightarrow> word16 \<Rightarrow> tdf_parsed \<Rightarrow> (unit res \<times> tdf_parsed) option" where
  "tdf_parse_find_in_buf api fuel data sz tdf_id parsed =
     tdf_find_loop api fuel (tdf_parse_start api data sz) parsed tdf_id"

end
