(* ===== verification/Tdf_Roundtrip.thy ===== *)
theory Tdf_Roundtrip
  imports Tdf_Wire Tdf_Parse
begin

text \<open>
  The decoder inverts the encoder. First the bit-level facts (flags, signed time differences, the
  period field, the difference byte), then one lemma per phase of \<open>tdf_parse\<close>, then the properties of
  the format.
\<close>

subsection \<open>Flags\<close>

lemma id_and_mask: "tdf_id < (4096 :: word16) \<Longrightarrow> tdf_id AND 0xFFF = tdf_id"
  using and_mask_self [of tdf_id 12] by (simp add: word_less_nat_alt mask_eq_exp_minus_1)

lemma id_flags_split:
  assumes "tdf_id < 4096"
    and "hdr \<in> {0, TDF_TIMESTAMP_ABSOLUTE, TDF_TIMESTAMP_RELATIVE, TDF_TIMESTAMP_EXTENDED_RELATIVE}"
    and "arr \<in> {0, TDF_ARRAY_TIME, TDF_ARRAY_DIFF, TDF_ARRAY_IDX}"
  shows "((hdr OR tdf_id) OR arr) AND 0xC000 = hdr"
    and "((hdr OR tdf_id) OR arr) AND 0x3000 = arr"
    and "((hdr OR tdf_id) OR arr) AND 0x0FFF = tdf_id"
proof -
  have id: "tdf_id = tdf_id AND 0xFFF" using id_and_mask [OF assms(1)] by simp
  have z: "tdf_id AND 0xC000 = 0" "tdf_id AND 0x3000 = 0"
    by (subst id, simp add: and.assoc)+
  show "((hdr OR tdf_id) OR arr) AND 0xC000 = hdr" "((hdr OR tdf_id) OR arr) AND 0x3000 = arr"
    "((hdr OR tdf_id) OR arr) AND 0x0FFF = tdf_id"
    using assms(2,3) z id [symmetric] by (auto simp: bit.conj_disj_distrib2)
qed

subsection \<open>Signed time differences\<close>

lemma word_eq_of_sint: "word_of_int (sint (w :: 'a :: len word)) = w"
  by simp

lemma scast_small:
  assumes "- (2 ^ 31) \<le> d" "d < 2 ^ 31"
  shows "(scast (word_of_int d :: word32) :: word64) = word_of_int d"
  using assms by (simp add: scast_eq sint_sbintrunc' signed_take_bit_int_eq_self)

lemma relative_delta:
  assumes "0 \<le> sint (x :: word64)" "sint x \<le> 65535"
  shows "(scast (word_of_nat (unat (ucast (ucast x :: word32) :: word16)) :: word32) :: word64) = x"
proof -
  define d where "d = nat (sint x)"
  have x: "x = word_of_nat d" and d: "d < 65536"
    using assms by (simp_all add: d_def flip: word_eq_of_sint)
  have "unat x = d" using d unfolding x by (subst unat_of_nat) simp
  then have x32: "unat (ucast x :: word32) = d"
    using d by (simp add: unsigned_ucast_eq) (simp add: take_bit_eq_mod)
  have "unat (ucast (ucast x :: word32) :: word16) = d"
    using d by (simp only: unsigned_ucast_eq [of "ucast x :: word32"] x32) (simp add: take_bit_eq_mod)
  moreover have "(word_of_nat d :: word32) = word_of_int (int d)" by simp
  ultimately show ?thesis
    using scast_small [of "int d"] d x by simp
qed

lemma xor_bit_23:
  assumes "w < 2 ^ 23"
  shows "(word_of_nat w :: word32) XOR 0x800000 = word_of_nat w + 0x800000"
proof -
  have "unat (word_of_nat w :: word32) = w" using assms by (subst unat_of_nat) simp
  moreover have "bit (word_of_nat w :: word32) 23 = bit (unat (word_of_nat w :: word32)) 23"
    by (simp add: bit_unsigned_iff)
  ultimately have "\<not> bit (word_of_nat w :: word32) 23"
    using assms by (simp add: bit_iff_odd)
  then have "(word_of_nat w :: word32) AND 2 ^ 23 = 0"
    by (simp only: and_exp_eq_0_iff_not_bit) simp
  then show ?thesis by (simp add: disjunctive_add_eq_xor)
qed

lemma sign_extend_24:
  assumes "- (2 ^ 23) \<le> d" "d < 2 ^ 23"
  shows "sign_extend_24_bits (word_of_nat (nat (d mod 2 ^ 24))) = word_of_int d"
proof (cases "0 \<le> d")
  case True
  then have "d mod 2 ^ 24 = d" using assms by simp
  moreover have "nat d < 2 ^ 23" using assms True by simp
  ultimately show ?thesis
    using xor_bit_23 [of "nat d"] True by (simp add: sign_extend_24_bits_def)
next
  case False
  define w where "w = nat (d + 2 ^ 23)"
  have "(d + 2 ^ 24) mod 2 ^ 24 = d + 2 ^ 24" using False assms by (intro mod_pos_pos_trivial) auto
  then have v: "nat (d mod 2 ^ 24) = w + 2 ^ 23" using False assms by (simp add: w_def)
  have "w < 2 ^ 23" using False assms by (simp add: w_def)
  from xor_bit_23 [OF this] have "(word_of_nat (w + 2 ^ 23) :: word32) = word_of_nat w XOR 0x800000"
    by simp
  then have "(word_of_nat (w + 2 ^ 23) :: word32) XOR 0x800000 = word_of_nat w"
    by (simp only: xor.assoc xor_self_eq xor.right_neutral)
  moreover have "(word_of_nat w :: word32) - 0x800000 = word_of_int d"
    using assms by (simp add: w_def)
  ultimately show ?thesis unfolding v by (simp add: sign_extend_24_bits_def)
qed

lemma extended_delta:
  assumes "- 8388608 \<le> sint (x :: word64)" "sint x \<le> 8388607"
  shows "(scast (sign_extend_24_bits (word_of_nat (unat (ucast x :: word32) mod 16777216))) :: word64) = x"
proof -
  define d where "d = sint x"
  have x: "x = word_of_int d" by (simp add: d_def)
  have "uint (ucast x :: word32) = d mod 2 ^ 32"
    unfolding x by (simp add: unsigned_ucast_eq uint_word_of_int take_bit_eq_mod mod_mod_cancel)
  then have "int (unat (ucast x :: word32) mod 16777216) = d mod 2 ^ 24"
    by (simp add: zmod_int mod_mod_cancel)
  then have "unat (ucast x :: word32) mod 16777216 = nat (d mod 2 ^ 24)" by linarith
  then show ?thesis
    using assms sign_extend_24 [of d] scast_small [of d] by (simp add: d_def)
qed

subsection \<open>The array header\<close>

text \<open>The period a reader sees: the period itself, or a multiple of 125 ms when it is scaled.\<close>

definition tdf_round_period :: "word32 \<Rightarrow> word32" where
  "tdf_round_period p = (if unat p \<le> 0x7FFF then p else p div 8192 * 8192)"

lemma small_field:
  assumes "unat (x :: word16) < 32768"
  shows "x AND 0x7FFF = x" "x AND 0x8000 = 0"
    "(0x8000 OR x) AND 0x7FFF = x" "(0x8000 OR x) AND 0x8000 = 0x8000"
proof -
  show m: "x AND 0x7FFF = x" using assms and_mask_self [of x 15] by (simp add: mask_eq_exp_minus_1)
  show z: "x AND 0x8000 = 0" by (subst m [symmetric]) (simp add: and.assoc)
  show "(0x8000 OR x) AND 0x7FFF = x" "(0x8000 OR x) AND 0x8000 = 0x8000"
    using m z by (simp_all add: bit.conj_disj_distrib2)
qed

lemma unat_ucast_small:
  "unat (x :: 'a :: len word) < 2 ^ LENGTH('b) \<Longrightarrow> unat (ucast x :: 'b :: len word) = unat x"
  by (simp add: unsigned_ucast_eq take_bit_eq_mod)

lemma ucast_back:
  assumes "unat (x :: word32) < 65536"
  shows "(ucast (ucast x :: word16) :: word32) = x"
proof -
  have "unat (ucast x :: word16) = unat x" using assms by (simp add: unat_ucast_small)
  then have "unat (ucast (ucast x :: word16) :: word32) = unat x"
    using assms by (simp add: unat_ucast_small)
  then show ?thesis by (simp only: word_unat_eq_iff)
qed

lemma parse_period_field:
  assumes "unat p \<le> TDF_ARRAY_TIME_PERIOD_MAX" "flags \<noteq> TDF_ARRAY_IDX"
  shows "tdf_parse_period parsed flags (tdf_period_field p) = parsed\<lparr>p_period := tdf_round_period p\<rparr>"
proof (cases "unat p \<le> 0x7FFF")
  case True
  then have "unat (ucast p :: word16) = unat p" by (simp add: unat_ucast_small)
  then have "(ucast p :: word16) AND 0x8000 = 0" using True by (intro small_field) simp
  then show ?thesis
    using assms(2) True ucast_back [of p]
    by (simp add: tdf_parse_period_def tdf_period_field_def tdf_round_period_def
        TDF_ARRAY_TIME_PERIOD_VAL_MASK_def)
next
  case False
  define q where "q = p div 8192"
  have q: "unat q < 32768"
    using assms(1) by (simp add: q_def unat_div TDF_ARRAY_TIME_PERIOD_MAX_def
        TDF_ARRAY_TIME_PERIOD_VAL_MASK_def TDF_ARRAY_TIME_SCALE_FACTOR_def)
  then have u: "unat (ucast q :: word16) < 32768" by (simp add: unat_ucast_small)
  have "tdf_period_field p = 0x8000 OR ucast q"
    using False by (simp add: tdf_period_field_def TDF_ARRAY_TIME_PERIOD_VAL_MASK_def
        TDF_ARRAY_TIME_SCALE_FACTOR_def q_def unsigned_or_eq)
  then show ?thesis
    using assms(2) False small_field(3,4) [OF u] ucast_back [of q] q
    by (simp add: tdf_parse_period_def tdf_round_period_def TDF_ARRAY_TIME_SCALE_FACTOR_def mult.commute
        flip: q_def)
qed

lemma parse_period_idx:
  "p_period parsed = 0 \<Longrightarrow>
   tdf_parse_period parsed TDF_ARRAY_IDX field = parsed\<lparr>p_period := ucast field\<rparr>"
  by (simp add: tdf_parse_period_def)

lemma diff_info_split:
  assumes "is_diff_format fmt" "1 \<le> n" "n \<le> 64"
  defines "x \<equiv> push_bit 6 (tdf_diff_encoded fmt) OR of_nat (n - 1)"
  shows "drop_bit 6 x = tdf_diff_encoded fmt" "x AND 0x3F = of_nat (n - 1)"
proof -
  define k where "k = (of_nat (n - 1) :: byte)"
  have "unat k = n - 1" using assms(2,3) unfolding k_def by (subst unat_of_nat) simp
  then have k: "unat k < 64" using assms(2,3) by simp
  then have m: "k AND 0x3F = k" using and_mask_self [of k 6] by (simp add: mask_eq_exp_minus_1)
  have "unat (drop_bit 6 k) = 0" using k by (simp add: unsigned_drop_bit_eq) (simp add: drop_bit_eq_div take_bit_eq_mod)
  then have d: "drop_bit 6 k = 0" by (simp only: unat_eq_zero)
  have e: "push_bit 6 (tdf_diff_encoded fmt) AND 0x3F = 0"
    "drop_bit 6 (push_bit 6 (tdf_diff_encoded fmt)) = tdf_diff_encoded fmt"
    using assms(1) by (auto simp: is_diff_format_def tdf_diff_encoded_def)
  show "drop_bit 6 x = tdf_diff_encoded fmt" "x AND 0x3F = of_nat (n - 1)"
    using d m e unfolding x_def k_def [symmetric] by (simp_all add: drop_bit_or bit.conj_disj_distrib2)
qed

subsection \<open>Reading phase by phase\<close>

definition nb_view :: "byte list \<Rightarrow> net_buf_simple \<Rightarrow> byte list \<Rightarrow> bool" where
  "nb_view mem b xs \<longleftrightarrow> nb_ok b \<and> nb_buf b = mem \<and> nb_bytes b = xs"

lemma nb_view_len: "nb_view mem b xs \<Longrightarrow> nb_len b = length xs"
  by (metis length_nb_bytes nb_view_def)

context net_buf_lib
begin

lemma pull_view:
  assumes v: "nb_view mem b (ys @ zs @ rest)" and n: "n = length ys + length zs"
    and call: "net_buf_simple_pull_mem api b n = (p, b')"
  shows "nb_view mem b' rest" "nb_load b' p (length ys) = ys" "nb_load b' (p + length ys) (length zs) = zs"
    and "nb_load b' p n = ys @ zs"
proof -
  have ok: "nb_ok b" and bytes: "nb_bytes b = (ys @ zs) @ rest" and mem: "nb_buf b = mem"
    using v by (simp_all add: nb_view_def)
  have b': "b' = snd (net_buf_simple_pull_mem api b n)" and p: "p = fst (net_buf_simple_pull_mem api b n)"
    using call by simp_all
  have n': "n = length (ys @ zs)" using n by simp
  note pb = pull_bytes [OF ok bytes n']
  show "nb_view mem b' rest" using pb mem by (simp add: nb_view_def b')
  have ld: "nb_load b' q k = nb_load b q k" for q k
    using pb(4) by (simp add: nb_load_def b')
  have pd: "p = nb_data b" using pb(6) p by simp
  show "nb_load b' p (length ys) = ys"
    unfolding ld by (rule nb_load_bytes [OF ok, of "[]" ys "zs @ rest"]) (simp_all add: bytes pd)
  show "nb_load b' (p + length ys) (length zs) = zs"
    unfolding ld by (rule nb_load_bytes [OF ok, of ys zs rest]) (simp_all add: bytes pd)
  show "nb_load b' p n = ys @ zs"
    unfolding ld by (rule nb_load_bytes [OF ok, of "[]" "ys @ zs" rest]) (simp_all add: bytes pd n)
qed

lemma pull_le_view:
  assumes v: "nb_view mem b (put_le k x @ rest)"
  shows "k = 2 \<Longrightarrow> \<exists>b'. net_buf_simple_pull_le16 api b = (x mod 65536, b') \<and> nb_view mem b' rest"
    and "k = 3 \<Longrightarrow> \<exists>b'. net_buf_simple_pull_le24 api b = (x mod 16777216, b') \<and> nb_view mem b' rest"
proof -
  have ok: "nb_ok b" and len: "k \<le> nb_len b" using v nb_view_len [OF v] by (simp_all add: nb_view_def)
  have ld: "nb_load b (nb_data b) k = put_le k x"
    using v by (intro nb_load_bytes [of b "[]" _ rest]) (simp_all add: nb_view_def)
  obtain p b' where call: "net_buf_simple_pull_mem api b k = (p, b')" by fastforce
  have "nb_view mem b' rest"
    using pull_view(1) [OF _ _ call, of mem "put_le k x" "[]" rest] v by simp
  then show "k = 2 \<Longrightarrow> \<exists>b'. net_buf_simple_pull_le16 api b = (x mod 65536, b') \<and> nb_view mem b' rest"
    and "k = 3 \<Longrightarrow> \<exists>b'. net_buf_simple_pull_le24 api b = (x mod 16777216, b') \<and> nb_view mem b' rest"
    using ok len ld call by (auto simp: pull_le16 pull_le24 get_put_le)
qed

lemma consume_ts:
  assumes ts: "tdf_timestamp_plan (tbs_time st) time = (hdr, tsn, delta)" and small: "unat time < 2 ^ 48"
    and v: "nb_view mem (tbs_buf st) (tdf_ts_bytes hdr (ucast delta) time @ rest)"
  obtains st' where "tdf_time_flags_consume api st parsed hdr = (Inr (), st', parsed\<lparr>p_time := time\<rparr>)"
    and "nb_view mem (tbs_buf st') rest" and "tbs_time st' = (if time = 0 then tbs_time st else time)"
proof -
  consider (none) "time = 0" "hdr = 0" | (abs) "time \<noteq> 0" "hdr = TDF_TIMESTAMP_ABSOLUTE"
    | (rel) "time \<noteq> 0" "tbs_time st \<noteq> 0" "hdr = TDF_TIMESTAMP_RELATIVE" "delta = time - tbs_time st"
        "0 \<le> sint delta" "sint delta \<le> 65535"
    | (ext) "time \<noteq> 0" "tbs_time st \<noteq> 0" "hdr = TDF_TIMESTAMP_EXTENDED_RELATIVE" "delta = time - tbs_time st"
        "- 8388608 \<le> sint delta" "sint delta \<le> 8388607"
    using ts by (auto simp: tdf_timestamp_plan_def Let_def split: if_splits)
  then show thesis
  proof cases
    case none
    show thesis
      by (rule that [of st]) (use none v in \<open>simp_all add: tdf_time_flags_consume_def tdf_ts_bytes_def\<close>)
  next
    case abs
    let ?s = "put_u32 (ucast (epoch_time_seconds time))" and ?u = "put_u16 (epoch_time_subseconds time)"
    obtain p b' where call: "net_buf_simple_pull_mem api (tbs_buf st) 6 = (p, b')" by fastforce
    have "nb_view mem (tbs_buf st) (?s @ ?u @ rest)" using v abs by (simp add: tdf_ts_bytes_def)
    note pv = pull_view [OF this _ call]
    have "unat (epoch_time_seconds time) < 2 ^ 32" using small by (simp add: unat_epoch_time_seconds)
    then have "unat (ucast (ucast (epoch_time_seconds time) :: word32) :: word64) = unat (epoch_time_seconds time)"
      by (simp add: unat_ucast_small)
    then have sec: "(ucast (ucast (epoch_time_seconds time) :: word32) :: word64) = epoch_time_seconds time"
      by (simp only: word_unat_eq_iff)
    show thesis
      by (rule that [of "\<lparr>tbs_time = time, tbs_buf = b'\<rparr>"])
        (use abs call pv sec epoch_time_from_parts [of time] in
          \<open>simp_all add: tdf_time_flags_consume_def get_u32_def get_u16_def\<close>)
  next
    case rel
    let ?x = "unat (ucast (ucast delta :: word32) :: word16)"
    have "nb_view mem (tbs_buf st) (put_le 2 ?x @ rest)" using v rel by (simp add: tdf_ts_bytes_def)
    from pull_le_view(1) [OF this refl] obtain b' where
      b': "net_buf_simple_pull_le16 api (tbs_buf st) = (?x, b')" "nb_view mem b' rest" by auto
    show thesis
      by (rule that [of "\<lparr>tbs_time = time, tbs_buf = b'\<rparr>"])
        (use rel b' relative_delta [of delta] in
          \<open>simp_all add: tdf_time_flags_consume_def tdf_time_advance_def\<close>)
  next
    case ext
    let ?x = "unat (ucast delta :: word32)"
    have "nb_view mem (tbs_buf st) (put_le 3 ?x @ rest)" using v ext by (simp add: tdf_ts_bytes_def)
    from pull_le_view(2) [OF this refl] obtain b' where
      b': "net_buf_simple_pull_le24 api (tbs_buf st) = (?x mod 16777216, b')" "nb_view mem b' rest" by auto
    show thesis
      by (rule that [of "\<lparr>tbs_time = time, tbs_buf = b'\<rparr>"])
        (use ext b' extended_delta [of delta] in
          \<open>simp_all add: tdf_time_flags_consume_def tdf_time_advance_def\<close>)
  qed
qed

end

text \<open>What a reader of \<open>n\<close> samples sees in the output structure.\<close>

definition tdf_seen ::
    "tdf_parsed \<Rightarrow> byte \<Rightarrow> nat \<Rightarrow> word32 \<Rightarrow> bool \<Rightarrow> bool \<Rightarrow> tdf_parsed" where
  "tdf_seen parsed fmt n idx_period is_idx is_diff =
     parsed\<lparr>p_data_type := (if is_idx then TDF_DATA_FORMAT_IDX_ARRAY else if n \<le> 1 then TDF_DATA_FORMAT_SINGLE
                             else if is_diff then fmt else TDF_DATA_FORMAT_TIME_ARRAY),
            p_num := (if is_diff \<and> 1 < n then of_nat (n - 1) else of_nat n),
            p_period := (if is_idx then ucast (ucast idx_period :: word16) else if n \<le> 1 then 0
                         else tdf_round_period idx_period)\<rparr>"

lemma unat_of_nat_byte: "n < 256 \<Longrightarrow> unat (of_nat n :: byte) = n"
  by (subst unat_of_nat) simp

lemma diff_format_encoded:
  assumes "is_diff_format fmt"
  shows "TDF_DATA_FORMAT_DIFF_ARRAY_16_8 + tdf_diff_encoded fmt - 1 = fmt" "tdf_diff_encoded fmt \<noteq> 0"
  using assms by (auto simp: is_diff_format_def tdf_diff_encoded_def)

lemma tdf_array_flags_eq:
  "tdf_array_flags n is_idx is_diff = 0 \<longleftrightarrow> n \<le> 1 \<and> \<not> is_idx"
  "tdf_array_flags n is_idx is_diff = TDF_ARRAY_IDX \<longleftrightarrow> is_idx"
  "tdf_array_flags n is_idx is_diff = TDF_ARRAY_DIFF \<longleftrightarrow> 1 < n \<and> \<not> is_idx \<and> is_diff"
  "tdf_array_flags n is_idx is_diff = TDF_ARRAY_TIME \<longleftrightarrow> 1 < n \<and> \<not> is_idx \<and> \<not> is_diff"
  by (auto simp: tdf_array_flags_def)

context net_buf_lib
begin

lemma parse_array_wire:
  assumes v: "nb_view mem (tbs_buf st) ((if 1 < n \<or> is_idx then
        tdf_array_num fmt is_diff n # put_u16 (tdf_array_field idx_period is_idx) else []) @ pay @ rest)"
    and p: "p_tdf_len parsed = len" "p_num parsed = 1" "p_period parsed = 0"
    and n: "1 \<le> n" "n < 256" and len: "0 < unat len"
    and diff: "is_diff \<Longrightarrow> is_diff_format fmt \<and> n \<le> 64 \<and> unat len mod tdf_diff_divisor fmt = 0 \<and> \<not> is_idx"
    and period: "\<not> is_idx \<Longrightarrow> unat idx_period \<le> TDF_ARRAY_TIME_PERIOD_MAX"
    and pay: "length pay = tdf_data_size is_diff (unat len) (diff_row fmt (unat len)) n"
  obtains st' where "tdf_parse_array api st parsed (tdf_array_flags n is_idx is_diff) =
      (Inr (length pay), st', tdf_seen parsed fmt n idx_period is_idx is_diff)"
    and "nb_view mem (tbs_buf st') (pay @ rest)" and "tbs_time st' = tbs_time st"
proof (cases "1 < n \<or> is_idx")
  case False
  then have n1: "n = 1" using n by simp
  have "parsed\<lparr>p_data_type := 0\<rparr> = tdf_seen parsed fmt n idx_period is_idx is_diff"
    using False n1 p by (cases parsed) (simp add: tdf_seen_def)
  then show thesis
    using False n1 v p pay by (intro that [of st])
      (simp_all add: tdf_parse_array_def tdf_array_flags_def tdf_data_size_def)
next
  case True
  let ?l = "unat len" and ?flags = "tdf_array_flags n is_idx is_diff"
  let ?num = "tdf_array_num fmt is_diff n" and ?field = "tdf_array_field idx_period is_idx"
  have row: "0 < diff_row fmt ?l" "diff_row fmt ?l \<le> ?l" if is_diff
    using diff_row_bounds [of fmt ?l] diff that len by auto
  have "length pay \<le> ?l * n" unfolding pay using row n by (intro tdf_data_size_le) auto
  also have "\<dots> \<le> 255 * 255" using n by (intro mult_le_mono) auto
  finally have small: "length pay < 65536" by simp
  have pos: "0 < length pay" unfolding pay using len n by (simp add: tdf_data_size_def)
  obtain q b' where call: "net_buf_simple_pull_mem api (tbs_buf st) 3 = (q, b')" by fastforce
  have "nb_view mem (tbs_buf st) ([?num] @ put_u16 ?field @ (pay @ rest))" using v True by simp
  note view = nb_view_len [OF this] and pv = pull_view [OF this _ call]
  have ld: "get_u8 (nb_load b' q 1) 0 = ?num" "get_u16 (nb_load b' (q + 1) 2) 0 = ?field"
    using pv(2,3) by (simp_all add: get_u8_def get_u16_def)
  have "tdf_parse_array api st parsed ?flags =
      (Inr (length pay), st\<lparr>tbs_buf := b'\<rparr>, tdf_seen parsed fmt n idx_period is_idx is_diff)"
  proof (cases is_diff)
    case False
    then have "?num = of_nat n" "length pay = ?l * n" by (simp_all add: tdf_array_num_def pay tdf_data_size_def)
    then show ?thesis
      using False True view call ld pos small p n parse_period_field [OF period] parse_period_idx
      by (auto simp: tdf_parse_array_def tdf_array_flags_eq Let_def unat_of_nat_byte tdf_array_field_def
          tdf_seen_def tdf_array_flags_def)
  next
    case d: True
    then have n2: "1 < n" "n \<le> 64" and f: "is_diff_format fmt" and "\<not> is_idx" using True diff by auto
    have num: "drop_bit 6 ?num = tdf_diff_encoded fmt" "?num AND 0x3F = of_nat (n - 1)"
      using diff_info_split [OF f n(1) n2(2)] d n2 by (simp_all add: tdf_array_num_def)
    have u: "u8 (diff_row fmt ?l) = diff_row fmt ?l"
      using row [OF d] by (intro u8_id le_less_trans [OF _ unat_byte_less])
    have m: "unat (of_nat n - 1 :: byte) = n - 1" using unat_of_nat_byte [of "n - 1"] n2 by simp
    have "u16 (?l + (n - 1) * diff_row fmt ?l) = length pay"
      using small d n2 by (simp add: pay tdf_data_size_def)
    then show ?thesis
      using d n2 f \<open>\<not> is_idx\<close> view call ld pos p num m diff_format_encoded [OF f] u parse_period_field [OF period]
      by (simp add: tdf_parse_array_def tdf_array_flags_def Let_def unat_of_nat_byte tdf_array_field_def
          tdf_seen_def diff_row_def)
  qed
  then show thesis using pv(1) by (intro that [of "st\<lparr>tbs_buf := b'\<rparr>"]) simp_all
qed

lemma parse_wire:
  assumes v: "nb_view mem (tbs_buf st)
      (tdf_wire hdr (ucast delta) time tdf_id len n idx_period is_idx is_diff fmt pre data @ rest)"
    and ts: "tdf_timestamp_plan (tbs_time st) time = (hdr, tsn, delta)" and small: "unat time < 2 ^ 48"
    and tdf_id: "tdf_id \<noteq> 0" "tdf_id < 4095" and n: "1 \<le> n" "n < 256" and len: "0 < unat len"
    and diff: "is_diff \<Longrightarrow> is_diff_format fmt \<and> n \<le> 64 \<and> unat len mod tdf_diff_divisor fmt = 0 \<and> \<not> is_idx"
    and period: "\<not> is_idx \<Longrightarrow> unat idx_period \<le> TDF_ARRAY_TIME_PERIOD_MAX"
    and data: "tdf_data_ok fmt pre is_diff (unat len) n data"
  obtains st' off where "tdf_parse api st parsed = (Inr (), st', tdf_seen (parsed\<lparr>p_time := time, p_tdf_id := tdf_id,
        p_tdf_len := len, p_data := off\<rparr>) fmt n idx_period is_idx is_diff)"
    and "nb_view mem (tbs_buf st') rest" and "tbs_time st' = (if time = 0 then tbs_time st else time)"
    and "\<exists>post. drop off mem = tdf_payload_bytes fmt pre is_diff (unat len) n data @ post"
proof -
  let ?arr = "tdf_array_flags n is_idx is_diff" and ?pay = "tdf_payload_bytes fmt pre is_diff (unat len) n data"
  let ?w = "(hdr OR tdf_id) OR ?arr" and ?ts = "tdf_ts_bytes hdr (ucast delta) time"
  let ?ah = "if 1 < n \<or> is_idx then tdf_array_num fmt is_diff n # put_u16 (tdf_array_field idx_period is_idx) else []"
  define p1 where "p1 = parsed\<lparr>p_tdf_id := tdf_id, p_tdf_len := len, p_num := 1, p_period := 0\<rparr>"
  have pay: "length ?pay = tdf_data_size is_diff (unat len) (diff_row fmt (unat len)) n"
    using diff n data by (intro length_tdf_payload_bytes) auto
  then have pos: "0 < length ?pay" using len n by (simp add: tdf_data_size_def)
  have "hdr \<in> {0, TDF_TIMESTAMP_ABSOLUTE, TDF_TIMESTAMP_RELATIVE, TDF_TIMESTAMP_EXTENDED_RELATIVE}"
    and tsl: "tdf_time_flags_length hdr = length ?ts"
    using ts by (auto simp: tdf_timestamp_plan_def tdf_time_flags_length_def tdf_ts_bytes_def Let_def split: if_splits)
  moreover have "?arr \<in> {0, TDF_ARRAY_TIME, TDF_ARRAY_DIFF, TDF_ARRAY_IDX}" by (simp add: tdf_array_flags_def)
  moreover have "tdf_id < 4096" using tdf_id(2) by (rule less_trans) simp
  ultimately have fl: "?w AND 0xC000 = hdr" "?w AND 0x3000 = ?arr" "?w AND 0x0FFF = tdf_id"
    by (simp_all add: id_flags_split)
  obtain q b1 where c1: "net_buf_simple_pull_mem api (tbs_buf st) 3 = (q, b1)" by fastforce
  have v1: "nb_view mem (tbs_buf st) (put_u16 ?w @ [len] @ (?ts @ ?ah @ ?pay @ rest))"
    using v by (simp add: tdf_wire_def)
  note pv = pull_view [OF this _ c1]
  define st1 where "st1 = st\<lparr>tbs_buf := b1\<rparr>"
  have ld: "get_u16 (nb_load b1 q 2) 0 = ?w" "get_u8 (nb_load b1 (q + 2) 1) 0 = len"
    using pv(2,3) by (simp_all add: get_u8_def get_u16_def)
  have view1: "nb_view mem (tbs_buf st1) (?ts @ ?ah @ ?pay @ rest)" using pv(1) by (simp add: st1_def)
  have t1: "tbs_time st1 = tbs_time st" by (simp add: st1_def)
  obtain st2 where c2: "tdf_time_flags_consume api st1 p1 hdr = (Inr (), st2, p1\<lparr>p_time := time\<rparr>)"
    and view2: "nb_view mem (tbs_buf st2) (?ah @ ?pay @ rest)"
    and time2: "tbs_time st2 = (if time = 0 then tbs_time st else time)"
    using consume_ts [OF ts [folded t1] small view1, where parsed = p1] unfolding t1 by blast
  have p2: "p_tdf_len (p1\<lparr>p_time := time\<rparr>) = len" "p_num (p1\<lparr>p_time := time\<rparr>) = 1"
    "p_period (p1\<lparr>p_time := time\<rparr>) = 0" by (simp_all add: p1_def)
  obtain st3 where c3: "tdf_parse_array api st2 (p1\<lparr>p_time := time\<rparr>) ?arr =
      (Inr (length ?pay), st3, tdf_seen (p1\<lparr>p_time := time\<rparr>) fmt n idx_period is_idx is_diff)"
    and view3: "nb_view mem (tbs_buf st3) (?pay @ rest)" and time3: "tbs_time st3 = tbs_time st2"
    using parse_array_wire [OF view2 p2 n len diff period pay] by blast
  obtain off b4 where c4: "net_buf_simple_pull_mem api (tbs_buf st3) (length ?pay) = (off, b4)" by fastforce
  have "nb_view mem (tbs_buf st3) (?pay @ [] @ rest)" using view3 by simp
  note pv4 = pull_view [OF this _ c4]
  have room: "\<not> nb_len (tbs_buf st) \<le> 3" "\<not> nb_len (tbs_buf st1) \<le> tdf_time_flags_length hdr"
    "\<not> nb_len (tbs_buf st3) < length ?pay"
    using nb_view_len [OF v1] nb_view_len [OF view1] nb_view_len [OF view3] pos tsl by simp_all
  have id': "\<not> (tdf_id = 0 \<or> tdf_id = 4095)" using tdf_id by auto
  have parse: "tdf_parse api st parsed = (Inr (), st3\<lparr>tbs_buf := b4\<rparr>,
      (tdf_seen (p1\<lparr>p_time := time\<rparr>) fmt n idx_period is_idx is_diff)\<lparr>p_data := off\<rparr>)"
    unfolding tdf_parse_def using room id' c1 c2 c3 c4 ld fl
    by (simp add: Let_def st1_def [symmetric] p1_def [symmetric])
  show thesis
  proof (rule that)
    show "tdf_parse api st parsed = (Inr (), st3\<lparr>tbs_buf := b4\<rparr>, tdf_seen (parsed\<lparr>p_time := time,
        p_tdf_id := tdf_id, p_tdf_len := len, p_data := off\<rparr>) fmt n idx_period is_idx is_diff)"
      unfolding parse by (cases parsed) (simp add: tdf_seen_def p1_def)
    show "nb_view mem (tbs_buf (st3\<lparr>tbs_buf := b4\<rparr>)) rest" using pv4 by simp
    show "tbs_time (st3\<lparr>tbs_buf := b4\<rparr>) = (if time = 0 then tbs_time st else time)"
      using time2 time3 by simp
    have "take (length ?pay) (drop off mem) = ?pay"
      using pv4(1,2) by (simp add: nb_load_def nb_view_def)
    then show "\<exists>post. drop off mem = ?pay @ post" by (metis append_take_drop_id)
  qed
qed

end

subsection \<open>Samples\<close>

text \<open>
  How a reader obtains sample \<open>j\<close> of a parsed TDF: by reconstruction for a difference array, directly
  otherwise; and how many samples it holds.
\<close>

definition tdf_sample :: "byte list \<Rightarrow> tdf_parsed \<Rightarrow> nat \<Rightarrow> byte list res" where
  "tdf_sample mem parsed j =
     (if is_diff_format (p_data_type parsed) then tdf_parse_diff_reconstruct mem parsed j
      else if j < unat (p_num parsed)
      then Inr (take (unat (p_tdf_len parsed)) (drop (p_data parsed + j * unat (p_tdf_len parsed)) mem))
      else Inl EINVAL)"

definition tdf_sample_count :: "tdf_parsed \<Rightarrow> nat" where
  "tdf_sample_count parsed =
     (if is_diff_format (p_data_type parsed) then unat (p_num parsed) + 1 else unat (p_num parsed))"

lemma not_diff_format: "\<not> is_diff_format 0" "\<not> is_diff_format 1" "\<not> is_diff_format 2"
  by (simp_all add: is_diff_format_def)

lemma seen_count:
  assumes "1 \<le> n" "n < 256" "is_diff \<Longrightarrow> is_diff_format fmt \<and> \<not> is_idx"
  shows "tdf_sample_count (tdf_seen parsed fmt n idx_period is_idx is_diff) = n"
  using assms unat_of_nat_byte [of n] unat_of_nat_byte [of "n - 1"]
  by (auto simp: tdf_sample_count_def tdf_seen_def not_diff_format)

lemma seen_sample_diff:
  assumes n: "1 < n" "n \<le> 64" and d: "is_diff_format fmt" "unat len mod tdf_diff_divisor fmt = 0"
    and data: "unat len * n \<le> length data"
    and valid: "\<And>k. k < n - 1 \<Longrightarrow> diff_valid_at (tdf_diff_check_functions fmt (unat len)) (unat len) data k"
    and off: "drop off mem = tdf_payload_bytes fmt False True (unat len) n data @ post"
    and p: "p_data_type parsed = fmt" "p_tdf_len parsed = len" "unat (p_num parsed) = n - 1" "p_data parsed = off"
    and j: "j < n"
  shows "tdf_parse_diff_reconstruct mem parsed j = Inr (take (unat len) (drop (j * unat len) data))"
proof -
  let ?l = "unat len" and ?f = "unat len div tdf_diff_divisor fmt"
  let ?ap = "tdf_diff_apply_functions fmt ?l"
  let ?e = "tdf_diff_encode_functions fmt ((n - 1) * ?f) data (drop ?l data)"
  note c = diff_codec [OF d(1)]
  have dvd: "tdf_diff_divisor fmt dvd ?l" using d(2) by auto
  have "?l \<le> ?l * n" using n by simp
  then have l: "?l \<le> length data" using data by linarith
  have pay: "drop off mem = take ?l data @ (?e @ post)" using off n by (simp add: tdf_payload_bytes_def)
  then have "drop (off + ?l) mem = ?e @ post" "take ?l (drop off mem) = take ?l data"
    using l drop_drop [of ?l off mem] by (simp_all add: add.commute)
  moreover have "u8 (?f * tdf_diff_size fmt) = ?f * tdf_diff_size fmt"
  proof (cases "?l = 0")
    case False
    then show ?thesis
      using diff_row_bounds [OF d] by (intro u8_id le_less_trans [OF _ unat_byte_less [of len]]) (simp add: diff_row_def)
  qed simp
  moreover have "diff_replay ?ap (?f * tdf_diff_size fmt) j (take ?l data) (?e @ post) =
      diff_replay ?ap (?f * tdf_diff_size fmt) j (take ?l data) ?e"
  proof (rule tdf_diff_codec.replay_prefix [OF c dvd])
    have "j * (?f * tdf_diff_size fmt) \<le> (n - 1) * (?f * tdf_diff_size fmt)" using j by (intro mult_le_mono) auto
    then show "j * (?f * tdf_diff_size fmt) \<le> length ?e"
      by (simp add: tdf_diff_codec.length_encode [OF c] mult.assoc)
  qed
  moreover have "diff_replay ?ap (?f * tdf_diff_size fmt) j (take ?l data) ?e = take ?l (drop (j * ?l) data)"
    using j n data valid by (intro tdf_diff_codec.replay_encode [OF c dvd])
      (auto simp: diff_valid_at_def mult.commute)
  ultimately show ?thesis
    using p d j by (simp add: tdf_parse_diff_reconstruct_def Let_def)
qed

lemma seen_sample:
  assumes n: "1 \<le> n" "n < 256" and d: "is_diff \<Longrightarrow> is_diff_format fmt \<and> n \<le> 64 \<and>
      unat len mod tdf_diff_divisor fmt = 0 \<and> \<not> is_idx"
    and data: "unat len * n \<le> length data"
    and valid: "\<And>k. is_diff \<Longrightarrow> k < n - 1 \<Longrightarrow>
      diff_valid_at (tdf_diff_check_functions fmt (unat len)) (unat len) data k"
    and off: "drop off mem = tdf_payload_bytes fmt False is_diff (unat len) n data @ post"
    and p: "p_tdf_len parsed = len" "p_data parsed = off" and j: "j < n"
  shows "tdf_sample mem (tdf_seen parsed fmt n idx_period is_idx is_diff) j =
    Inr (take (unat len) (drop (j * unat len) data))"
proof (cases "is_diff \<and> 1 < n")
  case True
  let ?p = "tdf_seen parsed fmt n idx_period is_idx is_diff"
  have "p_data_type ?p = fmt" "p_tdf_len ?p = len" "unat (p_num ?p) = n - 1" "p_data ?p = off"
    using True d p n unat_of_nat_byte [of "n - 1"] by (auto simp: tdf_seen_def)
  moreover from this have "tdf_parse_diff_reconstruct mem ?p j = Inr (take (unat len) (drop (j * unat len) data))"
    using True d data valid off j by (intro seen_sample_diff) auto
  ultimately show ?thesis using True d by (simp add: tdf_sample_def)
next
  case False
  let ?l = "unat len"
  have "j * ?l + ?l \<le> n * ?l" using j mult_le_mono1 [of "Suc j" n ?l] by simp
  then have "take ?l (drop (j * ?l) (take (?l * n) data @ post)) = take ?l (drop (j * ?l) data)"
    using data by (intro slice_of_prefix) (simp_all add: mult.commute)
  moreover have "drop (off + j * ?l) mem = drop (j * ?l) (drop off mem)"
    by (simp add: add.commute)
  moreover have "drop off mem = take (?l * n) data @ post"
    using off False by (auto simp: tdf_payload_bytes_def)
  ultimately show ?thesis
    using False n p j unat_of_nat_byte [of n]
    by (auto simp: tdf_sample_def tdf_seen_def not_diff_format)
qed

subsection \<open>Calls and what a reader must find\<close>

record tdf_call =
  c_id :: word16
  c_len :: byte
  c_num :: byte
  c_time :: word64
  c_period :: word32
  c_data :: "byte list"
  c_format :: byte

definition tdf_do :: "net_buf_api \<Rightarrow> tdf_buffer_state \<Rightarrow> tdf_call \<Rightarrow> nat res \<times> tdf_buffer_state" where
  "tdf_do api st c = tdf_add_core api st (c_id c) (c_len c) (c_num c) (c_time c) (c_period c) (c_data c) (c_format c)"

text \<open>
  The obligations of a caller in a state of the buffer: the sample data is there, and the time has 32
  bits of seconds. Two more conditions leave out the one miscounted reclaim of two-byte samples
  (\<open>tdf_reclaims_two\<close>) and precomputed differences (their own property).
\<close>

definition tdf_call_ok :: "tdf_buffer_state \<Rightarrow> tdf_call \<Rightarrow> bool" where
  "tdf_call_ok st c \<longleftrightarrow> unat (c_len c) * unat (c_num c) \<le> length (c_data c) \<and> unat (c_time c) < 2 ^ 48 \<and>
     c_format c AND 0x80 = 0 \<and>
     \<not> tdf_reclaims_two st (c_len c) (c_num c) (c_time c) (c_data c) (c_format c)"

definition tdf_matches :: "byte list \<Rightarrow> tdf_call \<Rightarrow> nat \<Rightarrow> tdf_parsed \<Rightarrow> bool" where
  "tdf_matches mem c n parsed \<longleftrightarrow>
     p_tdf_id parsed = c_id c \<and> p_tdf_len parsed = c_len c \<and> p_time parsed = c_time c \<and>
     tdf_sample_count parsed = n \<and>
     (\<forall>j < n. tdf_sample mem parsed j =
        Inr (take (unat (c_len c)) (drop (j * unat (c_len c)) (c_data c)))) \<and>
     p_period parsed = (if c_format c = TDF_DATA_FORMAT_IDX_ARRAY then ucast (ucast (c_period c) :: word16)
                        else if n = 1 then 0 else tdf_round_period (c_period c))"

lemma and_not_self: "(x :: byte) AND m = 0 \<Longrightarrow> x AND NOT m = x"
proof -
  assume zero: "x AND m = 0"
  have "x = x AND (m OR NOT m)" by simp
  also have "\<dots> = (x AND m) OR (x AND NOT m)" by (simp only: bit.conj_disj_distrib)
  finally show ?thesis by (simp add: zero)
qed

lemma tdf_add_core_error:
  "tdf_add_core api st tdf_id len num time idx_period data fmt = (Inl e, st') \<Longrightarrow> st' = st"
  by (auto simp: tdf_add_core_def Let_def split: sum.splits if_splits option.splits prod.splits)

context net_buf_lib
begin

lemma do_wire:
  assumes call: "tdf_do api st c = (Inr n, st')" and ok: "nb_ok (tbs_buf st)" and c: "tdf_call_ok st c"
  obtains is_diff hdr tsn delta where
    "tdf_timestamp_plan (tbs_time st) (c_time c) = (hdr, tsn, delta)"
    and "nb_app (tbs_buf st) (tbs_buf st') (tdf_wire hdr (ucast delta) (c_time c) (c_id c) (c_len c) n (c_period c)
      (c_format c = TDF_DATA_FORMAT_IDX_ARRAY) is_diff (c_format c) False (c_data c))"
    and "tbs_time st' = (if c_time c = 0 then tbs_time st else c_time c)"
    and "c_id c \<noteq> 0" "c_id c < 4095" "0 < unat (c_len c)" "1 \<le> n" "n < 256"
    and "c_format c \<noteq> TDF_DATA_FORMAT_IDX_ARRAY \<Longrightarrow> unat (c_period c) \<le> TDF_ARRAY_TIME_PERIOD_MAX"
    and "unat (c_len c) * n \<le> length (c_data c)"
    and "is_diff \<Longrightarrow> is_diff_format (c_format c) \<and> n \<le> 64 \<and>
      unat (c_len c) mod tdf_diff_divisor (c_format c) = 0 \<and> c_format c \<noteq> TDF_DATA_FORMAT_IDX_ARRAY"
    and "\<And>k. is_diff \<Longrightarrow> k < n - 1 \<Longrightarrow>
      diff_valid_at (tdf_diff_check_functions (c_format c) (unat (c_len c))) (unat (c_len c)) (c_data c) k"
    and "n \<le> unat (c_num c)"
proof -
  let ?fmt = "c_format c" and ?l = "unat (c_len c)"
  have pre1: "?fmt AND 0x80 = 0" and len2: "\<not> tdf_reclaims_two st (c_len c) (c_num c) (c_time c) (c_data c) ?fmt"
    and dlen: "?l * unat (c_num c) \<le> length (c_data c)"
    using c by (simp_all add: tdf_call_ok_def)
  note pre = pre1 and_not_self [OF pre1]
  obtain is_diff m where plan: "tdf_diff_plan ?fmt False ?l (unat (c_num c)) (c_data c) = (is_diff, m)"
    by fastforce
  obtain hdr tsn delta where ts: "tdf_timestamp_plan (tbs_time st) (c_time c) = (hdr, tsn, delta)"
    by (metis prod_cases3)
  note run = call [unfolded tdf_do_def] ok len2
  have plan': "tdf_diff_plan (?fmt AND NOT 0x80) (?fmt AND 0x80 \<noteq> 0) ?l (unat (c_num c)) (c_data c) = (is_diff, m)"
    using plan pre by simp
  obtain valid: "tdf_input_validate (c_id c) ?l (unat (c_num c)) (c_period c) ?fmt
      (3 + (if c_time c \<noteq> 0 then 6 else 0) + ?l) (u16 (nb_size (tbs_buf st) - nb_data (tbs_buf st))) = Inr ()"
    and n: "1 \<le> n" "n \<le> m"
    and diff: "is_diff \<Longrightarrow> is_diff_format ?fmt \<and> ?l mod tdf_diff_divisor ?fmt = 0 \<and> 0 < ?l"
    using add_core_run [OF run plan' ts] unfolding pre(2) by blast
  then have v: "c_id c \<noteq> 0" "c_id c < 4095" "0 < ?l" and num: "1 \<le> unat (c_num c)"
    and per: "?fmt \<noteq> TDF_DATA_FORMAT_IDX_ARRAY \<Longrightarrow> unat (c_period c) \<le> TDF_ARRAY_TIME_PERIOD_MAX"
    by (auto simp: tdf_input_validate_def not_le not_less split: if_splits)
  note pf = tdf_diff_plan_facts [OF plan num unat_byte_less]
  have "?l * m \<le> ?l * unat (c_num c)" "?l * n \<le> ?l * m" using pf(2) n by (simp_all add: mult_le_mono)
  then have data: "?l * m \<le> length (c_data c)" "?l * n \<le> length (c_data c)" using dlen by linarith+
  then have ok_m: "tdf_data_ok ?fmt False is_diff ?l m (c_data c)" by (simp add: tdf_data_ok_def)
  have nn: "n \<le> unat (c_num c)" using n pf(2) by linarith
  then have nb: "n < 256" by (meson le_less_trans unat_byte_less)
  have diff': "is_diff_format ?fmt \<and> n \<le> 64 \<and> ?l mod tdf_diff_divisor ?fmt = 0 \<and>
      ?fmt \<noteq> TDF_DATA_FORMAT_IDX_ARRAY" if is_diff
    using diff that n pf(5) by (auto simp: is_diff_format_def)
  have valid_at: "diff_valid_at (tdf_diff_check_functions ?fmt ?l) ?l (c_data c) k" if "is_diff" "k < n - 1" for k
    using pf(6) [of k] that n by simp
  have wire: "nb_app (tbs_buf st) (tbs_buf st') (tdf_wire hdr (ucast delta) (c_time c) (c_id c) (c_len c) n
      (c_period c) (?fmt = TDF_DATA_FORMAT_IDX_ARRAY) is_diff ?fmt False (c_data c))"
    and time: "tbs_time st' = (if c_time c = 0 then tbs_time st else c_time c)"
    using add_core_wire [OF run plan' _ ts] ok_m pre by simp_all
  show thesis
    by (rule that [OF ts wire time v n(1) nb per data(2) diff' valid_at nn])
qed

lemma add_then_parse:
  assumes call: "tdf_do api st c = (Inr n, st')" and ok: "nb_ok (tbs_buf st)" and c: "tdf_call_ok st c"
    and rd: "nb_view mem (tbs_buf rd) (drop (nb_len (tbs_buf st)) (nb_bytes (tbs_buf st')) @ rest)"
    and time: "tbs_time rd = tbs_time st"
  obtains rd' parsed' where "tdf_parse api rd parsed = (Inr (), rd', parsed')"
    "nb_view mem (tbs_buf rd') rest" "tbs_time rd' = tbs_time st'" "tdf_matches mem c n parsed'"
proof -
  let ?fmt = "c_format c" and ?is_idx = "c_format c = TDF_DATA_FORMAT_IDX_ARRAY" and ?l = "unat (c_len c)"
  have small: "unat (c_time c) < 2 ^ 48" using c by (simp add: tdf_call_ok_def)
  obtain is_diff hdr tsn delta where
    ts: "tdf_timestamp_plan (tbs_time st) (c_time c) = (hdr, tsn, delta)"
    and app: "nb_app (tbs_buf st) (tbs_buf st') (tdf_wire hdr (ucast delta) (c_time c) (c_id c) (c_len c) n
      (c_period c) ?is_idx is_diff ?fmt False (c_data c))" (is "nb_app _ _ ?w")
    and time': "tbs_time st' = (if c_time c = 0 then tbs_time st else c_time c)"
    and v: "c_id c \<noteq> 0" "c_id c < 4095" "0 < ?l" "1 \<le> n" "n < 256"
    and per: "\<not> ?is_idx \<Longrightarrow> unat (c_period c) \<le> TDF_ARRAY_TIME_PERIOD_MAX"
    and data: "?l * n \<le> length (c_data c)"
    and diff: "is_diff \<Longrightarrow> is_diff_format ?fmt \<and> n \<le> 64 \<and> ?l mod tdf_diff_divisor ?fmt = 0 \<and> \<not> ?is_idx"
    and valid: "\<And>k. is_diff \<Longrightarrow> k < n - 1 \<Longrightarrow> diff_valid_at (tdf_diff_check_functions ?fmt ?l) ?l (c_data c) k"
    and "n \<le> unat (c_num c)"
    by (rule do_wire [OF call ok c], rule that) blast+
  have view: "nb_view mem (tbs_buf rd) (?w @ rest)"
    using rd app by (simp add: nb_app_def)
  have dok: "tdf_data_ok ?fmt False is_diff ?l n (c_data c)" using data by (simp add: tdf_data_ok_def)
  obtain rd' off where "tdf_parse api rd parsed = (Inr (), rd', tdf_seen (parsed\<lparr>p_time := c_time c,
      p_tdf_id := c_id c, p_tdf_len := c_len c, p_data := off\<rparr>) ?fmt n (c_period c) ?is_idx is_diff)"
    and "nb_view mem (tbs_buf rd') rest" and "tbs_time rd' = (if c_time c = 0 then tbs_time rd else c_time c)"
    and off: "\<exists>post. drop off mem = tdf_payload_bytes ?fmt False is_diff ?l n (c_data c) @ post"
    using parse_wire [OF view ts [folded time] small v(1,2,4,5,3) diff per dok] by blast
  moreover from off obtain post where
    "drop off mem = tdf_payload_bytes ?fmt False is_diff ?l n (c_data c) @ post" by blast
  note sample = seen_sample [OF v(4,5) diff data valid this]
  have "tdf_matches mem c n (tdf_seen (parsed\<lparr>p_time := c_time c,
      p_tdf_id := c_id c, p_tdf_len := c_len c, p_data := off\<rparr>) ?fmt n (c_period c) ?is_idx is_diff)"
    using sample v seen_count [OF v(4,5)] diff
    by (auto simp: tdf_matches_def) (auto simp: tdf_seen_def)
  ultimately show thesis using that time time' by simp
qed

end

end
