(* ===== verification/Tdf_Properties.thy ===== *)
theory Tdf_Properties
  imports Tdf_Roundtrip
begin

text \<open>
  The properties of the Tagged Data Format: a stream of additions reads back as the same samples;
  the encoder stays within its buffer; the decoder is safe on arbitrary input and its search loop
  terminates; precomputed differences are carried over; and the two situations in which the encoder
  fails its contract, each characterised for every input.
\<close>

subsection \<open>Streams\<close>

text \<open>A client's sequence of additions; the successful ones are listed with their sample counts.\<close>

fun tdf_do_all ::
    "net_buf_api \<Rightarrow> tdf_buffer_state \<Rightarrow> tdf_call list \<Rightarrow> (tdf_call \<times> nat) list \<times> tdf_buffer_state" where
  "tdf_do_all api st [] = ([], st)"
| "tdf_do_all api st (c # cs) =
     (case tdf_do api st c of
        (Inl _, st) \<Rightarrow> tdf_do_all api st cs
      | (Inr n, st) \<Rightarrow> (case tdf_do_all api st cs of (added, st) \<Rightarrow> ((c, n) # added, st)))"

text \<open>Every call of the sequence meets its obligations in the state it is made in.\<close>

fun tdf_calls_ok :: "net_buf_api \<Rightarrow> tdf_buffer_state \<Rightarrow> tdf_call list \<Rightarrow> bool" where
  "tdf_calls_ok api st [] \<longleftrightarrow> True"
| "tdf_calls_ok api st (c # cs) \<longleftrightarrow> tdf_call_ok st c \<and> tdf_calls_ok api (snd (tdf_do api st c)) cs"

text \<open>A reader's loop \<open>while (tdf_parse(&state, &parsed) == 0)\<close>, with the error that ends it.\<close>

fun tdf_parse_all ::
    "net_buf_api \<Rightarrow> nat \<Rightarrow> tdf_buffer_state \<Rightarrow> tdf_parsed \<Rightarrow> (tdf_parsed list \<times> errno) option" where
  "tdf_parse_all api 0 st parsed = None"
| "tdf_parse_all api (Suc fuel) st parsed =
     (case tdf_parse api st parsed of
        (Inl e, _, _) \<Rightarrow> Some ([], e)
      | (Inr _, st, parsed) \<Rightarrow>
          (case tdf_parse_all api fuel st parsed of
             None \<Rightarrow> None
           | Some (ps, e) \<Rightarrow> Some (parsed # ps, e)))"

context net_buf_lib
begin

lemma parse_end: "nb_view mem (tbs_buf st) [] \<Longrightarrow> tdf_parse api st parsed = (Inl ENOMEM, st, parsed)"
  using nb_view_len [of mem "tbs_buf st" "[]"] by (simp add: tdf_parse_def)

lemma do_all_parse:
  assumes "tdf_do_all api st cs = (added, st')" "nb_ok (tbs_buf st)" "tdf_calls_ok api st cs"
  shows "\<exists>xs. nb_app (tbs_buf st) (tbs_buf st') xs \<and>
    (\<forall>mem rd parsed. nb_view mem (tbs_buf rd) xs \<and> tbs_time rd = tbs_time st \<longrightarrow>
      (\<exists>ps. tdf_parse_all api (Suc (length added)) rd parsed = Some (ps, ENOMEM) \<and>
            list_all2 (\<lambda>(c, n). tdf_matches mem c n) added ps))"
  using assms
proof (induction cs arbitrary: st added)
  case Nil
  then show ?case by (intro exI [of _ "[]"]) (auto simp: nb_app_refl parse_end)
next
  case (Cons c cs)
  obtain r st1 where d: "tdf_do api st c = (r, st1)" by fastforce
  have c: "tdf_call_ok st c" and cs: "tdf_calls_ok api st1 cs" using Cons.prems(3) d by simp_all
  show ?case
  proof (cases r)
    case (Inl e)
    then have "st1 = st" using d tdf_add_core_error by (auto simp: tdf_do_def)
    then show ?thesis using Cons.IH [of st added] Cons.prems d Inl cs by simp
  next
    case (Inr n)
    obtain added' where a: "tdf_do_all api st1 cs = (added', st')" "added = (c, n) # added'"
      using Cons.prems(1) d Inr by (auto split: prod.splits)
    have d: "tdf_do api st c = (Inr n, st1)" using d Inr by simp
    obtain w where w: "nb_app (tbs_buf st) (tbs_buf st1) w"
      using do_wire [OF d Cons.prems(2) c] by blast
    from Cons.IH [OF a(1) nb_app_ok(1) [OF w] cs] obtain ys where ys: "nb_app (tbs_buf st1) (tbs_buf st') ys"
      and rdall: "\<And>mem rd parsed. nb_view mem (tbs_buf rd) ys \<Longrightarrow> tbs_time rd = tbs_time st1 \<Longrightarrow>
        \<exists>ps. tdf_parse_all api (Suc (length added')) rd parsed = Some (ps, ENOMEM) \<and>
             list_all2 (\<lambda>(c, n). tdf_matches mem c n) added' ps"
      by blast
    have app: "nb_app (tbs_buf st) (tbs_buf st') (w @ ys)" using w ys by (simp add: nb_app_def)
    have "\<exists>ps. tdf_parse_all api (Suc (length added)) rd parsed = Some (ps, ENOMEM) \<and>
        list_all2 (\<lambda>(c, n). tdf_matches mem c n) added ps"
      if v: "nb_view mem (tbs_buf rd) (w @ ys)" and t: "tbs_time rd = tbs_time st" for mem rd parsed
    proof -
      have "drop (nb_len (tbs_buf st)) (nb_bytes (tbs_buf st1)) = w" using w by (simp add: nb_app_def)
      then have v': "nb_view mem (tbs_buf rd) (drop (nb_len (tbs_buf st)) (nb_bytes (tbs_buf st1)) @ ys)"
        using v by simp
      obtain rd' p' where p: "tdf_parse api rd parsed = (Inr (), rd', p')" "nb_view mem (tbs_buf rd') ys"
        "tbs_time rd' = tbs_time st1" "tdf_matches mem c n p'"
        using add_then_parse [OF d Cons.prems(2) c v' t] by blast
      then show ?thesis using rdall [OF p(2,3), of p'] a(2) by auto
    qed
    then show ?thesis using app by blast
  qed
qed

end

text \<open>
  C1. Take any sequence of additions to an emptied buffer, each in any of the formats (single, time
  array, indexed array, any of the three difference arrays), under these conditions on each call: its
  data holds the samples it announces, its time is below 2 ^ 48 (32 bits of seconds), it does not carry
  the precomputed flag, and it is not the one miscounted reclaim, in which two-byte samples meet a buffer
  with exactly one byte of payload space behind the headers. Reading the bytes of the buffer back then
  yields exactly the successful additions, in order: identifier, sample length, timestamp, number of
  samples, every sample byte for byte (through reconstruction for difference arrays) and the period,
  rounded as the format does; and the reader stops with \<open>-ENOMEM\<close>, having consumed every byte.
\<close>

theorem tdf_stream_roundtrip:
  assumes "net_buf_lib api" "nb_ok (tbs_buf st0)" "tdf_calls_ok api (tdf_buffer_state_reset api st0) cs"
    and "tdf_do_all api (tdf_buffer_state_reset api st0) cs = (added, st)"
  shows "\<exists>ps. tdf_parse_all api (Suc (length added))
      (tdf_parse_start api (nb_bytes (tbs_buf st)) (nb_len (tbs_buf st))) parsed = Some (ps, ENOMEM) \<and>
    list_all2 (\<lambda>(c, n). tdf_matches (nb_bytes (tbs_buf st)) c n) added ps"
proof -
  let ?st = "tdf_buffer_state_reset api st0"
  have r: "tbs_buf ?st = (tbs_buf st0)\<lparr>nb_data := 0, nb_len := 0\<rparr>" "tbs_time ?st = 0"
    by (simp_all add: tdf_buffer_state_reset_def net_buf_lib.reset [OF assms(1)])
  then have ok: "nb_ok (tbs_buf ?st)" using assms(2) by (auto simp: nb_ok_def)
  from net_buf_lib.do_all_parse [OF assms(1,4) ok assms(3)] obtain xs where
    app: "nb_app (tbs_buf ?st) (tbs_buf st) xs" and
    rd: "\<And>mem rd parsed. nb_view mem (tbs_buf rd) xs \<Longrightarrow> tbs_time rd = 0 \<Longrightarrow>
      \<exists>ps. tdf_parse_all api (Suc (length added)) rd parsed = Some (ps, ENOMEM) \<and>
           list_all2 (\<lambda>(c, n). tdf_matches mem c n) added ps"
    using r by auto
  have xs: "nb_bytes (tbs_buf st) = xs" using app r by (auto simp: nb_app_def nb_bytes_def)
  have len: "nb_len (tbs_buf st) = length xs" "length xs < 65536"
    using nb_app_len [OF app] nb_app_ok(1) [OF app] r by (auto simp: nb_ok_def)
  have "nb_view xs (tbs_buf (tdf_parse_start api xs (length xs))) xs"
    using len by (simp add: tdf_parse_start_def net_buf_lib.init_with_data [OF assms(1)] nb_view_def nb_ok_def nb_bytes_def)
  from rd [OF this, of parsed] show ?thesis
    unfolding xs len by (simp add: tdf_parse_start_def)
qed

text \<open>A buffer of 24 bytes and three additions, the last of which does not fit.\<close>

definition ex_state :: "nat \<Rightarrow> tdf_buffer_state" where
  "ex_state sz = \<lparr>tbs_time = 0, tbs_buf = \<lparr>nb_buf = replicate sz 0, nb_data = 0, nb_len = 0, nb_size = sz\<rparr>\<rparr>"

definition ex_parsed :: tdf_parsed where
  "ex_parsed = \<lparr>p_time = 0, p_tdf_id = 0, p_tdf_len = 0, p_data_type = 0, p_num = 0, p_period = 0, p_data = 0\<rparr>"

definition ex_calls :: "tdf_call list" where
  "ex_calls =
    [\<lparr>c_id = 7, c_len = 2, c_num = 1, c_time = 0, c_period = 0, c_data = [1, 2], c_format = 0\<rparr>,
     \<lparr>c_id = 8, c_len = 1, c_num = 3, c_time = 0x50001, c_period = 40000, c_data = [9, 8, 7], c_format = 1\<rparr>,
     \<lparr>c_id = 9, c_len = 60, c_num = 1, c_time = 1, c_period = 0, c_data = replicate 60 0, c_format = 0\<rparr>]"

lemma ex_state_ok [simp]: "sz < 65536 \<Longrightarrow> nb_ok (tbs_buf (ex_state sz))"
  by (simp add: ex_state_def nb_ok_def)

abbreviation ex_run :: "(tdf_call \<times> nat) list \<times> tdf_buffer_state" where
  "ex_run \<equiv> tdf_do_all ref_net_buf (tdf_buffer_state_reset ref_net_buf (ex_state 24)) ex_calls"

theorem tdf_stream_roundtrip_witness:
  "map snd (fst ex_run) = [1, 3] \<and>
   (\<exists>ps. tdf_parse_all ref_net_buf 3
      (tdf_parse_start ref_net_buf (nb_bytes (tbs_buf (snd ex_run))) (nb_len (tbs_buf (snd ex_run))))
      ex_parsed = Some (ps, ENOMEM))"
proof -
  have added: "map snd (fst ex_run) = [1, 3]" by code_simp
  have "length (map snd (fst ex_run)) = 2" by (simp only: added) simp
  then have len: "length (fst ex_run) = 2" by simp
  have calls: "tdf_calls_ok ref_net_buf (tdf_buffer_state_reset ref_net_buf (ex_state 24)) ex_calls" by code_simp
  have "\<exists>ps. tdf_parse_all ref_net_buf (Suc (length (fst ex_run)))
      (tdf_parse_start ref_net_buf (nb_bytes (tbs_buf (snd ex_run))) (nb_len (tbs_buf (snd ex_run))))
      ex_parsed = Some (ps, ENOMEM) \<and>
    list_all2 (\<lambda>(c, n). tdf_matches (nb_bytes (tbs_buf (snd ex_run))) c n) (fst ex_run) ps"
    by (rule tdf_stream_roundtrip [OF ref_nb.net_buf_lib_axioms ex_state_ok calls]) simp_all
  then show ?thesis using added unfolding len by (simp only: numeral_3_eq_3 numeral_2_eq_2) blast
qed

subsection \<open>Staying within the buffer\<close>

text \<open>The samples the caller must provide, for every format.\<close>

definition tdf_caller_data :: "byte \<Rightarrow> byte \<Rightarrow> byte \<Rightarrow> byte list \<Rightarrow> bool" where
  "tdf_caller_data fmt len num data \<longleftrightarrow>
     tdf_data_ok (fmt AND NOT 0x80) (fmt AND 0x80 \<noteq> 0) (is_diff_format (fmt AND NOT 0x80) \<and> 2 < unat num)
       (unat len) (unat num) data"

lemma caller_data_plan:
  assumes "tdf_caller_data fmt len num data"
    and plan: "tdf_diff_plan (fmt AND NOT 0x80) (fmt AND 0x80 \<noteq> 0) (unat len) (unat num) data = (is_diff, m)"
    and num: "1 \<le> unat num"
  shows "tdf_data_ok (fmt AND NOT 0x80) (fmt AND 0x80 \<noteq> 0) is_diff (unat len) m data"
proof (cases "fmt AND 0x80 \<noteq> 0")
  case True
  then have "is_diff = (is_diff_format (fmt AND NOT 0x80) \<and> 2 < unat num)" "m = unat num"
    using plan by (auto simp: tdf_diff_plan_def split: if_splits)
  then show ?thesis using assms(1) by (simp add: tdf_caller_data_def)
next
  case False
  then have "unat len * unat num \<le> length data" using assms(1) by (simp add: tdf_caller_data_def tdf_data_ok_def)
  moreover have "unat len * m \<le> unat len * unat num"
    using tdf_diff_plan_facts(2) [OF plan num unat_byte_less] by (intro mult_le_mono) auto
  ultimately have "unat len * m \<le> length data" by linarith
  then show ?thesis using False by (simp add: tdf_data_ok_def)
qed

text \<open>
  C2. On a well formed buffer, with the data the call announces, and except in the one situation of
  \<open>tdf_reclaims_two\<close> (several two-byte samples, no index array, exactly one byte of payload space behind
  the headers): a successful \<open>tdf_add_core\<close>, in every format including precomputed differences, adds
  between one and the requested number of samples, and only appends. The buffer stays well formed (its
  length never exceeds its size), what it held before is unchanged, and the data pointer and size are
  untouched. A failing call changes nothing.
\<close>

theorem tdf_add_core_safe:
  assumes "net_buf_lib api" "nb_ok (tbs_buf st)" "\<not> tdf_reclaims_two st len num time data fmt"
    and "tdf_caller_data fmt len num data"
    and "tdf_add_core api st tdf_id len num time idx_period data fmt = (r, st')"
  shows "case r of
      Inl e \<Rightarrow> st' = st
    | Inr n \<Rightarrow> 1 \<le> n \<and> n \<le> unat num \<and> nb_ok (tbs_buf st') \<and>
        nb_data (tbs_buf st') = nb_data (tbs_buf st) \<and> nb_size (tbs_buf st') = nb_size (tbs_buf st) \<and>
        (\<exists>xs. xs \<noteq> [] \<and> nb_bytes (tbs_buf st') = nb_bytes (tbs_buf st) @ xs)"
proof (cases r)
  case (Inl e)
  then show ?thesis using assms(5) tdf_add_core_error by simp
next
  case (Inr n)
  obtain is_diff m where plan: "tdf_diff_plan (fmt AND NOT 0x80) (fmt AND 0x80 \<noteq> 0) (unat len) (unat num) data =
      (is_diff, m)" by fastforce
  obtain hdr tsn delta where ts: "tdf_timestamp_plan (tbs_time st) time = (hdr, tsn, delta)"
    by (metis prod_cases3)
  have call: "tdf_add_core api st tdf_id len num time idx_period data fmt = (Inr n, st')"
    using assms(5) Inr by simp
  obtain "tdf_input_validate tdf_id (unat len) (unat num) idx_period (fmt AND NOT 0x80)
      (3 + (if time \<noteq> 0 then 6 else 0) + unat len) (u16 (nb_size (tbs_buf st) - nb_data (tbs_buf st))) = Inr ()"
    and n: "1 \<le> n" "n \<le> m"
    using net_buf_lib.add_core_run [OF assms(1) call assms(2,3) plan ts] by blast
  then have num: "1 \<le> unat num" by (auto simp: tdf_input_validate_def split: if_splits)
  note wire = net_buf_lib.add_core_wire(1) [OF assms(1) call assms(2,3) plan caller_data_plan [OF assms(4) plan num] ts]
  have "n \<le> unat num" using n tdf_diff_plan_facts(2) [OF plan num unat_byte_less] by simp
  then show ?thesis using Inr n wire by (auto simp: nb_app_def tdf_wire_def put_u16_def numeral_2_eq_2)
qed

theorem tdf_add_core_safe_witness:
  "tdf_caller_data 0 3 1 [1, 2, 3] \<and>
   (case fst (tdf_add_core ref_net_buf (ex_state 24) 7 3 1 0 0 [1, 2, 3] 0) of
      Inl e \<Rightarrow> False
    | Inr n \<Rightarrow> n = 1 \<and>
        nb_ok (tbs_buf (snd (tdf_add_core ref_net_buf (ex_state 24) 7 3 1 0 0 [1, 2, 3] 0))))"
proof -
  let ?r = "tdf_add_core ref_net_buf (ex_state 24) 7 3 1 0 0 [1, 2, 3] 0"
  have d: "tdf_caller_data 0 3 1 [1, 2, 3]" by code_simp
  have "fst ?r = Inr 1" by code_simp
  moreover have "case fst ?r of Inl e \<Rightarrow> snd ?r = ex_state 24
    | Inr n \<Rightarrow> 1 \<le> n \<and> n \<le> unat (1 :: byte) \<and> nb_ok (tbs_buf (snd ?r)) \<and>
        nb_data (tbs_buf (snd ?r)) = nb_data (tbs_buf (ex_state 24)) \<and>
        nb_size (tbs_buf (snd ?r)) = nb_size (tbs_buf (ex_state 24)) \<and>
        (\<exists>xs. xs \<noteq> [] \<and> nb_bytes (tbs_buf (snd ?r)) = nb_bytes (tbs_buf (ex_state 24)) @ xs)"
    by (rule tdf_add_core_safe [OF ref_nb.net_buf_lib_axioms ex_state_ok _ d]) simp_all
  ultimately show ?thesis using d by simp
qed

subsection \<open>Decoding arbitrary input\<close>

text \<open>\<open>nb_adv b b'\<close>: \<open>b'\<close> is \<open>b\<close> with some bytes consumed from its front.\<close>

definition nb_adv :: "net_buf_simple \<Rightarrow> net_buf_simple \<Rightarrow> bool" where
  "nb_adv b b' \<longleftrightarrow> nb_ok b' \<and> nb_buf b' = nb_buf b \<and> nb_size b' = nb_size b \<and>
     nb_data b' + nb_len b' = nb_data b + nb_len b \<and> nb_data b \<le> nb_data b'"

lemma nb_adv_trans: "nb_adv a b \<Longrightarrow> nb_adv b c \<Longrightarrow> nb_adv a c"
  by (auto simp: nb_adv_def)

lemma nb_adv_refl: "nb_ok b \<Longrightarrow> nb_adv b b"
  by (simp add: nb_adv_def)

text \<open>The size of the payload a parsed TDF refers to.\<close>

definition tdf_payload_len :: "tdf_parsed \<Rightarrow> nat" where
  "tdf_payload_len parsed =
     (if is_diff_format (p_data_type parsed)
      then unat (p_tdf_len parsed) + unat (p_num parsed) * diff_row (p_data_type parsed) (unat (p_tdf_len parsed))
      else unat (p_tdf_len parsed) * unat (p_num parsed))"

lemma diff_row_le: "is_diff_format fmt \<Longrightarrow> diff_row fmt len \<le> len"
  by (auto simp: is_diff_format_def diff_row_def tdf_diff_divisor_def tdf_diff_size_def)

lemma diff_type_format:
  assumes "drop_bit 6 (x :: byte) \<noteq> 0"
  shows "is_diff_format (TDF_DATA_FORMAT_DIFF_ARRAY_16_8 + drop_bit 6 x - 1)"
proof -
  have "unat (drop_bit 6 x) = unat x div 64"
    by (simp add: unsigned_drop_bit_eq) (simp add: drop_bit_eq_div take_bit_eq_mod)
  then have "unat (drop_bit 6 x) < 4" using unat_byte_less [of x] by (simp del: unat_byte_less)
  then have "unat (drop_bit 6 x) \<in> {0, 1, 2, 3}" by auto
  then have "(of_nat (unat (drop_bit 6 x)) :: byte) \<in> {0, 1, 2, 3}" by (elim insertE) (simp_all only: of_nat_0 of_nat_1 of_nat_numeral, simp_all)
  then have "drop_bit 6 x \<in> {0, 1, 2, 3}" by simp
  then show ?thesis using assms by (auto simp: is_diff_format_def)
qed

context net_buf_lib
begin

lemma pull_adv:
  assumes "nb_ok b" "n \<le> nb_len b" "net_buf_simple_pull_mem api b n = (p, b')"
  shows "nb_adv b b'" "nb_len b' = nb_len b - n" "p = nb_data b" "nb_data b' = nb_data b + n"
  using assms pull_mem [OF assms(1,2)] by (auto simp: nb_adv_def nb_ok_def)

lemma consume_adv:
  assumes "nb_ok (tbs_buf st)" "tdf_time_flags_length fl \<le> nb_len (tbs_buf st)"
    and "tdf_time_flags_consume api st parsed fl = (r, st', parsed')"
  shows "nb_adv (tbs_buf st) (tbs_buf st')"
    and "\<exists>t. parsed' = parsed\<lparr>p_time := t\<rparr>"
proof -
  have "\<exists>b'. net_buf_simple_pull_mem api (tbs_buf st) k = (nb_data (tbs_buf st), b') \<and> nb_adv (tbs_buf st) b'"
    if "k \<le> nb_len (tbs_buf st)" for k
    using pull_adv [OF assms(1) that] by (metis surj_pair)
  note pulls = this [of 6] this [of 2] this [of 3]
  show "nb_adv (tbs_buf st) (tbs_buf st')"
    using assms pulls nb_adv_refl [OF assms(1)]
    by (auto simp: tdf_time_flags_consume_def tdf_time_flags_length_def tdf_time_advance_def Let_def
        pull_le16 pull_le24 split: if_splits)
  show "\<exists>t. parsed' = parsed\<lparr>p_time := t\<rparr>"
    using assms(3) by (cases parsed) (auto simp: tdf_time_flags_consume_def tdf_time_advance_def Let_def
        split: if_splits prod.splits)
qed

lemma parse_array_adv:
  assumes "nb_ok (tbs_buf st)" "tdf_parse_array api st parsed fl = (r, st', parsed')" "p_num parsed = 1"
  shows "nb_adv (tbs_buf st) (tbs_buf st')" and "r = Inr n \<Longrightarrow> n = tdf_payload_len parsed'"
proof -
  let ?l = "unat (p_tdf_len parsed)"
  obtain p b' where pull: "net_buf_simple_pull_mem api (tbs_buf st) 3 = (p, b')" by fastforce
  show "nb_adv (tbs_buf st) (tbs_buf st')"
    using assms pull pull_adv(1) [OF assms(1) _ pull] nb_adv_refl [OF assms(1)]
    by (auto simp: tdf_parse_array_def Let_def split: if_splits)
  have sz: "x * k < 65536" if "x < 256" "k < 256" for x k :: nat
  proof -
    have "x * k \<le> 255 * 255" using that by (intro mult_le_mono) auto
    then show ?thesis by simp
  qed
  have dsz: "u16 (?l + unat (num AND 0x3F) * u8 (?l div tdf_diff_divisor f * tdf_diff_size f)) =
      ?l + unat (num AND 0x3F) * diff_row f ?l" if f: "is_diff_format f" for num :: byte and f
  proof -
    have row: "diff_row f ?l \<le> ?l" by (rule diff_row_le [OF f])
    have "num AND 0x3F = take_bit 6 num" by (simp add: take_bit_eq_mask mask_eq_exp_minus_1)
    then have "unat (num AND 0x3F) < 64" by (simp add: unsigned_take_bit_eq) (simp add: take_bit_eq_mod)
    then have "unat (num AND 0x3F) * diff_row f ?l \<le> 63 * 255"
      using row by (intro mult_le_mono) (auto intro: order_trans [OF row])
    moreover have "?l < 256" by simp
    ultimately have "?l + unat (num AND 0x3F) * diff_row f ?l < 65536" by linarith
    moreover have "u8 (diff_row f ?l) = diff_row f ?l"
      using row by (intro u8_id le_less_trans [OF _ unat_byte_less])
    ultimately show ?thesis by (simp add: diff_row_def)
  qed
  have keep: "p_data_type (tdf_parse_period q g x) = p_data_type q" "p_num (tdf_parse_period q g x) = p_num q"
    "p_tdf_len (tdf_parse_period q g x) = p_tdf_len q" for q g x
    by (simp_all add: tdf_parse_period_def)
  show "n = tdf_payload_len parsed'" if r: "r = Inr n"
    using assms(2,3) pull r dsz diff_type_format sz
    by (auto simp: tdf_parse_array_def tdf_payload_len_def Let_def keep not_diff_format split: if_splits)
qed

end

context net_buf_lib
begin

lemma parse_adv:
  assumes ok: "nb_ok (tbs_buf st)" and call: "tdf_parse api st parsed = (r, st', parsed')"
  shows "nb_adv (tbs_buf st) (tbs_buf st')"
    and "r = Inr () \<Longrightarrow> nb_data (tbs_buf st) + 3 \<le> p_data parsed' \<and>
      p_data parsed' + tdf_payload_len parsed' = nb_data (tbs_buf st')"
proof -
  have "nb_adv (tbs_buf st) (tbs_buf st') \<and> (r = Inr () \<longrightarrow> nb_data (tbs_buf st) + 3 \<le> p_data parsed' \<and>
      p_data parsed' + tdf_payload_len parsed' = nb_data (tbs_buf st'))"
  proof (cases "nb_len (tbs_buf st) \<le> 3")
    case True
    then show ?thesis using call nb_adv_refl [OF ok] by (auto simp: tdf_parse_def)
  next
    case False
    then have "3 \<le> nb_len (tbs_buf st)" by simp
    obtain h b1 where c1: "net_buf_simple_pull_mem api (tbs_buf st) 3 = (h, b1)" by fastforce
    note p1 = pull_adv [OF ok \<open>3 \<le> _\<close> c1]
    define st1 where "st1 = st\<lparr>tbs_buf := b1\<rparr>"
    have ok1: "nb_ok (tbs_buf st1)" using p1(1) by (simp add: st1_def nb_adv_def)
    define w where "w = get_u16 (nb_load b1 h 2) 0"
    define q1 where "q1 = parsed\<lparr>p_tdf_id := w AND 0x0FFF, p_tdf_len := get_u8 (nb_load b1 (h + 2) 1) 0,
      p_num := 1, p_period := 0\<rparr>"
    obtain r2 st2 q2 where c2: "tdf_time_flags_consume api st1 q1 (w AND 0xC000) = (r2, st2, q2)"
      by (metis prod_cases3)
    obtain r3 st3 q3 where c3: "tdf_parse_array api st2 q2 (w AND 0x3000) = (r3, st3, q3)"
      by (metis prod_cases3)
    have eq: "tdf_parse api st parsed =
      (if p_tdf_id q1 = 0 \<or> p_tdf_id q1 = 4095 then (Inl EINVAL, st1, q1)
       else if nb_len (tbs_buf st1) \<le> tdf_time_flags_length (w AND 0xC000) then (Inl EINVAL, st1, q1)
       else case r2 of Inl e \<Rightarrow> (Inl e, st2, q2)
         | Inr _ \<Rightarrow> (case r3 of Inl e \<Rightarrow> (Inl e, st3, q3)
           | Inr n \<Rightarrow> if nb_len (tbs_buf st3) < n then (Inl EINVAL, st3, q3)
               else case net_buf_simple_pull_mem api (tbs_buf st3) n of
                 (data, buf) \<Rightarrow> (Inr (), st3\<lparr>tbs_buf := buf\<rparr>, q3\<lparr>p_data := data\<rparr>)))"
      using False c1 c2 c3 by (simp add: tdf_parse_def Let_def st1_def w_def q1_def split: sum.split)
    have adv1: "nb_adv (tbs_buf st) (tbs_buf st1)" using p1 by (simp add: st1_def)
    show ?thesis
    proof (cases "(p_tdf_id q1 = 0 \<or> p_tdf_id q1 = 4095) \<or>
        nb_len (tbs_buf st1) \<le> tdf_time_flags_length (w AND 0xC000)")
      case True
      then show ?thesis using call adv1 unfolding eq by (auto split: if_splits)
    next
      case F: False
      then have tl: "tdf_time_flags_length (w AND 0xC000) \<le> nb_len (tbs_buf st1)" by simp
      note a2 = consume_adv [OF ok1 tl c2]
      have adv2: "nb_adv (tbs_buf st) (tbs_buf st2)" using adv1 a2(1) by (rule nb_adv_trans)
      then have ok2: "nb_ok (tbs_buf st2)" by (simp add: nb_adv_def)
      have num2: "p_num q2 = 1" using a2(2) by (auto simp: q1_def)
      note a3 = parse_array_adv [OF ok2 c3 num2]
      have adv3: "nb_adv (tbs_buf st) (tbs_buf st3)" using adv2 a3(1) by (rule nb_adv_trans)
      then have ok3: "nb_ok (tbs_buf st3)" by (simp add: nb_adv_def)
      have d3: "nb_data (tbs_buf st) + 3 \<le> nb_data (tbs_buf st3)"
        using p1(4) a2(1) a3(1) by (simp add: nb_adv_def st1_def)
      show ?thesis
      proof (cases "\<exists>n. r2 = Inr () \<and> r3 = Inr n \<and> n \<le> nb_len (tbs_buf st3)")
        case False
        then show ?thesis using call F adv2 adv3 unfolding eq
          by (auto split: sum.splits if_splits)
      next
        case True
        then obtain n where n: "r2 = Inr ()" "r3 = Inr n" "n \<le> nb_len (tbs_buf st3)" by blast
        obtain p b' where c4: "net_buf_simple_pull_mem api (tbs_buf st3) n = (p, b')" by fastforce
        have "st' = st3\<lparr>tbs_buf := b'\<rparr>" "parsed' = q3\<lparr>p_data := p\<rparr>"
          using call F n c4 unfolding eq by auto
        then show ?thesis
          using pull_adv [OF ok3 n(3) c4] a3(2) [OF n(2)] d3 nb_adv_trans [OF adv3]
          by (simp add: tdf_payload_len_def)
      qed
    qed
  qed
  then show "nb_adv (tbs_buf st) (tbs_buf st')"
    and "r = Inr () \<Longrightarrow> nb_data (tbs_buf st) + 3 \<le> p_data parsed' \<and>
      p_data parsed' + tdf_payload_len parsed' = nb_data (tbs_buf st')" by auto
qed

lemma tdf_find_terminates:
  assumes "nb_ok (tbs_buf st)" "nb_len (tbs_buf st) < fuel"
  shows "\<exists>r p. tdf_find_loop api fuel st parsed tdf_id = Some (r, p) \<and> (r = Inr () \<longrightarrow> p_tdf_id p = tdf_id)"
  using assms
proof (induction fuel arbitrary: st parsed)
  case (Suc fuel)
  obtain r st' p' where c: "tdf_parse api st parsed = (r, st', p')" by (metis prod_cases3)
  show ?case
  proof (cases r)
    case (Inr u)
    then have "nb_ok (tbs_buf st')" "nb_len (tbs_buf st') < fuel"
      using parse_adv [OF Suc.prems(1) c] Suc.prems(2) by (auto simp: nb_adv_def)
    then show ?thesis using Suc.IH [of st' p'] c Inr by auto
  qed (use c in simp)
qed simp

end

text \<open>
  C5. \<open>tdf_parse\<close> is safe on any buffer contents: it never leaves the buffer (what it returns is the
  buffer with a prefix consumed), and on success the payload it reports lies between the header and the
  new read position, so a reader that stays within the payload stays within the buffer.
\<close>

theorem tdf_parse_safe:
  assumes "net_buf_lib api" "nb_ok (tbs_buf st)" "tdf_parse api st parsed = (r, st', parsed')"
  shows "nb_ok (tbs_buf st') \<and> nb_buf (tbs_buf st') = nb_buf (tbs_buf st) \<and>
    nb_data (tbs_buf st') + nb_len (tbs_buf st') = nb_data (tbs_buf st) + nb_len (tbs_buf st) \<and>
    (r = Inr () \<longrightarrow> nb_data (tbs_buf st) + 3 \<le> p_data parsed' \<and>
       p_data parsed' + tdf_payload_len parsed' \<le> nb_data (tbs_buf st) + nb_len (tbs_buf st))"
  using net_buf_lib.parse_adv [OF assms] by (auto simp: nb_adv_def)

theorem tdf_parse_safe_witness:
  "\<exists>st' parsed'. tdf_parse ref_net_buf (tdf_parse_start ref_net_buf [9, 0x20, 4, 0x81, 0, 0, 1, 0, 0, 1, 255] 11)
     ex_parsed = (Inr (), st', parsed') \<and>
   p_data parsed' + tdf_payload_len parsed' \<le> 11"
proof -
  let ?st = "tdf_parse_start ref_net_buf [9, 0x20, 4, 0x81, 0, 0, 1, 0, 0, 1, 255] 11"
  have s: "tbs_buf ?st = \<lparr>nb_buf = [9, 0x20, 4, 0x81, 0, 0, 1, 0, 0, 1, 255], nb_data = 0, nb_len = 11, nb_size = 11\<rparr>"
    by code_simp
  have r: "fst (tdf_parse ref_net_buf ?st ex_parsed) = Inr ()" by code_simp
  have "nb_ok (tbs_buf ?st)" unfolding s by (simp add: nb_ok_def)
  from tdf_parse_safe [OF ref_nb.net_buf_lib_axioms this, of ex_parsed "Inr ()"] r s show ?thesis
    by (metis add_0 net_buf_simple.select_convs(2,3) prod.collapse)
qed

text \<open>
  C22. \<open>tdf_parse_find_in_buf\<close> always terminates: at most one iteration per byte of the buffer plus one,
  whatever the bytes are; and when it reports success, the TDF it returns has the requested identifier.
\<close>

theorem tdf_find_in_buf_terminates:
  assumes "net_buf_lib api" "sz < 65536" "length data = sz"
  shows "\<exists>r p. tdf_parse_find_in_buf api (Suc sz) data sz tdf_id parsed = Some (r, p) \<and>
    (r = Inr () \<longrightarrow> p_tdf_id p = tdf_id)"
proof -
  have "nb_ok (tbs_buf (tdf_parse_start api data sz))" "nb_len (tbs_buf (tdf_parse_start api data sz)) < Suc sz"
    using assms by (simp_all add: tdf_parse_start_def net_buf_lib.init_with_data [OF assms(1)] nb_ok_def)
  then show ?thesis
    unfolding tdf_parse_find_in_buf_def by (rule net_buf_lib.tdf_find_terminates [OF assms(1)])
qed

theorem tdf_find_in_buf_terminates_witness:
  "\<exists>r p. tdf_parse_find_in_buf ref_net_buf 5 [7, 0, 1, 42] 4 7 ex_parsed = Some (r, p) \<and>
     (r = Inr () \<longrightarrow> p_tdf_id p = 7)"
  using tdf_find_in_buf_terminates [OF ref_nb.net_buf_lib_axioms, of 4 "[7, 0, 1, 42]" 7 ex_parsed] by simp

subsection \<open>Differences\<close>

text \<open>
  C23. \<open>tdf_num_valid_diffs\<close> finds the longest run. A non-negative result \<open>r\<close> is the number of leading
  differences that fit the small type: at least two, all valid, and no more could be taken (the next is
  invalid, or the samples or the limit of 64 samples are exhausted). A negative result \<open>-m\<close> tells to log
  the first \<open>m\<close> samples without differences: no two neighbouring differences among them are both
  valid, and \<open>m\<close> is where two valid ones start, or (nearly) all samples are covered.
\<close>

theorem tdf_num_valid_diffs_spec:
  fixes fmt :: byte and len num :: nat and data :: "byte list"
  assumes "2 < num"
  defines "r \<equiv> tdf_num_valid_diffs fmt len num data"
    and "v \<equiv> diff_valid_at (tdf_diff_check_functions fmt len) len data"
  shows "if 0 \<le> r
    then 2 \<le> r \<and> r < int (min num 64) \<and> (\<forall>k < nat r. v k) \<and> (r + 1 = int (min num 64) \<or> \<not> v (nat r))
    else 1 \<le> nat (- r) \<and> nat (- r) \<le> num \<and> (\<forall>k < min (nat (- r)) (num - 2). \<not> (v k \<and> v (Suc k))) \<and>
      (num - 1 \<le> nat (- r) \<or> v (nat (- r)) \<and> v (Suc (nat (- r))))"
proof -
  let ?c = "tdf_diff_check_functions fmt len"
  obtain i p where f: "valid_diffs_first ?c len num data 0 (0 * len) = (i, p)" by fastforce
  note fr = valid_diffs_first_result [OF f, folded v_def] and fm = valid_diffs_first_min [OF f, folded v_def]
  show ?thesis
  proof (cases "i = 0")
    case True
    let ?n = "valid_diffs_count ?c len (min num TDF_MAXIMUM_DIFFS) data 2 (2 * len)"
    have v0: "v 0" "v 1" "p = 2 * len" using fr assms(1) True by auto
    have r: "r = int ?n" using f True v0(3) by (simp add: r_def tdf_num_valid_diffs_def)
    define N where "N = min num 64"
    have N: "min num TDF_MAXIMUM_DIFFS = N" "3 \<le> N" using assms(1) by (auto simp: N_def TDF_MAXIMUM_DIFFS_def)
    have n: "2 \<le> ?n" "?n \<le> N - 1" "\<And>k. 2 \<le> k \<Longrightarrow> k < ?n \<Longrightarrow> v k"
      using valid_diffs_count_result [of 2 N ?c len data] N(2) unfolding N(1) v_def by auto
    have mx: "\<not> v ?n" if "?n < N - 1"
      unfolding v_def using that N(1) by (intro valid_diffs_count_max [OF refl]) simp
    have "v k" if "k < ?n" for k
    proof (cases "2 \<le> k")
      case False
      then have "k = 0 \<or> k = 1" by auto
      then show ?thesis using v0 by auto
    qed (use that n(3) in simp)
    moreover have "?n + 1 = N \<or> \<not> v ?n" using mx n(2) N(2) by linarith
    ultimately have "2 \<le> ?n \<and> ?n < N \<and> (\<forall>k < ?n. v k) \<and> (?n + 1 = N \<or> \<not> v ?n)"
      using n N(2) by simp
    then show ?thesis unfolding r N_def by auto
  next
    case False
    then have r: "r = (if i = num - 2 then - int num else - int i)"
      using f assms(1) by (auto simp: r_def tdf_num_valid_diffs_def)
    have i: "i \<le> num - 1" using fr assms(1) by (auto split: if_splits)
    have "\<not> (v k \<and> v (Suc k))" if "k < i" "k < num - 2" for k using fm that by simp
    then show ?thesis
      using r i False assms(1) fr by (auto split: if_splits)
  qed
qed

theorem tdf_num_valid_diffs_spec_witness:
  "tdf_num_valid_diffs TDF_DATA_FORMAT_DIFF_ARRAY_16_8 2 4 [0, 0, 1, 0, 2, 0, 0, 9] = 2 \<and>
   \<not> diff_valid_at (tdf_diff_check_functions TDF_DATA_FORMAT_DIFF_ARRAY_16_8 2) 2 [0, 0, 1, 0, 2, 0, 0, 9] 2"
proof -
  have r: "tdf_num_valid_diffs TDF_DATA_FORMAT_DIFF_ARRAY_16_8 2 4 [0, 0, 1, 0, 2, 0, 0, 9] = 2" by code_simp
  show ?thesis
    using tdf_num_valid_diffs_spec [of 4 TDF_DATA_FORMAT_DIFF_ARRAY_16_8 2 "[0, 0, 1, 0, 2, 0, 0, 9]"] unfolding r
    by simp
qed

lemma precomputed_format:
  assumes "is_diff_format fmt"
  shows "(fmt OR 0x80) AND NOT 0x80 = fmt" "(fmt OR 0x80) AND 0x80 \<noteq> 0" "fmt OR 0x80 \<noteq> TDF_DATA_FORMAT_IDX_ARRAY"
  using assms by (auto simp: is_diff_format_def)

text \<open>
  C15. Precomputed differences are carried over. A base sample and its rows of differences, between
  three and 64 samples in all, that are added with the precomputed flag are read back byte for byte, for
  the \<open>n\<close> samples that fitted (a single one is stored as a plain sample), with their identifier, sample
  length and time. Conditions: the data holds the base and its differences, the time is below 2 ^ 48, and
  the call is not the miscounted reclaim of two-byte samples.
\<close>

theorem tdf_precomputed_roundtrip:
  assumes lib: "net_buf_lib api" and ok: "nb_ok (tbs_buf st)" and fmt: "is_diff_format fmt"
    and num: "2 < unat num" "unat num \<le> 64"
    and len: "\<not> tdf_reclaims_two st len num time data (fmt OR TDF_DATA_FORMAT_DIFF_PRECOMPUTED)"
    and data: "unat len + (unat num - 1) * diff_row fmt (unat len) \<le> length data" and small: "unat time < 2 ^ 48"
    and call: "tdf_add_core api st tdf_id len num time period data (fmt OR TDF_DATA_FORMAT_DIFF_PRECOMPUTED) = (Inr n, st')"
    and rd: "nb_view mem (tbs_buf rd) (drop (nb_len (tbs_buf st)) (nb_bytes (tbs_buf st')) @ rest)"
    and time: "tbs_time rd = tbs_time st"
  shows "\<exists>rd' p. tdf_parse api rd parsed = (Inr (), rd', p) \<and> nb_view mem (tbs_buf rd') rest \<and>
    p_tdf_id p = tdf_id \<and> p_tdf_len p = len \<and> p_time p = time \<and> tdf_sample_count p = n \<and>
    take (tdf_payload_len p) (drop (p_data p) mem) =
      take (unat len + (n - 1) * diff_row fmt (unat len)) data"
proof -
  let ?l = "unat len" and ?f = "fmt OR 0x80 :: byte"
  note pf = precomputed_format [OF fmt]
  have plan: "tdf_diff_plan (?f AND NOT 0x80) (?f AND 0x80 \<noteq> 0) ?l (unat num) data = (True, unat num)"
    unfolding pf(1) using pf(2) fmt num by (simp add: tdf_diff_plan_def)
  obtain hdr tsn delta where ts: "tdf_timestamp_plan (tbs_time st) time = (hdr, tsn, delta)"
    by (metis prod_cases3)
  obtain valid: "tdf_input_validate tdf_id ?l (unat num) period fmt
      (3 + (if time \<noteq> 0 then 6 else 0) + ?l) (u16 (nb_size (tbs_buf st) - nb_data (tbs_buf st))) = Inr ()"
    and mod0: "?l mod tdf_diff_divisor fmt = 0" and n: "1 \<le> n" "n \<le> unat num"
    by (rule net_buf_lib.add_core_run [OF lib call ok len plan ts, unfolded pf(1)]) simp
  have v: "tdf_id \<noteq> 0" "tdf_id < 4095" "0 < ?l" "unat period \<le> TDF_ARRAY_TIME_PERIOD_MAX"
    using valid fmt by (auto simp: tdf_input_validate_def is_diff_format_def not_le not_less split: if_splits)
  have dok: "tdf_data_ok fmt True True ?l (unat num) data" using data by (simp add: tdf_data_ok_def)
  have app: "nb_app (tbs_buf st) (tbs_buf st')
      (tdf_wire hdr (ucast delta) time tdf_id len n period False True fmt True data)"
    using net_buf_lib.add_core_wire(1) [OF lib call ok len plan _ ts] dok pf by simp
  then have view: "nb_view mem (tbs_buf rd)
      (tdf_wire hdr (ucast delta) time tdf_id len n period False True fmt True data @ rest)"
    using rd by (simp add: nb_app_def)
  have nb: "n < 256" "n \<le> 64" using n num(2) by simp_all
  have diff: "is_diff_format fmt \<and> n \<le> 64 \<and> ?l mod tdf_diff_divisor fmt = 0 \<and> \<not> False"
    using fmt nb mod0 by simp
  obtain rd' off where p: "tdf_parse api rd parsed = (Inr (), rd', tdf_seen (parsed\<lparr>p_time := time,
      p_tdf_id := tdf_id, p_tdf_len := len, p_data := off\<rparr>) fmt n period False True)"
    and rd': "nb_view mem (tbs_buf rd') rest"
    and off: "\<exists>post. drop off mem = tdf_payload_bytes fmt True True ?l n data @ post"
    by (rule net_buf_lib.parse_wire [OF lib view ts [folded time] small v(1,2) n(1) nb(1) v(3) diff v(4)
          tdf_data_ok_mono [OF dok n(2)]]) blast
  let ?p = "tdf_seen (parsed\<lparr>p_time := time, p_tdf_id := tdf_id, p_tdf_len := len, p_data := off\<rparr>) fmt n period False True"
  have cnt: "tdf_sample_count ?p = n" using fmt n nb by (intro seen_count) auto
  have "length (tdf_payload_bytes fmt True True ?l n data) = ?l + (n - 1) * diff_row fmt ?l"
    using length_tdf_payload_bytes [OF _ n(1) tdf_data_ok_mono [OF dok n(2)]] fmt by (simp add: tdf_data_size_def)
  moreover have "tdf_payload_bytes fmt True True ?l n data = take (?l + (n - 1) * diff_row fmt ?l) data"
    using n by (auto simp: tdf_payload_bytes_def)
  moreover have "tdf_payload_len ?p = ?l + (n - 1) * diff_row fmt ?l"
    using fmt n nb unat_of_nat_byte [of "n - 1"] by (auto simp: tdf_payload_len_def tdf_seen_def not_diff_format)
  ultimately have "take (tdf_payload_len ?p) (drop (p_data ?p) mem) = take (?l + (n - 1) * diff_row fmt ?l) data"
    using off by (auto simp: tdf_seen_def)
  then show ?thesis using p rd' cnt by (intro exI conjI) (auto simp: tdf_seen_def)
qed

abbreviation ex_buf :: "byte list \<Rightarrow> nat \<Rightarrow> nat \<Rightarrow> tdf_buffer_state" where
  "ex_buf mem n sz \<equiv> \<lparr>tbs_time = 0, tbs_buf = \<lparr>nb_buf = mem, nb_data = 0, nb_len = n, nb_size = sz\<rparr>\<rparr>"

lemma ex_precomputed:
  "tdf_add_core ref_net_buf (ex_buf (replicate 12 0) 0 12) 9 4 3 0 0 [1, 0, 0, 1, 255, 5]
     (TDF_DATA_FORMAT_DIFF_ARRAY_32_8 OR TDF_DATA_FORMAT_DIFF_PRECOMPUTED) =
   (Inr 3, ex_buf [9, 0x20, 4, 0x82, 0, 0, 1, 0, 0, 1, 255, 5] 12 12)"
proof -
  let ?d = "[1, 0, 0, 1, 255, 5] :: byte list"
  let ?s0 = "ex_buf (replicate 12 0) 0 12" and ?s1 = "ex_buf (9 # 0 # 4 # replicate 9 0) 3 12"
    and ?s2 = "ex_buf (9 # 0x20 # 4 # 3 # 0 # 0 # replicate 6 0) 6 12"
  have "net_buf_simple_tailroom ref_net_buf (tbs_buf ?s0) = 12"
    "tdf_input_validate 9 4 3 0 4 7 12 = Inr ()" "tdf_timestamp_plan 0 0 = (0, 0, 0)"
    "tdf_diff_plan 4 True 4 3 ?d = (True, 3)" "is_diff_format 4" "tdf_diff_size 4 = 1" "tdf_diff_divisor 4 = 4"
    "tdf_fit False True 4 1 3 6 = Some (3, 6)"
    "tdf_add_header ref_net_buf ?s0 0 9 4 0 0 = (0, ?s1)"
    "tdf_add_array_header ref_net_buf ?s1 0 3 0 False True = (Some 3, ?s2)"
    "tdf_add_payload ref_net_buf (tbs_buf ?s2) 4 True True (Some 3) 4 3 6 ?d =
      tbs_buf (ex_buf [9, 0x20, 4, 0x82, 0, 0, 1, 0, 0, 1, 255, 5] 12 12)"
    by code_simp+
  then show ?thesis by (simp add: tdf_add_core_def Let_def)
qed

theorem tdf_precomputed_roundtrip_witness:
  "\<exists>rd' p. tdf_parse ref_net_buf (ex_buf [9, 0x20, 4, 0x82, 0, 0, 1, 0, 0, 1, 255, 5] 12 12) ex_parsed = (Inr (), rd', p) \<and>
    tdf_sample_count p = 3 \<and>
    take (tdf_payload_len p) (drop (p_data p) [9, 0x20, 4, 0x82, 0, 0, 1, 0, 0, 1, 255, 5]) = [1, 0, 0, 1, 255, 5 :: byte]"
proof -
  let ?m = "[9, 0x20, 4, 0x82, 0, 0, 1, 0, 0, 1, 255, 5] :: byte list"
  have "diff_row TDF_DATA_FORMAT_DIFF_ARRAY_32_8 (unat (4 :: byte)) = 1" "is_diff_format TDF_DATA_FORMAT_DIFF_ARRAY_32_8"
    by code_simp+
  moreover have "nb_ok (tbs_buf (ex_buf (replicate 12 0) 0 12))"
    "nb_view ?m (tbs_buf (ex_buf ?m 12 12)) (drop (nb_len (tbs_buf (ex_buf (replicate 12 0) 0 12)))
       (nb_bytes (tbs_buf (ex_buf ?m 12 12))) @ [])"
    by (simp_all add: nb_ok_def nb_view_def nb_bytes_def)
  ultimately show ?thesis
    using tdf_precomputed_roundtrip [OF ref_nb.net_buf_lib_axioms _ _ _ _ _ _ _ ex_precomputed,
        of ?m "ex_buf ?m 12 12" "[]" ex_parsed] by auto
qed

subsection \<open>Where the encoder fails its contract\<close>

lemma tdf_fit_reclaims_two:
  assumes "1 < m" "m < 256" "is_diff \<Longrightarrow> 0 < d \<and> d \<le> 2"
  shows "\<exists>t. tdf_fit False is_diff 2 d m 1 = Some (2, t)"
proof -
  have "tdf_total_data is_diff 2 d m = tdf_data_size is_diff 2 d m"
    using assms by (intro tdf_total_data_eq) auto
  then have "1 < tdf_total_data is_diff 2 d m" using assms(1) by (simp add: tdf_data_size_def)
  then show ?thesis using assms(1) by (simp add: tdf_fit_def Let_def)
qed

text \<open>
  C38. Two-byte samples can overrun the buffer, and the condition under which they do is exactly the one
  the safety property leaves out. With more than one sample of two bytes to add, no index array and one
  byte of payload space left behind the headers, the code reclaims the three bytes of the array header,
  finds that two samples fit in the four bytes, and then, having two samples, adds the array header all
  the same: whatever the buffer library does, a validated call reports two samples as added although
  their encoding is longer than the tailroom.
\<close>

theorem tdf_add_core_overrun:
  fixes fmt :: byte
  defines "f \<equiv> fmt AND NOT 0x80" and "pre \<equiv> fmt AND 0x80 \<noteq> 0"
  assumes "net_buf_lib api" "nb_ok (tbs_buf st)" "tdf_reclaims_two st len num time data fmt"
    and "tdf_caller_data fmt len num data"
    and valid: "tdf_input_validate tdf_id 2 (unat num) idx_period f (5 + (if time \<noteq> 0 then 6 else 0))
      (u16 (nb_size (tbs_buf st) - nb_data (tbs_buf st))) = Inr ()"
    and dvd: "is_diff_format f \<longrightarrow> 2 mod tdf_diff_divisor f = 0"
    and plan: "tdf_diff_plan f pre 2 (unat num) data = (is_diff, m)"
    and ts: "tdf_timestamp_plan (tbs_time st) time = (hdr, tsn, delta)"
  shows "fst (tdf_add_core api st tdf_id len num time idx_period data fmt) = Inr 2 \<and>
    nb_room (tbs_buf st) < length (tdf_wire hdr (ucast delta) time tdf_id len 2 idx_period False is_diff f pre data)"
proof -
  have l: "unat len = 2" and m: "1 < m" and idx: "fmt \<noteq> TDF_DATA_FORMAT_IDX_ARRAY"
    and room: "nb_room (tbs_buf st) = 7 + tsn"
    using assms(5) plan ts by (simp_all add: tdf_reclaims_two_def f_def pre_def)
  have num: "1 \<le> unat num" using valid by (auto simp: tdf_input_validate_def split: if_splits)
  note pf = tdf_diff_plan_facts [OF plan num unat_byte_less]
  have d: "0 < diff_row f 2 \<and> diff_row f 2 \<le> 2" if is_diff
    using diff_row_bounds [of f 2] pf(3) that dvd by simp
  then have "is_diff \<Longrightarrow> 0 < u8 (diff_row f 2) \<and> u8 (diff_row f 2) \<le> 2" by simp
  moreover have "m < 256" using pf(2) by (rule le_less_trans) (rule unat_byte_less)
  ultimately obtain t where fit: "tdf_fit False is_diff 2 (u8 (diff_row f 2)) m 1 = Some (2, t)"
    using tdf_fit_reclaims_two [OF m] by blast
  have tail: "net_buf_simple_tailroom api (tbs_buf st) = 7 + tsn" "7 + tsn < 65536"
    using net_buf_lib.tailroom [OF assms(3,4)] nb_room_less [OF assms(4)] room by simp_all
  have "fst (tdf_add_core api st tdf_id len num time idx_period data fmt) = Inr 2"
    using valid plan ts tail fit dvd idx m l
    by (cases "time = 0") (simp_all add: tdf_add_core_def Let_def diff_row_def f_def pre_def split: prod.split)
  moreover have "tdf_data_ok f pre is_diff 2 2 data"
    using caller_data_plan [OF assms(6) plan [folded l, unfolded f_def pre_def] num] m l
    by (auto simp: f_def pre_def intro: tdf_data_ok_mono)
  then have "length (tdf_payload_bytes f pre is_diff 2 2 data) = tdf_data_size is_diff 2 (diff_row f 2) 2"
    using pf(3) by (intro length_tdf_payload_bytes) auto
  then have "2 < length (tdf_payload_bytes f pre is_diff 2 2 data)" using d by (auto simp: tdf_data_size_def)
  ultimately show ?thesis using room l length_tdf_ts_bytes [OF ts] by (simp add: tdf_wire_def)
qed

text \<open>On a buffer of 7 bytes two samples of two bytes take 10.\<close>

theorem tdf_add_core_overrun_witness:
  "nb_room (tbs_buf (ex_state 7)) = 7 \<and>
   fst (tdf_add_core ref_net_buf (ex_state 7) 9 2 2 0 0 [1, 2, 3, 4] TDF_DATA_FORMAT_TIME_ARRAY) = Inr 2 \<and>
   tdf_wire 0 0 0 9 2 2 0 False False 1 False [1, 2, 3, 4] = [9, 0x10, 2, 2, 0, 0, 1, 2, 3, 4]"
proof -
  let ?d = "[1, 2, 3, 4] :: byte list"
  have "tdf_reclaims_two (ex_state 7) 2 2 0 ?d 1" "tdf_caller_data 1 2 2 ?d"
    "tdf_input_validate 9 2 (unat (2 :: byte)) 0 (1 AND NOT 0x80) (5 + (if (0 :: word64) \<noteq> 0 then 6 else 0))
      (u16 (nb_size (tbs_buf (ex_state 7)) - nb_data (tbs_buf (ex_state 7)))) = Inr ()"
    "is_diff_format (1 AND NOT 0x80) \<longrightarrow> 2 mod tdf_diff_divisor (1 AND NOT 0x80) = 0"
    "tdf_diff_plan (1 AND NOT 0x80) ((1 :: byte) AND 0x80 \<noteq> 0) 2 (unat (2 :: byte)) ?d = (False, 2)"
    "tdf_timestamp_plan (tbs_time (ex_state 7)) 0 = (0, 0, 0)"
    by code_simp+
  note f = this
  have "nb_room (tbs_buf (ex_state 7)) = 7" "tdf_wire 0 0 0 9 2 2 0 False False 1 False ?d = [9, 0x10, 2, 2, 0, 0, 1, 2, 3, 4]"
    by code_simp+
  then show ?thesis
    using tdf_add_core_overrun [OF ref_nb.net_buf_lib_axioms ex_state_ok f] by simp
qed

lemma ex_one_diff:
  "tdf_add_core ref_net_buf (ex_buf (replicate 16 0) 0 11) 9 4 3 0 0 [1, 0, 0, 1, 0, 0, 0, 1, 5, 0, 0, 1]
     TDF_DATA_FORMAT_DIFF_ARRAY_32_8 =
   (Inr 2, ex_buf [9, 0x20, 4, 0x81, 0, 0, 1, 0, 0, 1, 255, 0, 0, 0, 0, 0] 11 11)"
proof -
  let ?d = "[1, 0, 0, 1, 0, 0, 0, 1, 5, 0, 0, 1] :: byte list"
  let ?s0 = "ex_buf (replicate 16 0) 0 11" and ?s1 = "ex_buf (9 # 0 # 4 # replicate 13 0) 3 11"
    and ?s2 = "ex_buf (9 # 0x20 # 4 # 2 # 0 # 0 # replicate 10 0) 6 11"
  have "net_buf_simple_tailroom ref_net_buf (tbs_buf ?s0) = 11"
    "tdf_input_validate 9 4 3 0 4 7 11 = Inr ()" "tdf_timestamp_plan 0 0 = (0, 0, 0)"
    "tdf_diff_plan 4 False 4 3 ?d = (True, 3)" "is_diff_format 4" "tdf_diff_size 4 = 1" "tdf_diff_divisor 4 = 4"
    "tdf_fit False True 4 1 3 5 = Some (2, 5)"
    "tdf_add_header ref_net_buf ?s0 0 9 4 0 0 = (0, ?s1)"
    "tdf_add_array_header ref_net_buf ?s1 0 2 0 False True = (Some 3, ?s2)"
    "tdf_add_payload ref_net_buf (tbs_buf ?s2) 4 False True (Some 3) 4 2 5 ?d =
      tbs_buf (ex_buf [9, 0x20, 4, 0x81, 0, 0, 1, 0, 0, 1, 255, 0, 0, 0, 0, 0] 11 11)"
    by code_simp+
  then show ?thesis by (simp add: tdf_add_core_def Let_def)
qed

lemma ex_relog:
  "tdf_add_core ref_net_buf (ex_buf (replicate 16 0) 0 16) 9 4 2 0 0 [1, 0, 0, 1, 255, 0, 0, 0, 0, 0] 0x84 =
   (Inr 2, ex_buf [9, 0x10, 4, 2, 0, 0, 1, 0, 0, 1, 255, 0, 0, 0, 0, 0] 14 16)"
proof -
  let ?d = "[1, 0, 0, 1, 255, 0, 0, 0, 0, 0] :: byte list"
  let ?s0 = "ex_buf (replicate 16 0) 0 16" and ?s1 = "ex_buf (9 # 0 # 4 # replicate 13 0) 3 16"
    and ?s2 = "ex_buf (9 # 0x10 # 4 # 2 # 0 # 0 # replicate 10 0) 6 16"
  have "net_buf_simple_tailroom ref_net_buf (tbs_buf ?s0) = 16"
    "tdf_input_validate 9 4 2 0 4 7 16 = Inr ()" "tdf_timestamp_plan 0 0 = (0, 0, 0)"
    "tdf_diff_plan 4 True 4 2 ?d = (False, 2)" "is_diff_format 4" "tdf_diff_size 4 = 1" "tdf_diff_divisor 4 = 4"
    "tdf_fit False False 4 1 2 10 = Some (2, 8)"
    "tdf_add_header ref_net_buf ?s0 0 9 4 0 0 = (0, ?s1)"
    "tdf_add_array_header ref_net_buf ?s1 0 2 0 False False = (Some 3, ?s2)"
    "tdf_add_payload ref_net_buf (tbs_buf ?s2) 4 True False (Some 3) 4 2 8 ?d =
      tbs_buf (ex_buf [9, 0x10, 4, 2, 0, 0, 1, 0, 0, 1, 255, 0, 0, 0, 0, 0] 14 16)"
    by code_simp+
  then show ?thesis by (simp add: tdf_add_core_def Let_def)
qed

lemma precomputed_two_raw:
  assumes "is_diff_format fmt" "unat len mod tdf_diff_divisor fmt = 0"
  shows "tdf_add_core api st tdf_id len 2 time period data (fmt OR TDF_DATA_FORMAT_DIFF_PRECOMPUTED) =
    tdf_add_core api st tdf_id len 2 time period data TDF_DATA_FORMAT_TIME_ARRAY"
proof -
  note pf = precomputed_format [OF assms(1)]
  have t1: "\<not> TDF_DATA_FORMAT_INVALID \<le> TDF_DATA_FORMAT_TIME_ARRAY" by code_simp
  have f: "\<not> TDF_DATA_FORMAT_INVALID \<le> fmt" "fmt \<noteq> TDF_DATA_FORMAT_IDX_ARRAY"
    using assms(1) by (auto simp: is_diff_format_def)
  have v: "tdf_input_validate tdf_id l k period fmt a b = tdf_input_validate tdf_id l k period TDF_DATA_FORMAT_TIME_ARRAY a b"
    for l k a b using f t1 by (simp add: tdf_input_validate_def)
  have plan: "tdf_diff_plan g p l 2 data = (False, 2)" for g p l by (simp add: tdf_diff_plan_def)
  have pay: "tdf_add_payload api buf fmt p False q l k t data = tdf_add_payload api buf 1 p' False q l k t data"
    for buf p p' q l k t by (simp add: tdf_add_payload_def)
  have t: "(TDF_DATA_FORMAT_TIME_ARRAY :: byte) AND NOT 0x80 = 1" "unat (2 :: byte) = 2" "u8 (l div tdf_diff_divisor 1 * tdf_diff_size 1) = 0" for l
    by (code_simp, code_simp, simp add: tdf_diff_size_def)
  have conds: "(is_diff_format fmt \<and> unat len mod tdf_diff_divisor fmt \<noteq> 0) = False"
    "(is_diff_format 1 \<and> unat len mod tdf_diff_divisor 1 \<noteq> 0) = False"
    "(fmt OR 0x80 = TDF_DATA_FORMAT_IDX_ARRAY) = False" "(TDF_DATA_FORMAT_TIME_ARRAY = TDF_DATA_FORMAT_IDX_ARRAY) = False"
    "((TDF_DATA_FORMAT_TIME_ARRAY :: byte) AND 0x80 \<noteq> 0) = False"
    using assms pf(3) by (simp_all add: is_diff_format_def)
  have fit: "tdf_fit i False l (u8 (l div tdf_diff_divisor fmt * tdf_diff_size fmt)) k sp = tdf_fit i False l 0 k sp"
    for i l k sp by (rule tdf_fit_no_diff)
  show ?thesis
    by (simp only: tdf_add_core_def Let_def pf(1) t v conds plan prod.case fit if_False pay [where p' = False])
qed

text \<open>
  C39. A difference array that holds a single difference does not survive being added again as
  precomputed, which is how \<open>tdf_block_size_update\<close> moves pending data. For every difference format, a
  call with the precomputed flag and two samples (a base and one row of differences) does what the same
  call in the plain time array format does: the difference bytes, and the bytes behind them, are stored
  as a raw second sample, and that is what a reader sees. Conditions: the length suits the format, the
  time is below 2 ^ 48, the bytes behind the differences are readable, and the call is not the miscounted
  reclaim of two-byte samples.
\<close>

theorem tdf_relog_one_diff:
  assumes "net_buf_lib api" "nb_ok (tbs_buf st)" "is_diff_format fmt" "unat len mod tdf_diff_divisor fmt = 0"
    and "unat len * 2 \<le> length data" "unat time < 2 ^ 48"
    and "\<not> tdf_reclaims_two st len 2 time data TDF_DATA_FORMAT_TIME_ARRAY"
    and "tdf_add_core api st tdf_id len 2 time period data (fmt OR TDF_DATA_FORMAT_DIFF_PRECOMPUTED) = (Inr n, st')"
    and "nb_view mem (tbs_buf rd) (drop (nb_len (tbs_buf st)) (nb_bytes (tbs_buf st')) @ rest)"
    and "tbs_time rd = tbs_time st"
  shows "tdf_add_core api st tdf_id len 2 time period data TDF_DATA_FORMAT_TIME_ARRAY = (Inr n, st') \<and>
    (\<exists>rd' p. tdf_parse api rd parsed = (Inr (), rd', p) \<and> nb_view mem (tbs_buf rd') rest \<and> tdf_sample_count p = n \<and>
      (\<forall>j < n. tdf_sample mem p j = Inr (take (unat len) (drop (j * unat len) data))))"
proof -
  let ?c = "\<lparr>c_id = tdf_id, c_len = len, c_num = 2, c_time = time, c_period = period, c_data = data,
    c_format = TDF_DATA_FORMAT_TIME_ARRAY\<rparr>"
  have call: "tdf_add_core api st tdf_id len 2 time period data TDF_DATA_FORMAT_TIME_ARRAY = (Inr n, st')"
    using assms(8) precomputed_two_raw [OF assms(3,4)] by simp
  then have "tdf_do api st ?c = (Inr n, st')" by (simp add: tdf_do_def)
  moreover have "tdf_call_ok st ?c" using assms(5-7) by (simp add: tdf_call_ok_def)
  ultimately obtain rd' p where "tdf_parse api rd parsed = (Inr (), rd', p)" "nb_view mem (tbs_buf rd') rest"
    "tdf_matches mem ?c n p"
    using net_buf_lib.add_then_parse [OF assms(1) _ assms(2) _ assms(9,10)] by blast
  then show ?thesis using call by (auto simp: tdf_matches_def)
qed

text \<open>
  The encoder itself produces such an array when only a base sample and one difference fit (its second
  sample is \<open>[0, 0, 0, 1]\<close>); added again, the second sample read back is \<open>[255, 0, 0, 0]\<close>.
\<close>

theorem tdf_relog_one_diff_witness:
  "\<exists>st1 rd1 p1 st2 rd2 p2.
     tdf_add_core ref_net_buf (ex_buf (replicate 16 0) 0 11) 9 4 3 0 0 [1, 0, 0, 1, 0, 0, 0, 1, 5, 0, 0, 1]
       TDF_DATA_FORMAT_DIFF_ARRAY_32_8 = (Inr 2, st1) \<and>
     tdf_parse ref_net_buf st1 ex_parsed = (Inr (), rd1, p1) \<and>
     tdf_sample (nb_buf (tbs_buf st1)) p1 1 = Inr [0, 0, 0, 1] \<and>
     tdf_add_core ref_net_buf (ex_buf (replicate 16 0) 0 16) (p_tdf_id p1) (p_tdf_len p1) (1 + p_num p1) (p_time p1)
       (p_period p1) (drop (p_data p1) (nb_buf (tbs_buf st1)))
       (p_data_type p1 OR TDF_DATA_FORMAT_DIFF_PRECOMPUTED) = (Inr 2, st2) \<and>
     tdf_parse ref_net_buf st2 ex_parsed = (Inr (), rd2, p2) \<and>
     tdf_sample (nb_buf (tbs_buf st2)) p2 1 = Inr [255, 0, 0, 0]"
proof -
  let ?m1 = "[9, 0x20, 4, 0x81, 0, 0, 1, 0, 0, 1, 255, 0, 0, 0, 0, 0] :: byte list"
  let ?m2 = "[9, 0x10, 4, 2, 0, 0, 1, 0, 0, 1, 255, 0, 0, 0, 0, 0] :: byte list"
  let ?p1 = "\<lparr>p_time = 0, p_tdf_id = 9, p_tdf_len = 4, p_data_type = 4, p_num = 1, p_period = 0, p_data = 6\<rparr>"
  let ?rd1 = "\<lparr>tbs_time = 0, tbs_buf = \<lparr>nb_buf = ?m1, nb_data = 11, nb_len = 0, nb_size = 11\<rparr>\<rparr>"
  have first: "tdf_parse ref_net_buf (ex_buf ?m1 11 11) ex_parsed = (Inr (), ?rd1, ?p1)"
    "tdf_sample ?m1 ?p1 1 = Inr [0, 0, 0, 1]" by code_simp+
  have relog: "tdf_add_core ref_net_buf (ex_buf (replicate 16 0) 0 16) 9 4 2 0 0 (drop 6 ?m1)
      (TDF_DATA_FORMAT_DIFF_ARRAY_32_8 OR TDF_DATA_FORMAT_DIFF_PRECOMPUTED) = (Inr 2, ex_buf ?m2 14 16)"
    using ex_relog by simp
  have "is_diff_format TDF_DATA_FORMAT_DIFF_ARRAY_32_8" "nb_ok (tbs_buf (ex_buf (replicate 16 0) 0 16))"
    "unat (4 :: byte) mod tdf_diff_divisor TDF_DATA_FORMAT_DIFF_ARRAY_32_8 = 0"
    "nb_view ?m2 (tbs_buf (ex_buf ?m2 14 16)) (drop (nb_len (tbs_buf (ex_buf (replicate 16 0) 0 16)))
       (nb_bytes (tbs_buf (ex_buf ?m2 14 16))) @ [])"
    by (simp_all add: is_diff_format_def tdf_diff_divisor_def nb_ok_def nb_view_def nb_bytes_def)
  note hyps = this
  have "unat (4 :: byte) * 2 \<le> length (drop 6 ?m1)" "unat (0 :: word64) < 2 ^ 48" "unat (4 :: byte) \<noteq> 2" by simp_all
  note hyps = hyps this(1,2) not_reclaims_two [OF this(3)]
  obtain rd2 p2 where p2: "tdf_parse ref_net_buf (ex_buf ?m2 14 16) ex_parsed = (Inr (), rd2, p2)"
    "\<forall>j < 2. tdf_sample ?m2 p2 j = Inr (take (unat (4 :: byte)) (drop (j * unat (4 :: byte)) (drop 6 ?m1)))"
    using tdf_relog_one_diff [OF ref_nb.net_buf_lib_axioms hyps(2,1,3,5-7) relog hyps(4), of ex_parsed] by fastforce
  then have "tdf_sample ?m2 p2 1 = Inr [255, 0, 0, 0]" by simp
  with p2(1) show ?thesis
    using first ex_one_diff ex_relog
    by (intro exI [of _ "ex_buf ?m1 11 11"] exI [of _ ?rd1] exI [of _ ?p1] exI [of _ "ex_buf ?m2 14 16"]
        exI [of _ rd2] exI [of _ p2]) simp
qed

end
