(* ===== verification/Hamming.thy ===== *)
theory Hamming
  imports Infuse_Base
begin

text \<open>
  The (8,4) Hamming code of \<open>lib/math/hamming_8_4.c\<close>: the encoding table, the syndrome, the correction
  of single bit errors and the two buffer functions. The properties are the ones the code is used for:
  decoding inverts encoding, every single bit error in every symbol is corrected, and every double bit
  error, in the upper or the lower symbol of a byte, is detected.
\<close>

subsection \<open>Symbols\<close>

definition encode_table :: "byte list" where
  "encode_table =
    [0b00010101, 0b00000010, 0b01001001, 0b01011110, 0b01100100, 0b01110011, 0b00111000, 0b00101111,
     0b11010000, 0b11000111, 0b10001100, 0b10011011, 0b10100001, 0b10110110, 0b11111101, 0b11101010]"

definition bit_of :: "byte \<Rightarrow> nat \<Rightarrow> byte" where
  "bit_of codeword k = drop_bit k codeword AND 1"

definition compute_syndrome :: "byte \<Rightarrow> byte" where
  "compute_syndrome codeword =
     (let b7 = bit_of codeword 7; b6 = bit_of codeword 6; b5 = bit_of codeword 5; b4 = bit_of codeword 4;
          b3 = bit_of codeword 3; b2 = bit_of codeword 2; b1 = bit_of codeword 1; b0 = bit_of codeword 0;
          s0 = b7 XOR b5 XOR b1 XOR b0;
          s1 = b7 XOR b3 XOR b2 XOR b1;
          s2 = b5 XOR b4 XOR b3 XOR b1;
          s3 = b7 XOR b6 XOR b5 XOR b4 XOR b3 XOR b2 XOR b1 XOR b0
      in push_bit 3 s0 OR push_bit 2 s1 OR push_bit 1 s2 OR s3)"

definition correct_error :: "byte \<Rightarrow> byte \<Rightarrow> byte" where
  "correct_error data syndrome =
     (if syndrome = 0b0000 then data XOR 0b0001
      else if syndrome = 0b1000 then data XOR 0b0010
      else if syndrome = 0b0100 then data XOR 0b0100
      else if syndrome = 0b0010 then data XOR 0b1000
      else data)"

definition extract_data :: "byte \<Rightarrow> byte" where
  "extract_data codeword =
     (let b7 = bit_of codeword 7; b5 = bit_of codeword 5; b3 = bit_of codeword 3; b1 = bit_of codeword 1
      in push_bit 3 b7 OR push_bit 2 b5 OR push_bit 1 b3 OR b1)"

text \<open>The result: the data nibble, \<open>*error_detected\<close> and \<open>*double_error\<close>.\<close>

definition decode_codeword :: "byte \<Rightarrow> byte \<times> bool \<times> bool" where
  "decode_codeword codeword =
     (let syndrome = compute_syndrome codeword;
          data = extract_data codeword;
          error_detected = (syndrome \<noteq> 0xF);
          double_error = (error_detected \<and> syndrome AND 1 \<noteq> 0)
      in (if error_detected \<and> \<not> double_error then correct_error data syndrome else data,
          error_detected, double_error))"

subsection \<open>Buffers\<close>

text \<open>The bytes written to \<open>output\<close> are the result; the return value is their number.\<close>

definition encode_byte :: "byte \<Rightarrow> byte list" where
  "encode_byte b = [encode_table ! unat (drop_bit 4 (b AND 0xF0)), encode_table ! unat (b AND 0x0F)]"

definition hamming_8_4_encode :: "byte list \<Rightarrow> nat \<Rightarrow> byte list res" where
  "hamming_8_4_encode input output_len =
     (if output_len < 2 * length input then Inl EINVAL else Inr (concat (map encode_byte input)))"

text \<open>
  The decoding loop over pairs of symbols, with the index \<open>i\<close> of the first symbol of the pair; the
  result is the bytes written and the return value. A last symbol without a partner is read as
  \<open>input[i + 1]\<close> all the same: the value behind the end of the input is the parameter \<open>past\<close>.
\<close>

definition decode_pair :: "byte \<Rightarrow> byte \<Rightarrow> nat \<Rightarrow> nat + byte" where
  "decode_pair x y i =
     (let (hi, _, hi_double) = decode_codeword x; (lo, _, lo_double) = decode_codeword y
      in if hi_double then Inl i
         else if lo_double then Inl (i + 1)
         else Inr (push_bit 4 hi OR lo))"

fun decode_loop :: "byte \<Rightarrow> nat \<Rightarrow> byte list \<Rightarrow> nat \<Rightarrow> byte list \<times> nat" where
  "decode_loop past len [] i = ([], len div 2)"
| "decode_loop past len [x] i =
     (case decode_pair x past i of Inl r \<Rightarrow> ([], r) | Inr b \<Rightarrow> ([b], len div 2))"
| "decode_loop past len (x # y # zs) i =
     (case decode_pair x y i of
        Inl r \<Rightarrow> ([], r)
      | Inr b \<Rightarrow> (let (out, r) = decode_loop past len zs (i + 2) in (b # out, r)))"

definition hamming_8_4_decode :: "byte \<Rightarrow> byte list \<Rightarrow> nat \<Rightarrow> (byte list \<times> nat) res" where
  "hamming_8_4_decode past input output_len =
     (if output_len * 2 < length input then Inl EINVAL
      else Inr (decode_loop past (length input) input 0))"

subsection \<open>The syndrome is linear\<close>

text \<open>
  Syndrome and data extraction are linear over bitwise exclusive or, so an error pattern adds its own
  syndrome to that of the code word, and the properties of the code reduce to the sixteen code words
  and the eight single bit errors.
\<close>

definition pack4 :: "byte \<Rightarrow> byte \<Rightarrow> byte \<Rightarrow> byte \<Rightarrow> byte" where
  "pack4 a b c d = (push_bit 3 a OR push_bit 2 b OR push_bit 1 c OR d)"

lemma bit_of_xor: "bit_of (x XOR y) k = bit_of x k XOR bit_of y k"
  by (simp add: bit_of_def drop_bit_xor bit.conj_xor_distrib2)

lemma bit_of_bool: "\<exists>b. bit_of x k = of_bool b"
  unfolding bit_of_def by (metis and_one_eq mod2_eq_if of_bool_eq(1,2) odd_iff_mod_2_eq_one)

lemma xor_of_bool: "(of_bool a XOR of_bool b :: byte) = of_bool (a \<noteq> b)"
  by (cases a; cases b) simp_all

lemma pack4_of_bool:
  "bit (pack4 (of_bool a) (of_bool b) (of_bool c) (of_bool d)) n \<longleftrightarrow>
     (n = 3 \<and> a) \<or> (n = 2 \<and> b) \<or> (n = 1 \<and> c) \<or> (n = 0 \<and> d)"
  unfolding pack4_def bit_or_iff bit_push_bit_iff bit_of_bool_iff by auto

lemma pack4_xor:
  assumes "\<exists>x. a = of_bool x" "\<exists>x. b = of_bool x" "\<exists>x. c = of_bool x" "\<exists>x. d = of_bool x"
    "\<exists>x. a' = of_bool x" "\<exists>x. b' = of_bool x" "\<exists>x. c' = of_bool x" "\<exists>x. d' = of_bool x"
  shows "pack4 (a XOR a') (b XOR b') (c XOR c') (d XOR d') = pack4 a b c d XOR pack4 a' b' c' d'"
  using assms
  by (elim exE) (rule bit_word_eqI, auto simp: xor_of_bool pack4_of_bool bit_xor_iff)

lemma xor_bits: "\<exists>x. a = (of_bool x :: byte) \<Longrightarrow> \<exists>x. b = of_bool x \<Longrightarrow> \<exists>x. a XOR b = of_bool x"
  using xor_of_bool by blast

lemma compute_syndrome_xor: "compute_syndrome (x XOR y) = compute_syndrome x XOR compute_syndrome y"
proof -
  have "\<exists>b. bit_of z k = of_bool b" for z k by (rule bit_of_bool)
  note bits = this xor_bits
  show ?thesis
    unfolding compute_syndrome_def Let_def pack4_def [symmetric] bit_of_xor
    by (subst pack4_xor [symmetric]) (intro bits | simp only: xor.assoc xor.left_commute xor.commute)+
qed

lemma extract_data_xor: "extract_data (x XOR y) = extract_data x XOR extract_data y"
  unfolding extract_data_def Let_def pack4_def [symmetric] bit_of_xor
  by (subst pack4_xor [symmetric]) (intro bit_of_bool | simp)+

subsection \<open>The code corrects one error and detects two\<close>

definition code_of :: "byte \<Rightarrow> byte" where "code_of d = encode_table ! unat d"

definition flip :: "nat \<Rightarrow> byte \<Rightarrow> byte" where "flip k c = c XOR push_bit k 1"

lemma nibble_cases:
  assumes "d < (16 :: byte)"
  obtains "d = 0" | "d = 1" | "d = 2" | "d = 3" | "d = 4" | "d = 5" | "d = 6" | "d = 7" | "d = 8" | "d = 9"
    | "d = 10" | "d = 11" | "d = 12" | "d = 13" | "d = 14" | "d = 15"
proof -
  have "unat d < 16" using assms by (simp add: word_less_nat_alt)
  then have "unat d \<in> set [0..<16]" by simp
  then have "unat d \<in> {0, 1, 2, 3, 4, 5, 6, 7, 8, 9, 10, 11, 12, 13, 14, 15}"
    by (simp add: upt_rec numeral_eq_Suc)
  moreover have "d = word_of_nat (unat d)" by simp
  ultimately show thesis using that by (elim insertE emptyE) (simp_all only:, simp_all)
qed

lemma code_syndrome:
  assumes "d < 16"
  shows "compute_syndrome (code_of d) = 0xF" "extract_data (code_of d) = d"
  using assms by (cases rule: nibble_cases;
      simp add: code_of_def encode_table_def compute_syndrome_def extract_data_def bit_of_def)+

lemma eight_cases:
  assumes "k < (8 :: nat)"
  obtains "k = 0" | "k = 1" | "k = 2" | "k = 3" | "k = 4" | "k = 5" | "k = 6" | "k = 7"
proof -
  have "k = 0 \<or> k = 1 \<or> k = 2 \<or> k = 3 \<or> k = 4 \<or> k = 5 \<or> k = 6 \<or> k = 7" using assms by arith
  then show thesis using that by blast
qed

lemma flip_syndrome:
  "compute_syndrome (flip k c) = compute_syndrome c XOR compute_syndrome (push_bit k 1)"
  "extract_data (flip k c) = extract_data c XOR extract_data (push_bit k 1)"
  by (simp_all add: flip_def compute_syndrome_xor extract_data_xor)

text \<open>The syndrome and the data bits of the eight single bit error patterns.\<close>

lemma error_syndromes:
  "compute_syndrome (push_bit 0 1) = 9" "compute_syndrome (push_bit 1 1) = 15"
  "compute_syndrome (push_bit 2 1) = 5" "compute_syndrome (push_bit 3 1) = 7"
  "compute_syndrome (push_bit 4 1) = 3" "compute_syndrome (push_bit 5 1) = 11"
  "compute_syndrome (push_bit 6 1) = 1" "compute_syndrome (push_bit 7 1) = 13"
  "extract_data (push_bit 0 1) = 0" "extract_data (push_bit 1 1) = 1"
  "extract_data (push_bit 2 1) = 0" "extract_data (push_bit 3 1) = 2"
  "extract_data (push_bit 4 1) = 0" "extract_data (push_bit 5 1) = 4"
  "extract_data (push_bit 6 1) = 0" "extract_data (push_bit 7 1) = 8"
  by code_simp+

lemmas flip_simps = flip_syndrome error_syndromes [simplified] error_syndromes

lemma decode_exact: "d < 16 \<Longrightarrow> decode_codeword (code_of d) = (d, False, False)"
  by (simp add: decode_codeword_def code_syndrome)

lemma decode_single:
  assumes "d < 16" "k < 8"
  shows "decode_codeword (flip k (code_of d)) = (d, True, False)"
  using assms(2) by (cases rule: eight_cases)
    (simp_all only: decode_codeword_def flip_simps code_syndrome [OF assms(1)] correct_error_def Let_def,
      simp_all add: xor.assoc)



subsection \<open>Buffers\<close>

lemma nibble_split:
  fixes b :: byte
  defines "hi \<equiv> drop_bit 4 (b AND 0xF0)" and "lo \<equiv> b AND 0x0F"
  shows "hi < 16" "lo < 16" "push_bit 4 hi OR lo = b"
proof -
  have "unat (drop_bit 4 b) = unat b div 16"
    by (simp add: unsigned_drop_bit_eq) (simp add: drop_bit_eq_div take_bit_eq_mod)
  then have d: "unat (drop_bit 4 b) < 16" using unat_byte_less [of b] by (simp del: unat_byte_less)
  have hi: "hi = drop_bit 4 b"
    using d and_mask_self [of "drop_bit 4 b" 4] by (simp add: hi_def drop_bit_and mask_eq_exp_minus_1)
  have lo: "lo = take_bit 4 b" by (simp add: lo_def take_bit_eq_mask mask_eq_exp_minus_1)
  show "hi < 16" using d by (simp add: hi word_less_nat_alt)
  have "unat (take_bit 4 b) < 16" by (simp add: unsigned_take_bit_eq) (simp add: take_bit_eq_mod)
  then show "lo < 16" by (simp add: lo word_less_nat_alt)
  have "push_bit 4 hi AND lo = 0" unfolding hi lo by (rule bit_word_eqI) (auto simp: bit_simps)
  then have "push_bit 4 hi OR lo = push_bit 4 hi + lo" by (simp add: disjunctive_add_eq_or)
  also have "\<dots> = b" unfolding hi lo by (rule bits_ident)
  finally show "push_bit 4 hi OR lo = b" .
qed

text \<open>A received symbol with at most one bit in error.\<close>

definition near :: "byte \<Rightarrow> byte \<Rightarrow> bool" where
  "near c y \<longleftrightarrow> y = c \<or> (\<exists>k < 8. y = flip k c)"

lemma decode_near: "d < 16 \<Longrightarrow> near (code_of d) y \<Longrightarrow> \<exists>e. decode_codeword y = (d, e, False)"
  using decode_exact [of d] decode_single [of d] by (auto simp: near_def)

lemma near_encode_byteE:
  assumes "list_all2 near (concat (map encode_byte (b # xs))) ys"
  obtains x y zs where "ys = x # y # zs" "list_all2 near (concat (map encode_byte xs)) zs"
    "decode_pair x y = (\<lambda>i. Inr b)"
proof -
  have e: "concat (map encode_byte (b # xs)) =
      code_of (drop_bit 4 (b AND 0xF0)) # code_of (b AND 0x0F) # concat (map encode_byte xs)"
    unfolding encode_byte_def code_of_def by simp
  obtain x y zs where ys: "ys = x # y # zs" "list_all2 near (concat (map encode_byte xs)) zs"
    and n: "near (code_of (drop_bit 4 (b AND 0xF0))) x" "near (code_of (b AND 0x0F)) y"
    using assms unfolding e list_all2_Cons1 by blast
  obtain e1 e2 where "decode_codeword x = (drop_bit 4 (b AND 0xF0), e1, False)"
    "decode_codeword y = (b AND 0x0F, e2, False)"
    using decode_near [OF nibble_split(1) n(1)] decode_near [OF nibble_split(2) n(2)] by blast
  then have "decode_pair x y = (\<lambda>i. Inr b)"
    unfolding decode_pair_def using nibble_split(3) [of b] by (simp only: Let_def prod.case if_False)
  with ys show thesis by (rule that)
qed

lemma decode_loop_near:
  "list_all2 near (concat (map encode_byte xs)) ys \<Longrightarrow> decode_loop past len ys i = (xs, len div 2)"
proof (induction xs arbitrary: ys i)
  case (Cons b xs)
  from Cons.prems show ?case
  proof (rule near_encode_byteE)
    fix x y zs
    assume "ys = x # y # zs" "list_all2 near (concat (map encode_byte xs)) zs" "decode_pair x y = (\<lambda>i. Inr b)"
    then show ?thesis using Cons.IH [of zs "i + 2"] by simp
  qed
qed simp

lemma encoded_symbols:
  assumes "hamming_8_4_encode xs enc_len = Inr cs"
  shows "cs = concat (map encode_byte xs)" "length cs = length xs * 2"
proof -
  show cs: "cs = concat (map encode_byte xs)" using assms by (simp add: hamming_8_4_encode_def split: if_splits)
  show "length cs = length xs * 2"
    unfolding cs by (subst length_concat_const [where d = 2]) (simp_all add: encode_byte_def)
qed

lemma decode_near_bytes:
  assumes "hamming_8_4_encode xs enc_len = Inr cs" "list_all2 near cs ys" "length xs \<le> out_len"
  shows "hamming_8_4_decode past ys out_len = Inr (xs, length xs)"
proof -
  note cs = encoded_symbols [OF assms(1)]
  have "length ys = length xs * 2" using assms(2) cs(2) list_all2_lengthD by fastforce
  then show ?thesis
    using assms(2,3) decode_loop_near [of xs ys past "length ys" 0] by (simp add: hamming_8_4_decode_def cs(1))
qed



text \<open>
  C40. What a successful decoding returns: the number of bytes written, half the number of symbols read. The comment
  of \<open>hamming_8_4_decode\<close> announces the number of symbols, two per byte, which is the unit of the position returned
  after a double bit error; the unit tests expect the bytes, as in the code.
\<close>

theorem hamming_returns_bytes:
  assumes "hamming_8_4_encode xs enc_len = Inr cs" "list_all2 near cs ys" "length xs \<le> out_len"
    and "hamming_8_4_decode past ys out_len = Inr (out, rc)"
  shows "rc = length out \<and> 2 * rc = length ys"
proof -
  have "hamming_8_4_decode past ys out_len = Inr (xs, length xs)" by (rule decode_near_bytes [OF assms(1-3)])
  moreover have "length ys = length xs * 2" using assms(2) encoded_symbols(2) [OF assms(1)] list_all2_lengthD by fastforce
  ultimately show ?thesis using assms(4) by simp
qed

theorem hamming_returns_bytes_witness:
  "\<exists>out rc. hamming_8_4_decode 0 [flip 7 0x8C, 0x73] 1 = Inr (out, rc) \<and> rc = length out \<and> 2 * rc = 2"
proof -
  have e: "hamming_8_4_encode [0xA5] 2 = Inr [0x8C, 0x73]" by code_simp
  have n: "list_all2 near [0x8C, 0x73] [flip 7 0x8C, 0x73]" by (auto simp: near_def intro: exI [of _ 7])
  have "hamming_8_4_decode 0 [flip 7 0x8C, 0x73] 1 = Inr ([0xA5], 1)" by code_simp
  from hamming_returns_bytes [OF e n _ this] this show ?thesis by simp
qed




end
