(* ===== verification/Bitmask.thy ===== *)
theory Bitmask
  imports Infuse_Base
begin

text \<open>
  32 bit masks as the firmware walks over them: the compiler built-ins \<open>__builtin_popcount\<close> and
  \<open>__builtin_ffs\<close>, \<open>BIT\<close>, and the list of the set bits of a mask, which the loops of the form
  \<open>while (mask) { first = __builtin_ffs(mask) - 1; ...; mask ^= BIT(first); }\<close> visit in turn.
\<close>

definition bits_of :: "word32 \<Rightarrow> nat list" where
  "bits_of w = filter (bit w) [0..<32]"

definition popcount :: "word32 \<Rightarrow> nat" where
  "popcount w = length (bits_of w)"

text \<open>\<open>__builtin_ffs\<close>: one plus the index of the least significant set bit, or zero.\<close>

definition ffs :: "word32 \<Rightarrow> nat" where
  "ffs w = (case bits_of w of [] \<Rightarrow> 0 | k # _ \<Rightarrow> k + 1)"

definition BIT :: "nat \<Rightarrow> word32" where
  "BIT k = push_bit k 1"

lemma bit_BIT [simp]: "k < 32 \<Longrightarrow> bit (BIT k) n \<longleftrightarrow> n = k"
  by (auto simp: BIT_def bit_simps)

lemma set_bits_of [simp]: "set (bits_of w) = {k. k < 32 \<and> bit w k}"
  by (auto simp: bits_of_def)

lemma distinct_bits_of [simp]: "distinct (bits_of w)"
  by (simp add: bits_of_def)

lemma bit_word32_less: "bit (w :: word32) n \<Longrightarrow> n < 32"
  using bit_imp_le_length [of w n] by simp

lemma word32_eqI: "(\<And>n. n < 32 \<Longrightarrow> bit (v :: word32) n = bit w n) \<Longrightarrow> v = w"
  by (rule bit_word_eqI) simp

lemma bits_of_Nil [simp]: "bits_of w = [] \<longleftrightarrow> w = 0"
proof
  assume "bits_of w = []"
  then have "set (bits_of w) = {}" by simp
  then show "w = 0" by (intro word32_eqI) auto
qed (simp add: bits_of_def)

lemma bits_of_0 [simp]: "bits_of 0 = []" by simp

lemma bits_of_step:
  assumes "w \<noteq> 0"
  shows "bits_of w = (ffs w - 1) # bits_of (w XOR BIT (ffs w - 1))"
proof -
  obtain k ks where ks: "bits_of w = k # ks" using assms by (cases "bits_of w") auto
  then have "k \<in> set (bits_of w)" by simp
  then have k: "k < 32" "bit w k" by simp_all
  have "k \<notin> set ks" using distinct_bits_of [of w] ks by simp
  have "bits_of (w XOR BIT k) = filter (\<lambda>n. n \<noteq> k) (bits_of w)"
    unfolding bits_of_def filter_filter by (rule filter_cong) (use k in \<open>auto simp: bit_xor_iff\<close>)
  also have "\<dots> = ks" using \<open>k \<notin> set ks\<close> unfolding ks by (induction ks) auto
  finally show ?thesis by (simp add: ks ffs_def)
qed

lemma popcount_step: "w \<noteq> 0 \<Longrightarrow> popcount (w XOR BIT (ffs w - 1)) < popcount w"
proof -
  assume "w \<noteq> 0"
  from bits_of_step [OF this] have "length (bits_of w) = Suc (length (bits_of (w XOR BIT (ffs w - 1))))"
    by (metis length_Cons)
  then show ?thesis by (simp add: popcount_def)
qed

lemma ffs_bit:
  assumes "w \<noteq> 0"
  shows "ffs w - 1 < 32" "bit w (ffs w - 1)" "ffs w \<noteq> 0"
proof -
  have "ffs w - 1 \<in> set (bits_of w)" by (subst bits_of_step [OF assms]) simp
  then show "ffs w - 1 < 32" "bit w (ffs w - 1)" by simp_all
  show "ffs w \<noteq> 0" using assms by (auto simp: ffs_def split: list.splits)
qed

lemma bits_below:
  assumes "\<And>k. bit w k \<Longrightarrow> k < n" "n \<le> 32"
  shows "popcount w \<le> n" "popcount w \<noteq> n \<Longrightarrow> ffs (NOT w) - 1 < n \<and> \<not> bit w (ffs (NOT w) - 1)"
proof -
  have sub: "set (bits_of w) \<subseteq> {0..<n}" using assms(1) by auto
  have card: "popcount w = card (set (bits_of w))" by (simp add: popcount_def distinct_card del: set_bits_of)
  then show "popcount w \<le> n" using card_mono [OF _ sub] by simp
  assume "popcount w \<noteq> n"
  have "\<exists>k < n. \<not> bit w k"
  proof (rule ccontr)
    assume "\<not> (\<exists>k < n. \<not> bit w k)"
    then have "{0..<n} \<subseteq> set (bits_of w)" using assms(2) by auto
    then have "set (bits_of w) = {0..<n}" using sub by blast
    then have "popcount w = n" using card by simp
    with \<open>popcount w \<noteq> n\<close> show False ..
  qed
  then obtain k where k: "k < n" "\<not> bit w k" by blast
  then have "k \<in> set (bits_of (NOT w))" using assms(2) by (simp add: bit_not_iff)
  moreover obtain j js where js: "bits_of (NOT w) = j # js" using calculation by (cases "bits_of (NOT w)") auto
  moreover have "sorted (bits_of (NOT w))" unfolding bits_of_def by (rule sorted_wrt_filter) simp
  ultimately have "j \<le> k" by auto
  moreover have "j \<in> set (bits_of (NOT w))" using js by simp
  then have "\<not> bit w j" by (simp add: bit_not_iff)
  ultimately show "ffs (NOT w) - 1 < n \<and> \<not> bit w (ffs (NOT w) - 1)" using k by (simp add: ffs_def js)
qed

end
