(* ===== verification/Math_Common.thy ===== *)
theory Math_Common
  imports Bitmask "HOL-Library.Signed_Division" "HOL-Library.Multiset"
begin

text \<open>
  The integer arithmetic of \<open>lib/math/common.c\<close>: the bit-by-bit square roots at their three widths, the
  vector magnitudes and dot products, the selection of the next bits of a mask and the linear
  interpolation. The floating point \<open>math_inverse_sqrt32\<close> is not modelled.
\<close>

subsection \<open>Square roots\<close>

text \<open>
  The three square roots are one loop at different widths: \<open>'r\<close> is the width of \<open>rem\<close> and \<open>root\<close>, \<open>'x\<close>
  that of the argument, and the first argument is the loop counter \<open>i\<close>.
\<close>

fun sqrt_loop :: "nat \<Rightarrow> 'r :: len word \<Rightarrow> 'r word \<Rightarrow> 'x :: len word \<Rightarrow> 'r word" where
  "sqrt_loop 0 rem root x = root"
| "sqrt_loop (Suc i) rem root x =
     (let root = push_bit 1 root;
          rem = push_bit 2 rem OR ucast (drop_bit (LENGTH('x) - 2) x);
          x = push_bit 2 x
      in if root < rem then sqrt_loop i (rem - (root OR 1)) (root + 2) x
         else sqrt_loop i rem root x)"

definition math_sqrt16 :: "word16 \<Rightarrow> byte" where
  "math_sqrt16 x = ucast (drop_bit 1 (sqrt_loop (16 div 2) (0 :: word16) 0 x))"

definition math_sqrt32 :: "word32 \<Rightarrow> word16" where
  "math_sqrt32 x = ucast (drop_bit 1 (sqrt_loop (32 div 2) (0 :: word32) 0 x))"

definition math_sqrt64 :: "word64 \<Rightarrow> word32" where
  "math_sqrt64 x = drop_bit 1 (sqrt_loop (64 div 2) (0 :: word32) 0 x)"

subsection \<open>Vectors\<close>

text \<open>\<open>(int32_t)x * (int32_t)x\<close> of an \<open>int16_t\<close>, converted to \<open>uint32_t\<close>.\<close>

definition square16 :: "word16 \<Rightarrow> word32" where
  "square16 x = scast x * scast x"

definition math_vector_xy_sq_magnitude :: "word16 \<Rightarrow> word16 \<Rightarrow> word32" where
  "math_vector_xy_sq_magnitude x y = (let x2 = square16 x; y2 = square16 y in x2 + y2)"

definition math_vector_xy_magnitude :: "word16 \<Rightarrow> word16 \<Rightarrow> word16" where
  "math_vector_xy_magnitude x y = math_sqrt32 (math_vector_xy_sq_magnitude x y)"

definition math_vector_xyz_sq_magnitude :: "word16 \<Rightarrow> word16 \<Rightarrow> word16 \<Rightarrow> word32" where
  "math_vector_xyz_sq_magnitude x y z =
     (let x2 = square16 x; y2 = square16 y; z2 = square16 z in x2 + y2 + z2)"

definition math_vector_xyz_magnitude :: "word16 \<Rightarrow> word16 \<Rightarrow> word16 \<Rightarrow> word16" where
  "math_vector_xyz_magnitude x y z = math_sqrt32 (math_vector_xyz_sq_magnitude x y z)"

text \<open>
  \<open>int32_t\<close> arithmetic, on which signed overflow is undefined: \<open>int32\<close> is \<open>None\<close> on a result that does not
  fit.
\<close>

definition int32 :: "int \<Rightarrow> int option" where
  "int32 v = (if - (2 ^ 31) \<le> v \<and> v < 2 ^ 31 then Some v else None)"

text \<open>
  The products are \<open>int\<close> products of promoted \<open>int16_t\<close> values, which cannot overflow, sign extended to
  \<open>int64_t\<close>; in the fast variant products and sums stay in 32 bits, and each is checked.
\<close>

definition mul16 :: "word16 \<Rightarrow> word16 \<Rightarrow> word32" where
  "mul16 a b = scast a * scast b"

definition math_vector_xyz_dot_product ::
  "word16 \<Rightarrow> word16 \<Rightarrow> word16 \<Rightarrow> word16 \<Rightarrow> word16 \<Rightarrow> word16 \<Rightarrow> word64" where
  "math_vector_xyz_dot_product ax ay az bx by' bz =
     (let dx = scast (mul16 ax bx); dy = scast (mul16 ay by'); dz = scast (mul16 az bz)
      in dx + dy + dz)"

definition math_vector_xyz_dot_product_fast ::
  "word16 \<Rightarrow> word16 \<Rightarrow> word16 \<Rightarrow> word16 \<Rightarrow> word16 \<Rightarrow> word16 \<Rightarrow> int option" where
  "math_vector_xyz_dot_product_fast ax ay az bx by' bz =
     Option.bind (int32 (sint ax * sint bx)) (\<lambda>dx.
     Option.bind (int32 (sint ay * sint by')) (\<lambda>dy.
     Option.bind (int32 (sint az * sint bz)) (\<lambda>dz.
     Option.bind (int32 (dx + dy)) (\<lambda>s. int32 (s + dz)))))"

subsection \<open>Bit masks and interpolation\<close>

text \<open>
  The loop need not end by itself (it would run forever on an empty mask), so it is a partial function
  and returning is part of what is proved. The result is \<open>out\<close> and \<open>*next_idx\<close>.
\<close>

partial_function (option) next_bits_loop ::
  "word32 \<Rightarrow> word32 \<Rightarrow> nat \<Rightarrow> nat \<Rightarrow> (word32 \<times> nat) option" where
  [code]: "next_bits_loop bitmask out idx num_bits =
     (if num_bits = 0 then Some (out, idx)
      else
        (let test = push_bit idx 1 in
         if test AND bitmask \<noteq> 0
         then next_bits_loop bitmask (out OR test) ((idx + 1) mod 32) (num_bits - 1)
         else next_bits_loop bitmask out ((idx + 1) mod 32) num_bits))"

definition math_bitmask_get_next_bits :: "word32 \<Rightarrow> nat \<Rightarrow> nat \<Rightarrow> (word32 \<times> nat) option" where
  "math_bitmask_get_next_bits bitmask start_idx num_bits =
     (let num_bits = min num_bits (popcount bitmask) in next_bits_loop bitmask 0 start_idx num_bits)"

text \<open>
  The interpolation is \<open>int32_t\<close> arithmetic, each intermediate result checked by \<open>int32\<close>. With \<open>CONFIG_ASSERT\<close> the assertion stops the program when the two points
  coincide.
\<close>

definition math_2d_linear_interpolate_fast :: "bool \<Rightarrow> int \<Rightarrow> int \<Rightarrow> int \<Rightarrow> int \<Rightarrow> int \<Rightarrow> int option" where
  "math_2d_linear_interpolate_fast config_assert x0 x1 y0 y1 x =
     (if x1 = x0 then (if config_assert then None else Some y0)
      else
        Option.bind (int32 (y1 - y0)) (\<lambda>dy.
        Option.bind (int32 (x - x0)) (\<lambda>dx.
        Option.bind (int32 (dy * dx)) (\<lambda>prod.
        Option.bind (int32 (x1 - x0)) (\<lambda>w.
        Option.bind (int32 (prod sdiv w)) (\<lambda>q.
        int32 (y0 + q)))))))"

subsection \<open>The square root loop computes the integer square root\<close>

definition is_isqrt :: "nat \<Rightarrow> nat \<Rightarrow> bool" where
  "is_isqrt r y \<longleftrightarrow> r\<^sup>2 \<le> y \<and> y < (r + 1)\<^sup>2"

lemma is_isqrt_step:
  assumes "is_isqrt r y" "d < 4"
  shows "is_isqrt (if 4 * r < 4 * (y - r\<^sup>2) + d then 2 * r + 1 else 2 * r) (4 * y + d)"
proof -
  have y: "r\<^sup>2 \<le> y" "y \<le> r\<^sup>2 + 2 * r" using assms(1) by (auto simp: is_isqrt_def power2_eq_square algebra_simps)
  then obtain e where e: "y = r\<^sup>2 + e" "e \<le> 2 * r" using le_Suc_ex [OF y(1)] by auto
  show ?thesis unfolding e(1) using e(2) assms(2)
    by (auto simp: is_isqrt_def power2_eq_square algebra_simps)
qed

lemma is_isqrt_unique: "is_isqrt r y \<Longrightarrow> is_isqrt s y \<Longrightarrow> r = s"
proof (rule ccontr)
  assume a: "is_isqrt r y" "is_isqrt s y" "r \<noteq> s"
  then have "r + 1 \<le> s \<or> s + 1 \<le> r" by linarith
  then have "(r + 1)\<^sup>2 \<le> s\<^sup>2 \<or> (s + 1)\<^sup>2 \<le> r\<^sup>2" using power_mono by blast
  with a(1,2) show False unfolding is_isqrt_def by linarith
qed

text \<open>
  The word operations of one iteration, on values for which they do not wrap.
\<close>

lemma unat_push_bit_less:
  "unat w * 2 ^ k < 2 ^ LENGTH('a) \<Longrightarrow> unat (push_bit k (w :: 'a :: len word)) = unat w * 2 ^ k"
  by (simp only: unsigned_push_bit_eq) (simp add: push_bit_eq_mult take_bit_eq_mod)

lemma unat_push_bit_mod:
  "unat (push_bit k (w :: 'a :: len word)) = (unat w * 2 ^ k) mod 2 ^ LENGTH('a)"
  by (simp only: unsigned_push_bit_eq) (simp add: push_bit_eq_mult take_bit_eq_mod)

lemma unat_or_low:
  fixes u v :: "'a :: len word"
  assumes "4 * unat u + 3 < 2 ^ LENGTH('a)" "unat v < 4"
  shows "unat (push_bit 2 u OR v) = 4 * unat u + unat v"
proof -
  have "v = take_bit 2 v"
    using assms(2) and_mask_self [of v 2] by (simp add: take_bit_eq_mask)
  moreover have "push_bit 2 u AND take_bit 2 v = 0" by (rule bit_word_eqI) (auto simp: bit_simps)
  ultimately have "push_bit 2 u OR v = push_bit 2 u + v" by (simp add: disjunctive_add_eq_or)
  moreover have u: "unat (push_bit 2 u) = 4 * unat u"
    using assms(1) by (subst unat_push_bit_less) simp_all
  ultimately show ?thesis using assms by (simp add: unat_add_lem [THEN iffD1])
qed

lemma unat_or_one: "even (unat w) \<Longrightarrow> unat (w OR 1 :: 'a :: len word) = unat w + 1"
proof -
  assume e: "even (unat w)"
  have "unat (w OR 1) = unat w OR 1" by (simp add: unsigned_or_eq del: One_nat_def)
  also have "\<dots> = unat w + 1" using e by (simp add: or_one_eq del: One_nat_def)
  finally show ?thesis .
qed

text \<open>
  The state of the loop with \<open>i\<close> iterations left of \<open>n\<close>, for the argument \<open>X\<close>: the digits of \<open>X\<close> to base
  four read so far are \<open>y\<close>, \<open>root\<close> is twice the square root of \<open>y\<close>, \<open>rem\<close> the remainder, and \<open>x\<close> holds
  the digits still to be read.
\<close>

definition sqrt_inv :: "nat \<Rightarrow> nat \<Rightarrow> nat \<Rightarrow> nat \<Rightarrow> 'r :: len word \<Rightarrow> 'r word \<Rightarrow> 'x :: len word \<Rightarrow> bool" where
  "sqrt_inv n X i r rem root x \<longleftrightarrow>
     i \<le> n \<and> is_isqrt r (X div 4 ^ i) \<and> unat root = 2 * r \<and> unat rem = X div 4 ^ i - r\<^sup>2 \<and>
     unat x = X mod 4 ^ i * 4 ^ (n - i)"

lemma digit_step:
  fixes X :: nat
  shows "X div 4 ^ i = 4 * (X div 4 ^ Suc i) + X mod 4 ^ Suc i div 4 ^ i"
    and "X mod 4 ^ Suc i div 4 ^ i < 4"
    and "X mod 4 ^ Suc i = X mod 4 ^ Suc i div 4 ^ i * 4 ^ i + X mod 4 ^ i"
proof -
  have m: "X mod 4 ^ Suc i div 4 ^ i = X div 4 ^ i mod 4"
    by (simp add: power_Suc2 mod_mult2_eq del: power_Suc)
  show "X div 4 ^ i = 4 * (X div 4 ^ Suc i) + X mod 4 ^ Suc i div 4 ^ i"
    unfolding m by (simp add: div_mult2_eq mult.commute [of 4] power_Suc2 del: power_Suc)
  show "X mod 4 ^ Suc i div 4 ^ i < 4" unfolding m by simp
  show "X mod 4 ^ Suc i = X mod 4 ^ Suc i div 4 ^ i * 4 ^ i + X mod 4 ^ i"
    by (metis div_mult_mod_eq mod_mod_cancel dvd_triv_right power_Suc)
qed

lemma is_isqrt_less:
  assumes "is_isqrt r y" "y < 4 ^ k"
  shows "r < 2 ^ k"
proof -
  have "r\<^sup>2 < (2 ^ k)\<^sup>2" using assms unfolding is_isqrt_def by (simp add: power2_eq_square power_mult_distrib [symmetric])
  then show ?thesis by (rule power2_less_imp_less) simp
qed

lemma read_digit:
  fixes x :: "'x :: len word"
  assumes x: "unat x = X mod 4 ^ Suc i * 4 ^ (n - Suc i)" and i: "Suc i \<le> n" and len: "LENGTH('x) = 2 * n"
  shows "unat (drop_bit (LENGTH('x) - 2) x) = X mod 4 ^ Suc i div 4 ^ i"
    and "unat (push_bit 2 x) = X mod 4 ^ i * 4 ^ (n - i)"
proof -
  define d where "d = X mod 4 ^ Suc i div 4 ^ i"
  obtain m where n: "n = Suc i + m" using le_Suc_ex [OF i] by blast
  have p: "(4 :: nat) ^ i * 4 ^ m = 2 ^ (LENGTH('x) - 2)" "(2 :: nat) ^ LENGTH('x) = 4 * 4 ^ i * 4 ^ m"
    unfolding len n by (simp_all add: power_add power_mult)
  have xv: "unat x = d * (4 ^ i * 4 ^ m) + X mod 4 ^ i * 4 ^ m"
    by (subst x, subst digit_step(3)) (simp add: n d_def algebra_simps del: power_Suc)
  have lt: "X mod 4 ^ i * 4 ^ m < 4 ^ i * 4 ^ m" by simp
  have "unat x div (4 ^ i * 4 ^ m) = d" unfolding xv using lt by (simp add: div_add1_eq)
  moreover have "unat (drop_bit k x) = unat x div 2 ^ k" for k
    by (simp only: unsigned_drop_bit_eq) (simp add: drop_bit_eq_div take_bit_eq_mod)
  ultimately show "unat (drop_bit (LENGTH('x) - 2) x) = X mod 4 ^ Suc i div 4 ^ i"
    by (simp only: d_def p)
  have "unat (push_bit 2 x) = (4 * d * (4 ^ i * 4 ^ m) + X mod 4 ^ i * (4 * 4 ^ m)) mod (4 * 4 ^ i * 4 ^ m)"
    unfolding unat_push_bit_mod xv p by (simp add: algebra_simps)
  also have "\<dots> = X mod 4 ^ i * (4 * 4 ^ m) mod (4 * 4 ^ i * 4 ^ m)"
    by (metis (no_types, lifting) mod_mult_self3 mult.assoc mult.left_commute)
  also have "\<dots> = X mod 4 ^ i * (4 * 4 ^ m)" using lt by (intro mod_less) simp
  finally show "unat (push_bit 2 x) = X mod 4 ^ i * 4 ^ (n - i)" by (simp add: n)
qed

lemma sqrt_step:
  fixes rem root :: "'r :: len word" and x :: "'x :: len word"
  assumes inv: "sqrt_inv n X (Suc i) r rem root x"
    and len: "LENGTH('x) = 2 * n" and small: "8 * r + 8 \<le> 2 ^ LENGTH('r)"
  defines "root' \<equiv> push_bit 1 root"
    and "rem' \<equiv> push_bit 2 rem OR ucast (drop_bit (LENGTH('x) - 2) x)"
  shows "if root' < rem' then sqrt_inv n X i (2 * r + 1) (rem' - (root' OR 1)) (root' + 2) (push_bit 2 x)
         else sqrt_inv n X i (2 * r) rem' root' (push_bit 2 x)"
proof -
  define y d where "y = X div 4 ^ Suc i" and "d = X mod 4 ^ Suc i div 4 ^ i"
  have sq: "is_isqrt r y" and root: "unat root = 2 * r" and rem: "unat rem = y - r\<^sup>2"
    and x: "unat x = X mod 4 ^ Suc i * 4 ^ (n - Suc i)" and i: "Suc i \<le> n"
    using inv by (auto simp: sqrt_inv_def y_def simp del: power_Suc)
  have y': "X div 4 ^ i = 4 * y + d" and d: "d < 4" unfolding y_def d_def by (fact digit_step)+
  have remle: "y - r\<^sup>2 \<le> 2 * r" and ry: "r\<^sup>2 \<le> y"
    using sq by (auto simp: is_isqrt_def power2_eq_square algebra_simps)
  note xd = read_digit [OF x i len, folded d_def]
  have "d < 2 ^ LENGTH('r)" using d small by linarith
  then have dig: "unat (ucast (drop_bit (LENGTH('x) - 2) x) :: 'r word) = d"
    using xd(1) by (simp only: unsigned_ucast_eq) (simp add: take_bit_eq_mod)
  have rem': "unat rem' = 4 * (y - r\<^sup>2) + d"
    unfolding rem'_def using dig d rem remle small by (subst unat_or_low) linarith+
  have root': "unat root' = 4 * r" unfolding root'_def using root small by (subst unat_push_bit_less) simp_all
  have next': "is_isqrt (if 4 * r < 4 * (y - r\<^sup>2) + d then 2 * r + 1 else 2 * r) (4 * y + d)"
    by (rule is_isqrt_step [OF sq d])
  show ?thesis
  proof (cases "root' < rem'")
    case True
    then have lt': "4 * r < 4 * (y - r\<^sup>2) + d" by (simp add: word_less_nat_alt root' rem')
    have or1: "unat (root' OR 1) = 4 * r + 1" using root' by (simp add: unat_or_one)
    have "unat (rem' - (root' OR 1)) = 4 * (y - r\<^sup>2) + d - (4 * r + 1)"
      using lt' by (simp add: unat_sub word_le_nat_alt or1 rem')
    also have "\<dots> = 4 * y + d - (2 * r + 1)\<^sup>2" using ry by (simp add: power2_eq_square algebra_simps)
    finally have "unat (rem' - (root' OR 1)) = X div 4 ^ i - (2 * r + 1)\<^sup>2" by (simp add: y')
    moreover have "unat (root' + 2) = 2 * (2 * r + 1)"
    proof -
      have "(8 :: nat) \<le> 2 ^ LENGTH('r)" using small by linarith
      then have "unat (2 :: 'r word) = 2" by (simp only: unsigned_numeral take_bit_eq_mod of_nat_id) (rule mod_less, linarith)
      then show ?thesis using small root' by (subst unat_add_lem [THEN iffD1]) simp_all
    qed
    ultimately show ?thesis using True lt' next' i xd by (simp add: sqrt_inv_def y')
  next
    case False
    then have le: "\<not> 4 * r < 4 * (y - r\<^sup>2) + d" by (simp add: word_less_nat_alt root' rem')
    then show ?thesis using False next' i xd ry
      by (simp add: sqrt_inv_def y' root' rem' power2_eq_square algebra_simps)
  qed
qed

lemma sqrt_loop_correct:
  fixes rem root :: "'r :: len word" and x :: "'x :: len word"
  assumes "sqrt_inv n X i r rem root x" "LENGTH('x) = 2 * n" "X < 4 ^ (LENGTH('r) - 2)" "3 \<le> LENGTH('r)"
  shows "is_isqrt (unat (drop_bit 1 (sqrt_loop i rem root x))) X"
  using assms(1)
proof (induction i arbitrary: r rem root x)
  case 0
  then have "is_isqrt r X" "unat root = 2 * r" by (auto simp: sqrt_inv_def)
  moreover have "unat (drop_bit 1 root) = unat root div 2"
    by (simp only: unsigned_drop_bit_eq) (simp add: drop_bit_eq_div take_bit_eq_mod)
  ultimately show ?case by simp
next
  case (Suc i)
  obtain l where l: "LENGTH('r) = l + 3" using le_Suc_ex [OF assms(4)] by (auto simp: add.commute)
  have "X div 4 ^ Suc i \<le> X div 4" by (simp add: div_mult2_eq)
  also have "\<dots> < 4 ^ l" using assms(3) l by (simp add: less_mult_imp_div_less)
  finally have "r < 2 ^ l" using Suc.prems is_isqrt_less by (auto simp: sqrt_inv_def)
  then have "8 * r + 8 \<le> 2 ^ LENGTH('r)" using l by (simp add: power_add)
  from sqrt_step [OF Suc.prems assms(2) this] show ?case
    using Suc.IH by (simp add: Let_def split: if_splits)
qed

lemma sqrt_loop_start:
  fixes x :: "'x :: len word"
  assumes "LENGTH('x) = 2 * n" "unat x < 4 ^ (LENGTH('r) - 2)" "3 \<le> LENGTH('r :: len)"
  shows "is_isqrt (unat (drop_bit 1 (sqrt_loop n (0 :: 'r word) 0 x))) (unat x)"
proof (rule sqrt_loop_correct [OF _ assms])
  have "unat x < 4 ^ n" using unsigned_less [of x] by (simp add: assms(1) power_mult)
  then show "sqrt_inv n (unat x) n 0 (0 :: 'r word) 0 x" by (simp add: sqrt_inv_def is_isqrt_def)
qed

lemma unat_ucast_half:
  assumes "unat (w :: 'a :: len word) < 2 ^ LENGTH('b :: len)"
  shows "unat (ucast w :: 'b word) = unat w"
  using assms by (simp only: unsigned_ucast_eq) (simp add: take_bit_eq_mod)

lemma math_sqrt16_correct: "is_isqrt (unat (math_sqrt16 x)) (unat x)"
proof -
  have b: "unat x < 4 ^ 8" using unsigned_less [of x] by simp
  have s: "is_isqrt (unat (drop_bit 1 (sqrt_loop 8 (0 :: word16) 0 x))) (unat x)"
    by (rule sqrt_loop_start) (simp, rule less_le_trans [OF b], simp_all)
  from b show ?thesis using s is_isqrt_less [OF s, of 8] unfolding math_sqrt16_def
    by (subst unat_ucast_half) simp_all
qed

lemma math_sqrt32_correct: "is_isqrt (unat (math_sqrt32 x)) (unat x)"
proof -
  have b: "unat x < 4 ^ 16" using unsigned_less [of x] by simp
  have s: "is_isqrt (unat (drop_bit 1 (sqrt_loop 16 (0 :: word32) 0 x))) (unat x)"
    by (rule sqrt_loop_start) (simp, rule less_le_trans [OF b], simp_all)
  from b show ?thesis using s is_isqrt_less [OF s, of 16] unfolding math_sqrt32_def
    by (subst unat_ucast_half) simp_all
qed

lemma math_sqrt64_correct: "unat x < 2 ^ 60 \<Longrightarrow> is_isqrt (unat (math_sqrt64 x)) (unat x)"
  using sqrt_loop_start [where x = x and n = 32 and 'r = 32] by (simp add: math_sqrt64_def)

text \<open>
  At 64 bits the remainder and the root are kept in 32 bits, which is too narrow: \<open>root << 1\<close> overflows
  for arguments from \<open>2 ^ 62\<close> on, and \<open>rem << 2\<close> already earlier.
\<close>

lemma sqrt_loop_shift: "sqrt_loop i 0 root (0 :: 'x :: len word) = push_bit i root"
  by (induction i arbitrary: root) simp_all

lemma math_sqrt64_overflow: "math_sqrt64 0x4000000000000000 = 0"
proof -
  have "sqrt_loop (Suc 31) (0 :: word32) 0 (0x4000000000000000 :: word64) = push_bit 31 2"
    (is "sqrt_loop _ _ _ ?x = _")
  proof -
    have "push_bit 2 ?x = 0" by code_simp
    then show ?thesis by (simp only: sqrt_loop.simps Let_def) (simp add: sqrt_loop_shift)
  qed
  then show ?thesis by (simp add: math_sqrt64_def)
qed

text \<open>
  C28. The square roots are exact: for every argument \<open>math_sqrt16\<close> and \<open>math_sqrt32\<close> return the largest
  integer whose square does not exceed it, and \<open>math_sqrt64\<close> does so for arguments below \<open>2 ^ 60\<close>.
\<close>

theorem math_sqrt_exact:
  "(let r = unat (math_sqrt16 a) in r\<^sup>2 \<le> unat a \<and> unat a < (r + 1)\<^sup>2) \<and>
   (let r = unat (math_sqrt32 b) in r\<^sup>2 \<le> unat b \<and> unat b < (r + 1)\<^sup>2) \<and>
   (unat c < 2 ^ 60 \<longrightarrow> (let r = unat (math_sqrt64 c) in r\<^sup>2 \<le> unat c \<and> unat c < (r + 1)\<^sup>2))"
  using math_sqrt16_correct [of a] math_sqrt32_correct [of b] math_sqrt64_correct [of c]
  unfolding is_isqrt_def Let_def by blast

theorem math_sqrt_exact_witness:
  "unat (10 ^ 12 + 1 :: word64) < 2 ^ 60 \<and> unat (math_sqrt64 (10 ^ 12 + 1)) = 10 ^ 6"
proof -
  have u: "unat (10 ^ 12 + 1 :: word64) = 10 ^ 12 + 1" by code_simp
  then have "is_isqrt (unat (math_sqrt64 (10 ^ 12 + 1))) (10 ^ 12 + 1)"
    using math_sqrt_exact [of 0 0 "10 ^ 12 + 1"] unfolding is_isqrt_def Let_def by simp
  moreover have "is_isqrt (10 ^ 6) (10 ^ 12 + 1)" by (simp add: is_isqrt_def)
  ultimately show ?thesis using u is_isqrt_unique by simp
qed

subsection \<open>Vectors do not overflow\<close>

lemma sint16_bounds: "- 32768 \<le> sint (a :: word16)" "sint (a :: word16) \<le> 32767"
  using sint_greater_eq [of a] sint_less [of a] by simp_all

lemma sq16_bound: "0 \<le> (sint (a :: word16))\<^sup>2" "(sint (a :: word16))\<^sup>2 \<le> 1073741824"
proof -
  have "\<bar>sint a\<bar> \<le> 32768" using sint16_bounds [of a] by linarith
  then have "(sint a)\<^sup>2 \<le> 32768\<^sup>2" using abs_le_square_iff [of "sint a" 32768] by simp
  then show "(sint a)\<^sup>2 \<le> 1073741824" by simp
qed simp

lemma prod16_bound: "\<bar>sint (a :: word16) * sint (b :: word16)\<bar> \<le> 1073741824"
proof -
  have "\<bar>sint a\<bar> \<le> 32768" "\<bar>sint b\<bar> \<le> 32768" using sint16_bounds [of a] sint16_bounds [of b] by linarith+
  then have "\<bar>sint a\<bar> * \<bar>sint b\<bar> \<le> 32768 * 32768" by (rule mult_mono) simp_all
  then show ?thesis by (simp add: abs_mult)
qed

lemma scast_of_sint: "scast w = word_of_int (sint w)" by simp

lemma square16_int: "square16 a = word_of_int ((sint a)\<^sup>2)"
  unfolding square16_def scast_of_sint by (simp only: wi_hom_mult power2_eq_square)

lemma mul16_int: "mul16 a b = word_of_int (sint a * sint b)"
  unfolding mul16_def scast_of_sint by (simp only: wi_hom_mult)

lemma sint_of_int_id:
  "- (2 ^ (LENGTH('a) - 1)) \<le> v \<Longrightarrow> v < 2 ^ (LENGTH('a) - 1) \<Longrightarrow> sint (word_of_int v :: 'a :: len word) = v"
  by (simp only: sint_sbintrunc') (simp add: signed_take_bit_int_eq_self)

lemma int_unat_of_int:
  "0 \<le> v \<Longrightarrow> v < 4294967296 \<Longrightarrow> int (unat (word_of_int v :: word32)) = v"
  by (simp add: unsigned_of_int take_bit_int_eq_self)

lemma xy_sq_exact: "int (unat (math_vector_xy_sq_magnitude x y)) = (sint x)\<^sup>2 + (sint y)\<^sup>2"
  unfolding math_vector_xy_sq_magnitude_def Let_def square16_int wi_hom_add
  using sq16_bound [of x] sq16_bound [of y] by (intro int_unat_of_int) linarith+

lemma xyz_sq_exact:
  "int (unat (math_vector_xyz_sq_magnitude x y z)) = (sint x)\<^sup>2 + (sint y)\<^sup>2 + (sint z)\<^sup>2"
  unfolding math_vector_xyz_sq_magnitude_def Let_def square16_int wi_hom_add
  using sq16_bound [of x] sq16_bound [of y] sq16_bound [of z] by (intro int_unat_of_int) linarith+

lemma sint_mul16: "sint (mul16 a b) = sint a * sint b"
  unfolding mul16_int using prod16_bound [of a b] by (subst sint_of_int_id) (simp_all add: abs_le_iff)

lemma dot_product_int:
  "math_vector_xyz_dot_product ax ay az bx by' bz =
     word_of_int (sint ax * sint bx + sint ay * sint by' + sint az * sint bz)"
  unfolding math_vector_xyz_dot_product_def Let_def scast_of_sint sint_mul16 wi_hom_add ..

lemma dot_product_exact:
  "sint (math_vector_xyz_dot_product ax ay az bx by' bz) =
     sint ax * sint bx + sint ay * sint by' + sint az * sint bz"
proof -
  have b: "- (2 ^ 63) \<le> u + v + w \<and> u + v + w < 2 ^ 63"
    if "\<bar>u\<bar> \<le> 1073741824" "\<bar>v\<bar> \<le> 1073741824" "\<bar>w\<bar> \<le> 1073741824" for u v w :: int using that by (simp add: abs_le_iff)
  show ?thesis unfolding dot_product_int
    using b [OF prod16_bound prod16_bound prod16_bound] by (subst sint_of_int_id) simp_all
qed

lemma int32_mul16: "int32 (sint (a :: word16) * sint (b :: word16)) = Some (sint a * sint b)"
  using prod16_bound [of a b] by (simp add: int32_def abs_le_iff)

text \<open>
  C31. The vector functions are exact for every input: both squared magnitudes equal the mathematical sum
  of squares without overflow, the magnitudes are its integer square root, and the 64 bit dot product
  equals the mathematical one. The fast variant equals it exactly when the sum of the first two products
  and the whole sum fit an \<open>int32_t\<close>; otherwise a signed overflow occurs.
\<close>

theorem vector_exact:
  fixes x y z bx by' bz :: word16
  defines "xy \<equiv> sint x * sint bx + sint y * sint by'"
  shows "int (unat (math_vector_xy_sq_magnitude x y)) = (sint x)\<^sup>2 + (sint y)\<^sup>2 \<and>
    int (unat (math_vector_xyz_sq_magnitude x y z)) = (sint x)\<^sup>2 + (sint y)\<^sup>2 + (sint z)\<^sup>2 \<and>
    is_isqrt (unat (math_vector_xy_magnitude x y)) (nat ((sint x)\<^sup>2 + (sint y)\<^sup>2)) \<and>
    is_isqrt (unat (math_vector_xyz_magnitude x y z)) (nat ((sint x)\<^sup>2 + (sint y)\<^sup>2 + (sint z)\<^sup>2)) \<and>
    sint (math_vector_xyz_dot_product x y z bx by' bz) = xy + sint z * sint bz \<and>
    math_vector_xyz_dot_product_fast x y z bx by' bz =
      (if xy \<in> {- (2 ^ 31) ..< 2 ^ 31} \<and> xy + sint z * sint bz \<in> {- (2 ^ 31) ..< 2 ^ 31}
       then Some (xy + sint z * sint bz) else None)"
proof (intro conjI)
  show "is_isqrt (unat (math_vector_xy_magnitude x y)) (nat ((sint x)\<^sup>2 + (sint y)\<^sup>2))"
    unfolding math_vector_xy_magnitude_def xy_sq_exact [symmetric] nat_int by (rule math_sqrt32_correct)
  show "is_isqrt (unat (math_vector_xyz_magnitude x y z)) (nat ((sint x)\<^sup>2 + (sint y)\<^sup>2 + (sint z)\<^sup>2))"
    unfolding math_vector_xyz_magnitude_def xyz_sq_exact [symmetric] nat_int by (rule math_sqrt32_correct)
  show "math_vector_xyz_dot_product_fast x y z bx by' bz =
      (if xy \<in> {- (2 ^ 31) ..< 2 ^ 31} \<and> xy + sint z * sint bz \<in> {- (2 ^ 31) ..< 2 ^ 31}
       then Some (xy + sint z * sint bz) else None)"
    unfolding math_vector_xyz_dot_product_fast_def int32_mul16 Option.bind.bind_lunit xy_def
    by (simp add: int32_def)
qed (simp_all only: xy_def xy_sq_exact xyz_sq_exact dot_product_exact)

theorem vector_exact_witness:
  "math_vector_xyz_dot_product_fast 100 (- 200) 300 7 7 (- 7) = Some (- 2800) \<and>
   math_vector_xyz_dot_product_fast (- 32768) (- 32768) (- 32768) (- 32768) (- 32768) 1 = None"
  using vector_exact [of 100 "- 200" 300 7 7 "- 7"]
    vector_exact [of "- 32768" "- 32768" "- 32768" "- 32768" "- 32768" 1] by simp

subsection \<open>The next bits of a mask\<close>

text \<open>
  The reference: the indices of the set bits, in the order in which they are met when walking cyclically
  from \<open>start\<close>, and the mask of a list of indices.
\<close>

definition cyclic_bits :: "word32 \<Rightarrow> nat \<Rightarrow> nat list" where
  "cyclic_bits w start = filter (bit w) (rotate start [0..<32])"

fun mask_of :: "nat list \<Rightarrow> word32" where
  "mask_of [] = 0"
| "mask_of (k # ks) = push_bit k 1 OR mask_of ks"

definition walk :: "nat \<Rightarrow> nat \<Rightarrow> nat list" where
  "walk idx m = map (\<lambda>j. (idx + j) mod 32) [0..<m]"

lemma walk_Suc: "idx < 32 \<Longrightarrow> walk idx (Suc m) = idx # walk ((idx + 1) mod 32) m"
  unfolding walk_def by (simp add: upt_conv_Cons map_Suc_upt [symmetric] mod_simps del: upt_Suc)

lemma rotate_walk: "idx < 32 \<Longrightarrow> rotate idx [0..<32] = walk idx 32"
  by (rule nth_equalityI) (simp_all add: walk_def nth_rotate)

lemma test_bit_and: "k < 32 \<Longrightarrow> (push_bit k 1 AND w \<noteq> 0) = bit (w :: word32) k"
  by (auto simp: bit_eq_iff [where ?'a = word32] bit_simps)

lemma next_bits_step:
  assumes "idx < 32"
  shows "bit w idx \<Longrightarrow> next_bits_loop w out idx (Suc n) =
      next_bits_loop w (out OR push_bit idx 1) ((idx + 1) mod 32) n"
    and "\<not> bit w idx \<Longrightarrow> next_bits_loop w out idx (Suc n) = next_bits_loop w out ((idx + 1) mod 32) (Suc n)"
  using test_bit_and [OF assms, of w] by (subst next_bits_loop.simps, simp add: Let_def)+

lemma mask_of_bit: "\<forall>k\<in>set ks. k < 32 \<Longrightarrow> bit (mask_of ks) n \<longleftrightarrow> n \<in> set ks"
  by (induction ks) (auto simp: bit_simps)

lemma next_bits_walk:
  assumes "n \<le> length (filter (bit w) (walk idx m))" "idx < 32"
  shows "next_bits_loop w out idx n =
    (let ks = take n (filter (bit w) (walk idx m))
     in Some (out OR mask_of ks, if n = 0 then idx else (last ks + 1) mod 32))"
  using assms
proof (induction m arbitrary: n out idx)
  case 0
  then show ?case by (simp add: walk_def next_bits_loop.simps)
next
  case (Suc m)
  have idx: "(idx + 1) mod 32 < 32" by simp
  show ?case
  proof (cases n)
    case 0
    then show ?thesis by (simp add: next_bits_loop.simps)
  next
    case n: (Suc n')
    note step = next_bits_step [OF Suc.prems(2)] walk_Suc [OF Suc.prems(2)] next_bits_loop.simps [of _ _ _ 0]
    show ?thesis
    proof (cases "bit w idx")
      case True
      then have "n' \<le> length (filter (bit w) (walk ((idx + 1) mod 32) m))"
        using Suc.prems n by (simp add: walk_Suc)
      from Suc.IH [OF this idx] show ?thesis using True n Suc.prems
        by (cases n') (auto simp: step Let_def or.assoc simp del: upt_Suc)
    next
      case False
      then have "n \<le> length (filter (bit w) (walk ((idx + 1) mod 32) m))"
        using Suc.prems by (simp add: walk_Suc)
      from Suc.IH [OF this idx] show ?thesis using False by (simp add: n step Let_def)
    qed
  qed
qed

lemma length_cyclic_bits: "length (cyclic_bits w start) = popcount w"
proof -
  have "mset (rotate start [0..<32]) = mset [0..<32]"
    by (simp only: rotate_drop_take mset_append) (metis add.commute append_take_drop_id mset_append)
  then have "size (filter_mset (bit w) (mset (rotate start [0..<32]))) = size (filter_mset (bit w) (mset [0..<32]))"
    by (simp only:)
  then show ?thesis unfolding cyclic_bits_def popcount_def bits_of_def by (metis mset_filter size_mset)
qed

text \<open>
  C27. \<open>math_bitmask_get_next_bits\<close> returns for every mask and count, and what it returns is the mask of
  the first \<open>num_bits\<close> set bits (all of them, if there are fewer) met when walking cyclically from
  \<open>start_idx\<close>; the next index is the one after the last bit returned, so that repeated calls visit the set
  bits in turn.
\<close>

theorem next_bits_cyclic:
  assumes "start < 32"
  shows "math_bitmask_get_next_bits w start num =
    (let ks = take num (cyclic_bits w start)
     in Some (mask_of ks, if ks = [] then start else (last ks + 1) mod 32))"
proof -
  define n where "n = min num (popcount w)"
  have t: "take num (cyclic_bits w start) = take n (cyclic_bits w start)"
    unfolding n_def length_cyclic_bits [of w start, symmetric] by (simp add: min_def)
  have "n \<le> length (filter (bit w) (walk start 32))"
    using length_cyclic_bits [of w start] by (simp add: n_def cyclic_bits_def rotate_walk assms)
  from next_bits_walk [OF this assms, of 0] show ?thesis
    unfolding math_bitmask_get_next_bits_def t n_def [symmetric]
    unfolding cyclic_bits_def rotate_walk [OF assms]
    using \<open>n \<le> length _\<close> by (auto simp: Let_def)
qed

theorem next_bits_cyclic_witness:
  "(30 :: nat) < 32 \<and> math_bitmask_get_next_bits 0x80000013 30 2 = Some (0x80000001, 1)"
proof -
  have "take 2 (cyclic_bits 0x80000013 30) = [31, 0]" by code_simp
  then show ?thesis using next_bits_cyclic [of 30 "0x80000013" 2] by (simp add: Let_def)
qed

subsection \<open>Interpolation\<close>

lemma sdiv_between:
  fixes d :: int
  assumes "0 < w" "0 \<le> k" "k \<le> w"
  shows "0 \<le> d \<Longrightarrow> 0 \<le> (d * k) sdiv w \<and> (d * k) sdiv w \<le> d"
    and "d \<le> 0 \<Longrightarrow> d \<le> (d * k) sdiv w \<and> (d * k) sdiv w \<le> 0"
proof -
  have le: "e * k div w \<le> e \<and> 0 \<le> e * k div w" if "0 \<le> e" for e
  proof -
    have "e * k div w \<le> e * w div w" using assms that by (intro zdiv_mono1 mult_left_mono) auto
    then show ?thesis using assms that by (simp add: pos_imp_zdiv_nonneg_iff)
  qed
  { assume "0 \<le> d"
    then have "(d * k) sdiv w = d * k div w" using assms by (simp add: signed_divide_int_def sgn_if)
    then show "0 \<le> (d * k) sdiv w \<and> (d * k) sdiv w \<le> d" using le [OF \<open>0 \<le> d\<close>] by simp }
  { assume d: "d \<le> 0"
    then have "(d * k) sdiv w = - (- d * k div w)"
      using assms by (auto simp: signed_divide_int_def sgn_if abs_mult zero_less_mult_iff mult_less_0_iff)
    then show "d \<le> (d * k) sdiv w \<and> (d * k) sdiv w \<le> 0" using le [of "- d"] d by simp }
qed

lemma sdiv_neg: "(a :: int) sdiv (- w) = (- a) sdiv w"
  by (simp add: signed_divide_int_def sgn_if)

lemma abs_sdiv_le: "\<bar>a sdiv w\<bar> \<le> \<bar>a :: int\<bar>"
proof -
  have "\<bar>a\<bar> div \<bar>w\<bar> \<le> \<bar>a\<bar>" using zdiv_mono2 [of "\<bar>a\<bar>" 1 "\<bar>w\<bar>"] by (cases "w = 0") simp_all
  moreover have "0 \<le> \<bar>a\<bar> div \<bar>w\<bar>" by (cases "w = 0") (simp_all add: pos_imp_zdiv_nonneg_iff)
  ultimately show ?thesis by (auto simp: signed_divide_int_def abs_mult sgn_if)
qed

lemma interpolate_no_overflow:
  assumes "\<bar>y1 - y0\<bar> \<le> A" "\<bar>x - x0\<bar> \<le> B" "\<bar>x1 - x0\<bar> < 2147483648" "A * B + \<bar>y0\<bar> < 2147483648"
    "A < 2147483648" "B < 2147483648" "x0 \<noteq> x1"
  shows "math_2d_linear_interpolate_fast ca x0 x1 y0 y1 x = Some (y0 + ((y1 - y0) * (x - x0)) sdiv (x1 - x0))"
proof -
  have "\<bar>y1 - y0\<bar> * \<bar>x - x0\<bar> \<le> A * B" using assms(1,2) by (intro mult_mono) linarith+
  then have p: "\<bar>(y1 - y0) * (x - x0)\<bar> \<le> A * B" by (simp add: abs_mult)
  have q: "\<bar>((y1 - y0) * (x - x0)) sdiv (x1 - x0)\<bar> \<le> A * B"
    using abs_sdiv_le [of "(y1 - y0) * (x - x0)" "x1 - x0"] p by linarith
  have fit: "int32 v = Some v" if "\<bar>v\<bar> < 2147483648" for v using that by (simp add: int32_def abs_less_iff)
  have "int32 (y1 - y0) = Some (y1 - y0)" "int32 (x - x0) = Some (x - x0)" "int32 (x1 - x0) = Some (x1 - x0)"
    "int32 ((y1 - y0) * (x - x0)) = Some ((y1 - y0) * (x - x0))"
    "int32 (((y1 - y0) * (x - x0)) sdiv (x1 - x0)) = Some (((y1 - y0) * (x - x0)) sdiv (x1 - x0))"
    "int32 (y0 + ((y1 - y0) * (x - x0)) sdiv (x1 - x0)) = Some (y0 + ((y1 - y0) * (x - x0)) sdiv (x1 - x0))"
    using assms p q by (intro fit; linarith)+
  then show ?thesis using assms(7) by (simp add: math_2d_linear_interpolate_fast_def)
qed

text \<open>The interpolated value lies between the two ends, in whichever order the points are given.\<close>

lemma interpolated_between:
  fixes x0 x1 y0 y1 x :: int
  assumes "x0 \<noteq> x1" "min x0 x1 \<le> x" "x \<le> max x0 x1"
  defines "r \<equiv> y0 + ((y1 - y0) * (x - x0)) sdiv (x1 - x0)"
  shows "min y0 y1 \<le> r" "r \<le> max y0 y1" "x = x0 \<Longrightarrow> r = y0" "x = x1 \<Longrightarrow> r = y1"
proof -
  define q where "q = ((y1 - y0) * (x - x0)) sdiv (x1 - x0)"
  obtain k w where kw: "q = ((y1 - y0) * k) sdiv w" "0 < w" "0 \<le> k" "k \<le> w"
  proof (cases "x0 < x1")
    case True
    then show thesis using that [of "x - x0" "x1 - x0"] assms(2,3) by (simp add: q_def)
  next
    case False
    have "q = ((y1 - y0) * (x0 - x)) sdiv (x0 - x1)"
      unfolding q_def using sdiv_neg [of "(y1 - y0) * (x0 - x)" "x1 - x0"]
      by (metis minus_diff_eq mult_minus_right minus_minus sdiv_neg)
    then show thesis using that [of "x0 - x" "x0 - x1"] False assms by simp
  qed
  have "min y0 y1 \<le> y0 + q \<and> y0 + q \<le> max y0 y1"
    using sdiv_between [OF kw(2-4), of "y1 - y0", folded kw(1)] by (cases "y0 \<le> y1") auto
  then show "min y0 y1 \<le> r" "r \<le> max y0 y1" by (simp_all add: r_def q_def)
  show "x = x0 \<Longrightarrow> r = y0" by (simp add: r_def signed_divide_int_def)
  show "x = x1 \<Longrightarrow> r = y1"
    using assms(1) by (auto simp: r_def signed_divide_int_def abs_mult sgn_if mult_less_0_iff zero_less_mult_iff)
qed

text \<open>
  C32. Within the documented range of \<open>[-23170, 23170]\<close> for all five arguments, and for two distinct
  points, the interpolation does not overflow, also when \<open>x\<close> lies outside the two points: it returns the
  value of the line, rounded towards zero from \<open>y0\<close>. It meets both end points exactly, and between \<open>x0\<close>
  and \<open>x1\<close> (in either order) the result lies between \<open>y0\<close> and \<open>y1\<close>.
\<close>

theorem interpolate_between:
  assumes "\<forall>v\<in>{x0, x1, y0, y1, x}. \<bar>v\<bar> \<le> 23170" "x0 \<noteq> x1"
  shows "\<exists>r. math_2d_linear_interpolate_fast ca x0 x1 y0 y1 x = Some r \<and>
    r = y0 + ((y1 - y0) * (x - x0)) sdiv (x1 - x0) \<and>
    (min x0 x1 \<le> x \<and> x \<le> max x0 x1 \<longrightarrow> min y0 y1 \<le> r \<and> r \<le> max y0 y1) \<and>
    (x = x0 \<longrightarrow> r = y0) \<and> (x = x1 \<longrightarrow> r = y1)"
proof -
  have "math_2d_linear_interpolate_fast ca x0 x1 y0 y1 x = Some (y0 + ((y1 - y0) * (x - x0)) sdiv (x1 - x0))"
    using assms by (intro interpolate_no_overflow [where A = 46340 and B = 46340]) (auto simp: abs_le_iff)
  moreover have "x = x0 \<Longrightarrow> min x0 x1 \<le> x \<and> x \<le> max x0 x1" "x = x1 \<Longrightarrow> min x0 x1 \<le> x \<and> x \<le> max x0 x1" by simp_all
  ultimately show ?thesis using interpolated_between [OF assms(2), of x y0 y1] by blast
qed

theorem interpolate_between_witness:
  "(\<exists>r. math_2d_linear_interpolate_fast False 23170 (- 23170) (- 23170) 23170 1000 = Some r \<and>
     - 23170 \<le> r \<and> r \<le> 23170) \<and>
   (\<exists>r. math_2d_linear_interpolate_fast True 0 1 (- 23170) 23170 23170 = Some r)"
  using interpolate_between [of 23170 "- 23170" "- 23170" 23170 1000 False]
    interpolate_between [of 0 1 "- 23170" 23170 23170 True] by auto

end
