(* ===== verification/Statistics.thy ===== *)
theory Statistics
  imports Infuse_Base "HOL-Library.Signed_Division"
begin

text \<open>
  Running statistics of \<open>lib/math/statistics.c\<close> and \<open>math/statistics.h\<close>: an integer variant of Welford's
  algorithm. The state keeps the mean as \<open>m + p / n\<close> and the sum of squared deviations as
  \<open>(n - 1) * v + w\<close>, and the properties say that these are exact after every sequence of samples. The
  two results computed in \<open>float\<close> are not modelled.
\<close>

record statistics_state =
  st_v :: int
  st_w :: int
  st_m :: int
  st_p :: int
  st_n :: nat

definition statistics_reset :: statistics_state where
  "statistics_reset = \<lparr>st_v = 0, st_w = 0, st_m = 0, st_p = 0, st_n = 0\<rparr>"

definition in_int64 :: "int \<Rightarrow> bool" where
  "in_int64 v \<longleftrightarrow> - (2 ^ 63) \<le> v \<and> v < 2 ^ 63"

text \<open>Conversion to \<open>int32_t\<close> keeps the low 32 bits.\<close>

definition to_int32 :: "int \<Rightarrow> int" where
  "to_int32 v = (v + 2 ^ 31) mod 2 ^ 32 - 2 ^ 31"

text \<open>
  One update. Signed overflow of an \<open>int64_t\<close> operation and division by zero (when the 32 bit counter wraps)
  are undefined behaviour, the result \<open>None\<close>; the list in the condition holds the intermediate values of
  the expressions of equations 11 to 15.
\<close>

definition statistics_update :: "statistics_state \<Rightarrow> int \<Rightarrow> statistics_state option" where
  "statistics_update state x =
     (let m1 = st_m state; p1 = st_p state; w1 = st_w state; v1 = st_v state; n1 = st_n state;
          n = u32 (n1 + 1);
          state = state\<lparr>st_n := n\<rparr>
      in if n = 1 then Some (state\<lparr>st_m := x\<rparr>)
         else if n = 0 then None
         else
           (let normalised = x - m1;
                p' = p1 + normalised;
                delta_m = p' sdiv int n;
                state = state\<lparr>st_m := to_int32 (m1 + delta_m), st_p := to_int32 (p' - int n * delta_m)\<rparr>;
                w' = w1 + normalised * normalised - v1;
                w2 = w' - 2 * delta_m * p' + int n * delta_m * delta_m;
                delta_v = w2 sdiv int n1
            in if list_all in_int64
                    [normalised * normalised, w1 + normalised * normalised, w', 2 * delta_m, 2 * delta_m * p',
                     w' - 2 * delta_m * p', int n * delta_m, int n * delta_m * delta_m, w2,
                     v1 + delta_v, int n1 * delta_v, w2 - int n1 * delta_v]
               then Some (state\<lparr>st_v := v1 + delta_v, st_w := w2 - int n1 * delta_v\<rparr>)
               else None))"

definition statistics_mean_rough :: "statistics_state \<Rightarrow> int" where
  "statistics_mean_rough state = st_m state"

text \<open>
  \<open>state->w / (state->n - 1)\<close> divides an \<open>int64_t\<close> by a \<open>uint32_t\<close>, in 64 signed bits; the sum is converted
  to \<open>uint64_t\<close>.
\<close>

definition statistics_variance_rough :: "statistics_state \<Rightarrow> int" where
  "statistics_variance_rough state =
     (if st_n state < 2 then 0
      else (st_v state + st_w state sdiv int (st_n state - 1)) mod 2 ^ 64)"

fun statistics_run :: "statistics_state \<Rightarrow> int list \<Rightarrow> statistics_state option" where
  "statistics_run state [] = Some state"
| "statistics_run state (x # xs) = Option.bind (statistics_update state x) (\<lambda>s. statistics_run s xs)"

subsection \<open>The invariant\<close>

text \<open>
  The state after the samples \<open>xs\<close>: the mean is \<open>m + p / n\<close> exactly, and the sum of the squared deviations
  from \<open>m\<close> is \<open>(n - 1) * v + w\<close> exactly, with both remainders smaller than their divisors.
\<close>

definition stats_inv :: "int list \<Rightarrow> statistics_state \<Rightarrow> bool" where
  "stats_inv xs st \<longleftrightarrow>
     st_n st = length xs \<and>
     sum_list xs = int (st_n st) * st_m st + st_p st \<and>
     \<bar>st_p st\<bar> < max 1 (int (st_n st)) \<and>
     (\<Sum>x\<leftarrow>xs. (x - st_m st)\<^sup>2) = (int (st_n st) - 1) * st_v st + st_w st \<and>
     \<bar>st_w st\<bar> < max 1 (int (st_n st) - 1) \<and>
     (st_n st < 2 \<longrightarrow> st_v st = 0)"

lemma sum_shift: "(\<Sum>x\<leftarrow>xs. (x - (m :: int))) = sum_list xs - int (length xs) * m"
  by (induction xs) (simp_all add: algebra_simps)

lemma sum_sq_shift:
  "(\<Sum>x\<leftarrow>xs. (x - (m + d :: int))\<^sup>2) =
     (\<Sum>x\<leftarrow>xs. (x - m)\<^sup>2) - 2 * d * (\<Sum>x\<leftarrow>xs. (x - m)) + int (length xs) * d\<^sup>2"
  by (induction xs) (simp_all add: power2_eq_square algebra_simps)

lemma sdiv_rem_bound: "0 < n \<Longrightarrow> \<bar>a - n * (a sdiv n)\<bar> < (n :: int)"
proof -
  assume n: "0 < n"
  have b: "0 \<le> k - n * (k div n) \<and> k - n * (k div n) < n" for k
    using n by (simp add: minus_mult_div_eq_mod)
  show ?thesis
  proof (cases "0 \<le> a")
    case True
    then have "a sdiv n = a div n" using n by (simp add: signed_divide_int_def sgn_if)
    then show ?thesis using b [of a] by simp
  next
    case False
    then have "a sdiv n = - (- a div n)" using n by (simp add: signed_divide_int_def sgn_if)
    then show ?thesis using b [of "- a"] by simp
  qed
qed

lemma abs_sdiv_mult: "0 < n \<Longrightarrow> n * \<bar>a sdiv n\<bar> \<le> \<bar>a :: int\<bar>"
proof -
  assume n: "0 < n"
  have "n * (\<bar>a\<bar> div n) \<le> \<bar>a\<bar>" using n by (metis minus_mult_div_eq_mod pos_mod_sign diff_ge_0_iff_ge)
  then show ?thesis using n by (auto simp: signed_divide_int_def sgn_if abs_mult pos_imp_zdiv_nonneg_iff)
qed

lemma sdiv_same_sign: "0 < n \<Longrightarrow> 0 \<le> (a sdiv n) * (a :: int)"
  by (auto simp: signed_divide_int_def sgn_if mult_le_0_iff pos_imp_zdiv_nonneg_iff zero_le_mult_iff)

text \<open>The update, in exact integers, keeps the invariant.\<close>

lemma update_exact:
  fixes x :: int
  assumes inv: "stats_inv xs st" and n1: "st_n st \<noteq> 0"
  defines "n \<equiv> int (st_n st) + 1" and "p' \<equiv> st_p st + (x - st_m st)"
  defines "dm \<equiv> p' sdiv n"
  defines "w2 \<equiv> st_w st + (x - st_m st) * (x - st_m st) - st_v st - 2 * dm * p' + n * dm * dm"
  defines "dv \<equiv> w2 sdiv int (st_n st)"
  shows "stats_inv (xs @ [x])
    \<lparr>st_v = st_v st + dv, st_w = w2 - int (st_n st) * dv, st_m = st_m st + dm, st_p = p' - n * dm,
     st_n = Suc (st_n st)\<rparr>"
proof -
  have len: "st_n st = length xs" and sum: "sum_list xs = int (st_n st) * st_m st + st_p st"
    and sq: "(\<Sum>x\<leftarrow>xs. (x - st_m st)\<^sup>2) = (int (st_n st) - 1) * st_v st + st_w st"
    using inv by (auto simp: stats_inv_def)
  have pos: "0 < n" "0 < int (st_n st)" using n1 by (simp_all add: n_def)
  have "sum_list (xs @ [x]) = n * (st_m st + dm) + (p' - n * dm)"
    using sum by (simp add: n_def p'_def algebra_simps)
  moreover have dev: "(\<Sum>y\<leftarrow>xs @ [x]. y - st_m st) = p'"
    using sum by (simp add: sum_shift p'_def len)
  have "(\<Sum>y\<leftarrow>xs @ [x]. (y - (st_m st + dm))\<^sup>2) =
      (int (st_n st) - 1) * st_v st + st_w st + (x - st_m st)\<^sup>2 - 2 * dm * p' + n * dm\<^sup>2"
    unfolding sum_sq_shift dev using sq len by (simp add: n_def)
  moreover have "\<dots> = int (st_n st) * (st_v st + dv) + (w2 - int (st_n st) * dv)"
    by (simp add: w2_def power2_eq_square algebra_simps)
  ultimately show ?thesis
    using sdiv_rem_bound [OF pos(1), of p'] sdiv_rem_bound [OF pos(2), of w2] len n1
    by (simp add: stats_inv_def n_def dm_def dv_def)
qed

subsection \<open>No overflow on samples within a range of \<open>2 ^ 31\<close>\<close>

definition within :: "int \<Rightarrow> int \<Rightarrow> int list \<Rightarrow> bool" where
  "within lo hi xs \<longleftrightarrow> (\<forall>x\<in>set xs. lo \<le> x \<and> x \<le> hi)"

lemma sum_within:
  "within lo hi xs \<Longrightarrow> int (length xs) * lo \<le> sum_list xs \<and> sum_list xs \<le> int (length xs) * hi"
  by (induction xs) (auto simp: within_def algebra_simps)

lemma mean_within:
  assumes "stats_inv xs st" "xs \<noteq> []" "within lo hi xs"
  shows "lo \<le> st_m st \<and> st_m st \<le> hi"
proof -
  define n where "n = int (length xs)"
  have n: "0 < n" using assms(2) by (simp add: n_def)
  have s: "n * lo \<le> n * st_m st + st_p st" "n * st_m st + st_p st \<le> n * hi" "\<bar>st_p st\<bar> < n"
    using sum_within [OF assms(3)] assms(1) n by (auto simp: stats_inv_def n_def max_def split: if_splits)
  then have "n * lo < n * (st_m st + 1)" "n * st_m st < n * (hi + 1)" by (auto simp: algebra_simps)
  then show ?thesis using n by simp
qed

lemma sum_sq_within:
  assumes "within lo hi xs" "lo \<le> m" "m \<le> hi"
  shows "(\<Sum>x\<leftarrow>xs. (x - m)\<^sup>2) \<le> (lo + hi - 2 * m) * (\<Sum>x\<leftarrow>xs. x - m) + int (length xs) * ((m - lo) * (hi - m))"
  using assms(1)
proof (induction xs)
  case (Cons x xs)
  then have "0 \<le> (x - lo) * (hi - x)" by (auto simp: within_def)
  then have "(x - m)\<^sup>2 \<le> (lo + hi - 2 * m) * (x - m) + (m - lo) * (hi - m)"
    by (simp add: power2_eq_square algebra_simps)
  with Cons show ?case by (auto simp: within_def algebra_simps)
qed simp

lemma sum_sq_nonneg: "0 \<le> (\<Sum>x\<leftarrow>xs. (x - m :: int)\<^sup>2)"
  by (induction xs) auto

lemma variance_bounds:
  assumes inv: "stats_inv xs st" and r: "within lo hi xs" and d: "lo \<le> hi" "hi - lo \<le> 2147483648"
  shows "0 \<le> st_v st \<and> st_v st \<le> 2305843013508661249"
proof (cases "st_n st < 2")
  case False
  define n a b where "n = int (st_n st)" and "a = st_m st - lo" and "b = hi - st_m st"
  define S where "S = (\<Sum>x\<leftarrow>xs. (x - st_m st)\<^sup>2)"
  have n: "2 \<le> n" and len: "length xs = st_n st" "xs \<noteq> []" using False inv by (auto simp: n_def stats_inv_def)
  have eq: "S = (n - 1) * st_v st + st_w st" and w: "\<bar>st_w st\<bar> < n - 1" and p: "\<bar>st_p st\<bar> < n"
    using inv n by (auto simp: stats_inv_def n_def S_def)
  have m: "0 \<le> a" "0 \<le> b" "a + b \<le> 2147483648"
    using mean_within [OF inv len(2) r] d(2) by (auto simp: a_def b_def)
  have dev: "(\<Sum>x\<leftarrow>xs. x - st_m st) = st_p st" using inv by (simp add: sum_shift stats_inv_def)
  have S: "S \<le> (b - a) * st_p st + n * (a * b)"
    using sum_sq_within [OF r, of "st_m st"] m unfolding dev S_def [symmetric]
    by (simp add: a_def b_def n_def len algebra_simps)
  have "4 * (a * b) = (a + b)\<^sup>2 - (a - b)\<^sup>2" by (simp add: power2_eq_square algebra_simps)
  also have "\<dots> \<le> 2147483648\<^sup>2" using m power_mono [of "a + b" 2147483648 2] zero_le_power2 [of "a - b"] by linarith
  finally have ab: "a * b \<le> 1152921504606846976" by simp
  have "(b - a) * st_p st \<le> \<bar>b - a\<bar> * \<bar>st_p st\<bar>" by (simp flip: abs_mult)
  also have "\<dots> \<le> 2147483648 * n" using m p by (intro mult_mono) auto
  finally have "(b - a) * st_p st \<le> 2147483648 * n" .
  moreover have "n * (a * b) \<le> n * 1152921504606846976" using ab n by (intro mult_left_mono) auto
  ultimately have "S \<le> n * 1152921506754330624" using S by linarith
  also have "\<dots> \<le> (n - 1) * 2305843013508661248" using n by simp
  finally have "(n - 1) * st_v st < (n - 1) * (2305843013508661248 + 1)"
    using eq w by (simp add: distrib_left)
  moreover have "(n - 1) * (- 1) < (n - 1) * st_v st" using eq w sum_sq_nonneg [of "st_m st" xs] by (simp add: S_def)
  ultimately show ?thesis using n by (simp only: mult_less_cancel_left) auto
qed (use inv in \<open>simp add: stats_inv_def\<close>)

text \<open>The correction of the mean is small enough for the products formed with it.\<close>

lemma delta_bound:
  fixes n P e :: int
  assumes "2 \<le> n" "n \<le> 2147483648" "0 \<le> e" "n * e \<le> P" "P \<le> n + 2147483648"
  shows "2 * (e * P) \<le> 4611686035607289856" "n * e * e \<le> e * P" "e \<le> 4294967296" "0 \<le> e * P"
proof -
  have P: "0 \<le> P" using assms by (meson mult_nonneg_nonneg order_trans zero_le_numeral)
  show "0 \<le> e * P" using P assms by simp
  show "n * e * e \<le> e * P" using mult_left_mono [OF assms(4,3)] by (simp add: algebra_simps)
  have "e \<le> n * e" using assms mult_right_mono [of 1 n e] by simp
  then show "e \<le> 4294967296" using assms by linarith
  have "n * (e * P) \<le> P * P" using mult_right_mono [OF assms(4) P] by (simp add: algebra_simps)
  also have "\<dots> \<le> (n + 2147483648) * (n + 2147483648)" using assms P by (intro mult_mono) auto
  also have "\<dots> = n * n + n * 4294967296 + 4611686018427387904" by (simp add: algebra_simps)
  also have "\<dots> \<le> n * (n + 4294967296 + 2305843009213693952)" using assms(1) by (simp add: algebra_simps)
  finally have "e * P \<le> n + 4294967296 + 2305843009213693952" using assms(1) by simp
  then show "2 * (e * P) \<le> 4611686035607289856" using assms(2) by linarith
qed

lemma to_int32_id: "- 2147483648 \<le> v \<Longrightarrow> v < 2147483648 \<Longrightarrow> to_int32 v = v"
  by (simp add: to_int32_def)

text \<open>The range of samples for which the arithmetic does not overflow.\<close>

definition stats_domain :: "int \<Rightarrow> int \<Rightarrow> int list \<Rightarrow> bool" where
  "stats_domain lo hi xs \<longleftrightarrow>
     within lo hi xs \<and> - 2147483648 \<le> lo \<and> hi < 2147483648 \<and> hi - lo \<le> 2147483648 \<and> length xs \<le> 2147483648"

lemma intermediates_fit:
  fixes w v q dm p n :: int
  assumes "\<bar>w\<bar> \<le> 2147483648" "0 \<le> v" "v \<le> 2305843013508661249" "\<bar>q\<bar> \<le> 2147483648"
    and e: "2 * (\<bar>dm\<bar> * \<bar>p\<bar>) \<le> 4611686035607289856" "n * \<bar>dm\<bar> * \<bar>dm\<bar> \<le> \<bar>dm\<bar> * \<bar>p\<bar>" "\<bar>dm\<bar> \<le> 4294967296"
    and n: "0 < n" "n * \<bar>dm\<bar> \<le> \<bar>p\<bar>" "\<bar>p\<bar> \<le> 4294967296" and sgn: "0 \<le> dm * p"
  defines "w' \<equiv> w + q * q - v" and "w2 \<equiv> w + q * q - v - 2 * dm * p + n * dm * dm"
  shows "list_all in_int64 [q * q, w + q * q, w', 2 * dm, 2 * dm * p, w' - 2 * dm * p, n * dm, n * dm * dm, w2]"
    and "\<bar>w2\<bar> \<le> 9223370937343148032"
proof -
  have "\<bar>q\<bar> * \<bar>q\<bar> \<le> 2147483648 * 2147483648" using assms(4) by (intro mult_mono) auto
  then have q: "0 \<le> q * q" "q * q \<le> 4611686018427387904" by simp_all
  have dp: "\<bar>dm\<bar> * \<bar>p\<bar> = dm * p" using sgn by (simp flip: abs_mult)
  have dd: "0 \<le> n * dm * dm" "n * dm * dm \<le> dm * p"
    using n(1) e(2) unfolding dp by (simp_all add: zero_le_mult_iff mult.assoc)
  have nd: "\<bar>n * dm\<bar> \<le> 4294967296" using n by (simp add: abs_mult)
  have pw: "(2 :: int) ^ 63 = 9223372036854775808" by simp
  have r: "2 * dm * p = 2 * (dm * p)" by simp
  show "list_all in_int64 [q * q, w + q * q, w', 2 * dm, 2 * dm * p, w' - 2 * dm * p, n * dm, n * dm * dm, w2]"
    unfolding w'_def w2_def r
    using q dd nd e assms(1-3) sgn dp by (simp only: list.pred_inject in_int64_def pw) (intro conjI TrueI; linarith)
  show "\<bar>w2\<bar> \<le> 9223370937343148032"
    unfolding w2_def r using q dd nd e assms(1-3) sgn dp by linarith
qed

lemma update_total:
  assumes inv: "stats_inv xs st" and dom: "stats_domain lo hi (xs @ [x])"
  shows "\<exists>st'. statistics_update st x = Some st' \<and> stats_inv (xs @ [x]) st'"
proof (cases "st_n st = 0")
  case True
  then show ?thesis using inv by (simp add: statistics_update_def stats_inv_def)
next
  case False
  have len: "st_n st = length xs" "length xs < 2147483648" and xs: "xs \<noteq> []" and r: "within lo hi xs"
    and r': "within lo hi (xs @ [x])" and lohi: "lo \<le> hi" "hi - lo \<le> 2147483648" "- 2147483648 \<le> lo" "hi < 2147483648"
    using inv dom False by (auto simp: stats_inv_def stats_domain_def within_def)
  define n n1 q p where "n = int (st_n st) + 1" and "n1 = int (st_n st)" and "q = x - st_m st" and "p = st_p st + q"
  define dm where "dm = p sdiv n"
  define w2 where "w2 = st_w st + q * q - st_v st - 2 * dm * p + n * dm * dm"
  define dv where "dv = w2 sdiv n1"
  have n: "2 \<le> n" "n \<le> 2147483648" "0 < n" "0 < n1" using False len by (simp_all add: n_def n1_def Suc_le_eq)
  have n1: "n1 < 2147483648" using len by (simp add: n1_def)
  note post = update_exact [OF inv False, of x, folded q_def, folded p_def n_def n1_def, folded dm_def,
      folded w2_def, folded dv_def]
  have b: "\<bar>st_p st\<bar> < n1" "\<bar>st_w st\<bar> < n" "\<bar>q\<bar> \<le> 2147483648"
    using inv n mean_within [OF inv xs r] lohi r' by (auto simp: stats_inv_def n_def n1_def q_def within_def max_def split: if_splits)
  have nd: "n * \<bar>dm\<bar> \<le> \<bar>p\<bar>" unfolding dm_def by (rule abs_sdiv_mult) (use n in simp)
  have "\<bar>p\<bar> \<le> n + 2147483648" using b by (simp add: p_def n_def n1_def)
  note e = delta_bound [OF n(1,2) abs_ge_zero nd this]
  have prem: "\<bar>st_w st\<bar> \<le> 2147483648" "0 \<le> st_v st" "st_v st \<le> 2305843013508661249" "\<bar>p\<bar> \<le> 4294967296" "0 \<le> dm * p"
    using variance_bounds [OF inv r lohi(1,2)] b n sdiv_same_sign [OF n(3), of p, folded dm_def] by (auto simp: p_def n_def n1_def)
  note f = intermediates_fit [OF prem(1-3) b(3) e(1-3) n(3) nd prem(4,5), folded w2_def]
  have rng: "0 \<le> st_v st + dv \<and> st_v st + dv \<le> 2305843013508661249" "lo \<le> st_m st + dm \<and> st_m st + dm \<le> hi"
    using variance_bounds [OF post r' lohi(1,2)] mean_within [OF post _ r'] by simp_all
  have rem: "\<bar>p - n * dm\<bar> < n" "\<bar>w2 - n1 * dv\<bar> < n1"
    unfolding dm_def dv_def using n by (intro sdiv_rem_bound; simp)+
  have "list_all in_int64 [st_v st + dv, n1 * dv, w2 - n1 * dv]"
    using rng rem f(2) n n1 by (simp add: in_int64_def; intro conjI; linarith)
  moreover have "to_int32 (st_m st + dm) = st_m st + dm" "to_int32 (p - n * dm) = p - n * dm"
    using rng(2) lohi rem n by (auto intro!: to_int32_id)
  moreover have "u32 (st_n st + 1) = st_n st + 1" "int (st_n st + 1) = n" using len by (simp_all add: n_def)
  moreover have rec: "st\<lparr>st_n := k, st_m := a, st_p := b, st_v := c, st_w := d\<rparr> =
      \<lparr>st_v = c, st_w = d, st_m = a, st_p = b, st_n = k\<rparr>" for k a b c d by (cases st) simp
  ultimately show ?thesis using post f(1) False
    by (simp add: statistics_update_def Let_def rec q_def [symmetric] p_def [symmetric] n1_def [symmetric]
        dm_def [symmetric] w2_def [symmetric] dv_def [symmetric])
qed

lemma run_total:
  assumes "stats_inv xs st" "stats_domain lo hi (xs @ ys)"
  shows "\<exists>st'. statistics_run st ys = Some st' \<and> stats_inv (xs @ ys) st'"
  using assms
proof (induction ys arbitrary: xs st)
  case (Cons y ys)
  have "stats_domain lo hi (xs @ [y])" using Cons.prems(2) by (auto simp: stats_domain_def within_def)
  then obtain s where "statistics_update st y = Some s" "stats_inv (xs @ [y]) s"
    using update_total [OF Cons.prems(1)] by blast
  then show ?case using Cons.IH [of "xs @ [y]" s] Cons.prems(2) by simp
qed simp

lemma inv_reset: "stats_inv [] statistics_reset"
  by (simp add: stats_inv_def statistics_reset_def)

text \<open>
  C29. Running statistics are exact. From a reset state, any sequence of at most \<open>2 ^ 31\<close> samples that lie
  within a range of width \<open>2 ^ 31\<close> (for instance every sequence of non-negative samples) is processed without
  overflow; afterwards \<open>n * m + p\<close> is the sum of the samples, the rough mean \<open>m\<close> differs from the true mean by
  less than one, and \<open>(n - 1) * v + w\<close> is the sum of the squared deviations from \<open>m\<close>, with \<open>w\<close> less than
  its divisor \<open>n - 1\<close>.
\<close>

theorem statistics_exact:
  assumes "within lo hi xs" "- (2 ^ 31) \<le> lo" "hi < 2 ^ 31" "hi - lo \<le> 2 ^ 31" "length xs \<le> 2 ^ 31" "2 \<le> length xs"
  shows "\<exists>st. statistics_run statistics_reset xs = Some st \<and> st_n st = length xs \<and>
    sum_list xs = int (st_n st) * st_m st + st_p st \<and>
    \<bar>sum_list xs - int (st_n st) * statistics_mean_rough st\<bar> < int (st_n st) \<and>
    (\<Sum>x\<leftarrow>xs. (x - st_m st)\<^sup>2) = (int (st_n st) - 1) * st_v st + st_w st \<and>
    \<bar>st_w st\<bar> < int (st_n st) - 1 \<and> statistics_variance_rough st = st_v st"
proof -
  have "stats_domain lo hi ([] @ xs)" using assms by (simp add: stats_domain_def)
  from run_total [OF inv_reset this] obtain st where st: "statistics_run statistics_reset xs = Some st"
    and inv: "stats_inv xs st" by auto
  have "lo \<le> hi" using assms(1,6) by (cases xs) (auto simp: within_def)
  then have "0 \<le> st_v st \<and> st_v st \<le> 2305843013508661249"
    using assms(4) by (intro variance_bounds [OF inv assms(1)]) simp_all
  moreover have "st_w st sdiv (int (st_n st) - 1) = 0"
    using inv assms(6) by (auto simp: stats_inv_def signed_divide_int_def sgn_if)
  ultimately show ?thesis using st inv assms(6)
    by (auto simp: stats_inv_def statistics_mean_rough_def statistics_variance_rough_def of_nat_diff)
qed

theorem statistics_exact_witness:
  "within 0 100 [100, 0, 7] \<and> (\<exists>st. statistics_run statistics_reset [100, 0, 7] = Some st \<and> st_n st = 3 \<and>
     107 = 3 * st_m st + st_p st)"
proof -
  have w: "within 0 100 [100, 0, 7]" by (simp add: within_def)
  from statistics_exact [OF w] show ?thesis using w by auto
qed

text \<open>
  Two samples further apart than that overflow: the square of their difference does not fit an
  \<open>int64_t\<close>.
\<close>

lemma statistics_overflow: "statistics_run statistics_reset [2147483647, - 2147483648] = None"
  by (simp add: statistics_update_def statistics_reset_def in_int64_def Let_def)

end
