(* ===== verification/App_States.thy ===== *)
theory App_States
  imports Bitmask
begin

text \<open>
  Application states, \<open>lib/states/application_states.c\<close>: up to 256 named flags, each set indefinitely or
  for a number of seconds, with callbacks on every change. The timeouts are kept in a small array whose
  used slots are marked in a 32 bit mask. The specification is a map from the states that are set to the
  seconds they have left, with zero for no timeout; every operation refines the evident operation on it.
\<close>

subsection \<open>Data\<close>

record timeout_state =
  ts_state :: nat
  ts_timeout :: nat

text \<open>
  Callbacks are application code: each is a function on the application's own data \<open>'w\<close>, absent when the
  pointer is \<open>NULL\<close>. They run inside the spinlock and cannot call back into this module. \<open>cb_id\<close>
  stands for the address of the callback structure.
\<close>

record 'w infuse_state_cb =
  cb_id :: nat
  cb_state_set :: "(nat \<Rightarrow> bool \<Rightarrow> nat \<Rightarrow> 'w \<Rightarrow> 'w) option"
  cb_state_cleared :: "(nat \<Rightarrow> 'w \<Rightarrow> 'w) option"

text \<open>The static variables of the file, and the data the callbacks act on.\<close>

record 'w app_states =
  application_states :: "nat set"
  timeout_states :: "timeout_state list"
  timeout_mask :: word32
  cb_list :: "'w infuse_state_cb list"
  cb_data :: 'w

definition INFUSE_STATE_REBOOTING :: nat where "INFUSE_STATE_REBOOTING = 1"
definition INFUSE_STATE_TIME_KNOWN :: nat where "INFUSE_STATE_TIME_KNOWN = 3"
definition INFUSE_STATES_END :: nat where "INFUSE_STATES_END = 255"
definition UINT8_MAX :: nat where "UINT8_MAX = 255"

text \<open>The value of the static variables at boot, for \<open>n\<close> timeout slots.\<close>

definition states_init :: "nat \<Rightarrow> 'w \<Rightarrow> 'w app_states" where
  "states_init n w =
     \<lparr>application_states = {}, timeout_states = replicate n \<lparr>ts_state = 0, ts_timeout = 0\<rparr>,
      timeout_mask = 0, cb_list = [], cb_data = w\<rparr>"

subsection \<open>Callbacks\<close>

definition infuse_state_register_callback :: "'w infuse_state_cb \<Rightarrow> 'w app_states \<Rightarrow> 'w app_states" where
  "infuse_state_register_callback cb s = s\<lparr>cb_list := cb_list s @ [cb]\<rparr>"

fun find_and_remove :: "nat \<Rightarrow> 'w infuse_state_cb list \<Rightarrow> bool \<times> 'w infuse_state_cb list" where
  "find_and_remove i [] = (False, [])"
| "find_and_remove i (c # cs) =
     (if cb_id c = i then (True, cs) else (let (found, cs') = find_and_remove i cs in (found, c # cs')))"

definition infuse_state_unregister_callback ::
  "'w infuse_state_cb \<Rightarrow> 'w app_states \<Rightarrow> bool \<times> 'w app_states" where
  "infuse_state_unregister_callback cb s =
     (let (found, cs) = find_and_remove (cb_id cb) (cb_list s) in (found, s\<lparr>cb_list := cs\<rparr>))"

definition notify_set :: "nat \<Rightarrow> bool \<Rightarrow> nat \<Rightarrow> 'w app_states \<Rightarrow> 'w app_states" where
  "notify_set state already_set timeout s =
     s\<lparr>cb_data := fold (\<lambda>cb w. case cb_state_set cb of None \<Rightarrow> w | Some f \<Rightarrow> f state already_set timeout w)
                     (cb_list s) (cb_data s)\<rparr>"

definition notify_cleared :: "nat \<Rightarrow> 'w app_states \<Rightarrow> 'w app_states" where
  "notify_cleared state s =
     s\<lparr>cb_data := fold (\<lambda>cb w. case cb_state_cleared cb of None \<Rightarrow> w | Some f \<Rightarrow> f state w)
                     (cb_list s) (cb_data s)\<rparr>"

subsection \<open>Timeout slots\<close>

function find_timeout_loop :: "timeout_state list \<Rightarrow> nat \<Rightarrow> word32 \<Rightarrow> nat" where
  "find_timeout_loop ts state pend =
     (if pend = 0 then UINT8_MAX
      else
        (let first_used = ffs pend - 1 in
         if ts_state (ts ! first_used) = state then first_used
         else find_timeout_loop ts state (pend XOR BIT first_used)))"
  by auto
termination by (relation "measure (\<lambda>(ts, state, pend). popcount pend)") (auto simp: popcount_step [simplified])

definition find_timeout_state :: "nat \<Rightarrow> 'w app_states \<Rightarrow> nat" where
  "find_timeout_state state s = find_timeout_loop (timeout_states s) state (timeout_mask s)"

definition clear_timeout_state :: "nat \<Rightarrow> 'w app_states \<Rightarrow> 'w app_states" where
  "clear_timeout_state state s =
     (let timeout_idx = find_timeout_state state s in
      if timeout_idx = UINT8_MAX then s
      else s\<lparr>timeout_states := (timeout_states s)[timeout_idx := \<lparr>ts_state = 0, ts_timeout = 0\<rparr>],
             timeout_mask := timeout_mask s XOR BIT timeout_idx\<rparr>)"

subsection \<open>Operations\<close>

definition infuse_state_set :: "nat \<Rightarrow> 'w app_states \<Rightarrow> bool \<times> 'w app_states" where
  "infuse_state_set state s =
     (let already_set = (state \<in> application_states s);
          s = s\<lparr>application_states := insert state (application_states s)\<rparr>;
          s = (if already_set then clear_timeout_state state s else s)
      in (already_set, notify_set state already_set 0 s))"

definition infuse_state_set_timeout :: "nat \<Rightarrow> nat \<Rightarrow> 'w app_states \<Rightarrow> bool \<times> 'w app_states" where
  "infuse_state_set_timeout state timeout s =
     (if timeout = 0 then (False, s)
      else
        (let timeout_idx = find_timeout_state state s in
         if timeout_idx = UINT8_MAX then
           (if popcount (timeout_mask s) = length (timeout_states s) then (False, s)
            else
              (let timeout_idx = ffs (NOT (timeout_mask s)) - 1;
                   already_set = (state \<in> application_states s);
                   s = s\<lparr>application_states := insert state (application_states s),
                         timeout_mask := timeout_mask s OR BIT timeout_idx,
                         timeout_states := (timeout_states s)[timeout_idx :=
                           \<lparr>ts_state = state, ts_timeout = timeout\<rparr>]\<rparr>
               in (already_set, notify_set state already_set timeout s)))
         else
           (let s = s\<lparr>timeout_states := (timeout_states s)[timeout_idx :=
                        (timeout_states s ! timeout_idx)\<lparr>ts_timeout := timeout\<rparr>]\<rparr>
            in (True, notify_set state True timeout s))))"

definition infuse_state_get_timeout :: "nat \<Rightarrow> 'w app_states \<Rightarrow> nat res" where
  "infuse_state_get_timeout state s =
     (if state \<in> application_states s then
        (let timeout_idx = find_timeout_state state s in
         if timeout_idx = UINT8_MAX then Inr 0 else Inr (ts_timeout (timeout_states s ! timeout_idx)))
      else Inl EINVAL)"

definition infuse_state_clear :: "nat \<Rightarrow> 'w app_states \<Rightarrow> bool \<times> 'w app_states" where
  "infuse_state_clear state s =
     (let was_set = (state \<in> application_states s);
          s = s\<lparr>application_states := application_states s - {state}\<rparr>
      in (was_set, if was_set then notify_cleared state (clear_timeout_state state s) else s))"

definition infuse_state_set_to :: "nat \<Rightarrow> bool \<Rightarrow> 'w app_states \<Rightarrow> bool \<times> 'w app_states" where
  "infuse_state_set_to state val s = (if val then infuse_state_set state s else infuse_state_clear state s)"

definition infuse_state_get :: "nat \<Rightarrow> 'w app_states \<Rightarrow> bool" where
  "infuse_state_get state s \<longleftrightarrow> state \<in> application_states s"

definition infuse_states_snapshot :: "'w app_states \<Rightarrow> nat set" where
  "infuse_states_snapshot s = application_states s"

text \<open>
  One tick. The loop walks over a copy of the mask; \<open>--timeout\<close> is 16 bit arithmetic.
\<close>

definition tick_slot :: "nat set \<Rightarrow> nat \<Rightarrow> 'w app_states \<Rightarrow> 'w app_states" where
  "tick_slot snapshot first_used s =
     (let state = ts_state (timeout_states s ! first_used) in
      if state \<notin> snapshot then s
      else
        (let timeout = u16 (ts_timeout (timeout_states s ! first_used) + 65535);
             s = s\<lparr>timeout_states := (timeout_states s)[first_used :=
                     (timeout_states s ! first_used)\<lparr>ts_timeout := timeout\<rparr>]\<rparr>
         in if timeout > 0 then s
            else
              (let s = s\<lparr>application_states := application_states s - {state},
                         timeout_mask := timeout_mask s XOR BIT first_used\<rparr>;
                   s = notify_cleared state s
               in s\<lparr>timeout_states := (timeout_states s)[first_used :=
                       (timeout_states s ! first_used)\<lparr>ts_state := 0\<rparr>]\<rparr>)))"

function tick_loop :: "nat set \<Rightarrow> word32 \<Rightarrow> 'w app_states \<Rightarrow> 'w app_states" where
  "tick_loop snapshot pend s =
     (if pend = 0 then s
      else
        (let first_used = ffs pend - 1
         in tick_loop snapshot (pend XOR BIT first_used) (tick_slot snapshot first_used s)))"
  by auto
termination by (relation "measure (\<lambda>(snapshot, pend, s). popcount pend)") (auto simp: popcount_step [simplified])

definition infuse_states_tick :: "nat set \<Rightarrow> 'w app_states \<Rightarrow> 'w app_states" where
  "infuse_states_tick snapshot s = tick_loop snapshot (timeout_mask s) s"

declare find_timeout_loop.simps [simp del] tick_loop.simps [simp del]

subsection \<open>The loops over the mask\<close>

definition slot :: "'w app_states \<Rightarrow> nat \<Rightarrow> nat option" where
  "slot s state = find (\<lambda>k. ts_state (timeout_states s ! k) = state) (bits_of (timeout_mask s))"

lemma find_timeout_loop_find:
  "find_timeout_loop ts state m =
     (case find (\<lambda>k. ts_state (ts ! k) = state) (bits_of m) of None \<Rightarrow> UINT8_MAX | Some k \<Rightarrow> k)"
proof (induction ts state m rule: find_timeout_loop.induct)
  case (1 ts state m)
  show ?case
  proof (cases "m = 0")
    case False
    then show ?thesis
      using 1 [OF False refl] by (subst find_timeout_loop.simps, subst bits_of_step [OF False]) (simp add: Let_def)
  qed (simp add: find_timeout_loop.simps)
qed

lemma find_timeout_slot:
  "find_timeout_state state s = (case slot s state of None \<Rightarrow> UINT8_MAX | Some k \<Rightarrow> k)"
  by (simp add: find_timeout_state_def find_timeout_loop_find slot_def)

lemma tick_loop_fold: "tick_loop snapshot m s = fold (tick_slot snapshot) (bits_of m) s"
proof (induction snapshot m s rule: tick_loop.induct)
  case (1 snapshot m s)
  show ?case
  proof (cases "m = 0")
    case False
    then show ?thesis
      using 1 [OF False refl] by (subst tick_loop.simps, subst bits_of_step [OF False]) (simp add: Let_def)
  qed (simp add: tick_loop.simps)
qed

subsection \<open>The invariant\<close>

text \<open>
  Every marked slot belongs to one state that is set and has time left, no state has two slots, and the
  unmarked slots are zero.
\<close>

definition states_inv :: "'w app_states \<Rightarrow> bool" where
  "states_inv s \<longleftrightarrow>
     length (timeout_states s) \<le> 32 \<and>
     (\<forall>k. bit (timeout_mask s) k \<longrightarrow> k < length (timeout_states s) \<and>
        ts_state (timeout_states s ! k) \<in> application_states s \<and>
        0 < ts_timeout (timeout_states s ! k) \<and> ts_timeout (timeout_states s ! k) < 65536) \<and>
     (\<forall>k < length (timeout_states s). \<not> bit (timeout_mask s) k \<longrightarrow>
        timeout_states s ! k = \<lparr>ts_state = 0, ts_timeout = 0\<rparr>) \<and>
     inj_on (\<lambda>k. ts_state (timeout_states s ! k)) {k. bit (timeout_mask s) k}"

lemma states_invD:
  assumes "states_inv s" "bit (timeout_mask s) k"
  shows "k < length (timeout_states s)" "k < 32" "ts_state (timeout_states s ! k) \<in> application_states s"
    "0 < ts_timeout (timeout_states s ! k)" "ts_timeout (timeout_states s ! k) < 65536"
  using assms by (auto simp: states_inv_def dest: bit_word32_less)

lemma slot_Some:
  assumes "states_inv s"
  shows "slot s state = Some k \<longleftrightarrow> bit (timeout_mask s) k \<and> ts_state (timeout_states s ! k) = state"
proof
  assume "slot s state = Some k"
  then show "bit (timeout_mask s) k \<and> ts_state (timeout_states s ! k) = state"
    unfolding slot_def find_Some_iff by (metis mem_Collect_eq nth_mem set_bits_of)
next
  assume k: "bit (timeout_mask s) k \<and> ts_state (timeout_states s ! k) = state"
  then obtain j where j: "slot s state = Some j"
    unfolding slot_def using states_invD(2) [OF assms]
    by (cases "find (\<lambda>k. ts_state (timeout_states s ! k) = state) (bits_of (timeout_mask s))")
      (auto simp: find_None_iff)
  then have "bit (timeout_mask s) j \<and> ts_state (timeout_states s ! j) = state"
    unfolding slot_def find_Some_iff by (metis mem_Collect_eq nth_mem set_bits_of)
  then show "slot s state = Some k" using k j assms unfolding states_inv_def inj_on_def by auto
qed

lemma slot_None:
  assumes "states_inv s"
  shows "slot s state = None \<longleftrightarrow> (\<forall>k. bit (timeout_mask s) k \<longrightarrow> ts_state (timeout_states s ! k) \<noteq> state)"
  using slot_Some [OF assms, of state] by (cases "slot s state") auto

lemma slot_less: "states_inv s \<Longrightarrow> slot s state = Some k \<Longrightarrow> k \<noteq> UINT8_MAX"
  using states_invD(2) by (fastforce simp: slot_Some UINT8_MAX_def)

subsection \<open>The specification\<close>

text \<open>
  A map from the states that are set to the seconds left, zero for no timeout.
\<close>

type_synonym state_map = "nat \<Rightarrow> nat option"

definition states_abs :: "'w app_states \<Rightarrow> state_map" where
  "states_abs s state =
     (if state \<in> application_states s
      then Some (case slot s state of None \<Rightarrow> 0 | Some k \<Rightarrow> ts_timeout (timeout_states s ! k))
      else None)"

definition with_timeout :: "state_map \<Rightarrow> nat set" where
  "with_timeout m = {state. \<exists>t > 0. m state = Some t}"

definition spec_set_timeout :: "nat \<Rightarrow> nat \<Rightarrow> nat \<Rightarrow> state_map \<Rightarrow> state_map" where
  "spec_set_timeout slots state t m =
     (if t = 0 \<or> state \<notin> with_timeout m \<and> card (with_timeout m) = slots then m else m(state \<mapsto> t))"

definition spec_tick :: "nat set \<Rightarrow> state_map \<Rightarrow> state_map" where
  "spec_tick snapshot m state =
     (case m state of
        None \<Rightarrow> None
      | Some t \<Rightarrow> if t = 0 \<or> state \<notin> snapshot then Some t else if t = 1 then None else Some (t - 1))"

lemma with_timeout_slots:
  assumes "states_inv s"
  shows "with_timeout (states_abs s) = (\<lambda>k. ts_state (timeout_states s ! k)) ` {k. bit (timeout_mask s) k}"
  using states_invD(3,4) [OF assms]
  by (auto simp: with_timeout_def states_abs_def slot_Some [OF assms] split: option.splits if_splits)

lemma card_with_timeout:
  assumes "states_inv s"
  shows "card (with_timeout (states_abs s)) = popcount (timeout_mask s)"
proof -
  have "{k. bit (timeout_mask s) k} = set (bits_of (timeout_mask s))" using bit_word32_less by auto
  moreover have "inj_on (\<lambda>k. ts_state (timeout_states s ! k)) {k. bit (timeout_mask s) k}"
    using assms by (simp add: states_inv_def)
  ultimately show ?thesis
    using with_timeout_slots [OF assms] by (simp add: card_image popcount_def distinct_card del: set_bits_of)
qed

subsection \<open>Each operation refines its specification\<close>

lemma nth_update: "i < length xs \<Longrightarrow> xs[i := v] ! j = (if j = i then v else xs ! j)"
  by (cases "j = i") auto

lemma option_eqI: "(\<And>k. a = Some k \<longleftrightarrow> b = Some k) \<Longrightarrow> a = b"
  by (metis not_Some_eq)

lemma notify_fields [simp]:
  "application_states (notify_set state a t s) = application_states s"
  "timeout_states (notify_set state a t s) = timeout_states s"
  "timeout_mask (notify_set state a t s) = timeout_mask s"
  "application_states (notify_cleared state s) = application_states s"
  "timeout_states (notify_cleared state s) = timeout_states s"
  "timeout_mask (notify_cleared state s) = timeout_mask s"
  by (simp_all add: notify_set_def notify_cleared_def)

text \<open>The three components decide the invariant and the abstraction.\<close>

lemma states_cong:
  assumes "application_states s = application_states s'" "timeout_states s = timeout_states s'"
    "timeout_mask s = timeout_mask s'"
  shows "states_inv s = states_inv s'" "slot s = slot s'" "states_abs s = states_abs s'"
proof -
  show "states_inv s = states_inv s'" using assms by (simp add: states_inv_def)
  show sl: "slot s = slot s'" using assms by (simp add: slot_def fun_eq_iff)
  show "states_abs s = states_abs s'" using assms sl by (simp add: states_abs_def fun_eq_iff split: option.splits)
qed

lemma clear_commute:
  "clear_timeout_state state (s\<lparr>application_states := A\<rparr>) = (clear_timeout_state state s)\<lparr>application_states := A\<rparr>"
  by (simp add: clear_timeout_state_def find_timeout_state_def Let_def)

lemma clear_timeout_slots:
  fixes state :: nat
  assumes inv: "states_inv s"
  defines "s' \<equiv> clear_timeout_state state s"
  shows "application_states s' = application_states s" "length (timeout_states s') = length (timeout_states s)"
    "bit (timeout_mask s') k \<longleftrightarrow> bit (timeout_mask s) k \<and> ts_state (timeout_states s ! k) \<noteq> state"
    "bit (timeout_mask s') k \<Longrightarrow> timeout_states s' ! k = timeout_states s ! k"
    "k < length (timeout_states s) \<Longrightarrow> \<not> bit (timeout_mask s') k \<Longrightarrow>
       timeout_states s' ! k = \<lparr>ts_state = 0, ts_timeout = 0\<rparr>"
proof -
  have "application_states s' = application_states s \<and> length (timeout_states s') = length (timeout_states s) \<and>
    (bit (timeout_mask s') k \<longleftrightarrow> bit (timeout_mask s) k \<and> ts_state (timeout_states s ! k) \<noteq> state) \<and>
    (bit (timeout_mask s') k \<longrightarrow> timeout_states s' ! k = timeout_states s ! k) \<and>
    (k < length (timeout_states s) \<longrightarrow> \<not> bit (timeout_mask s') k \<longrightarrow>
       timeout_states s' ! k = \<lparr>ts_state = 0, ts_timeout = 0\<rparr>)"
  proof (cases "slot s state")
    case None
    then have "s' = s" by (simp add: s'_def clear_timeout_state_def find_timeout_slot)
    then show ?thesis using None inv by (auto simp: slot_None [OF inv]) (auto simp: states_inv_def)
  next
    case (Some j)
    have j: "bit (timeout_mask s) j" "ts_state (timeout_states s ! j) = state" "j < 32" "j \<noteq> UINT8_MAX"
      "j < length (timeout_states s)"
      using Some slot_Some [OF inv] states_invD [OF inv] slot_less [OF inv Some] by auto
    have s': "s' = s\<lparr>timeout_states := (timeout_states s)[j := \<lparr>ts_state = 0, ts_timeout = 0\<rparr>],
        timeout_mask := timeout_mask s XOR BIT j\<rparr>"
      using Some j by (simp add: s'_def clear_timeout_state_def find_timeout_slot)
    have uniq: "bit (timeout_mask s) k \<and> ts_state (timeout_states s ! k) = state \<longrightarrow> k = j"
      using inv j by (auto simp: states_inv_def inj_on_def)
    then have b: "bit (timeout_mask s') k \<longleftrightarrow> bit (timeout_mask s) k \<and> ts_state (timeout_states s ! k) \<noteq> state"
      using j by (auto simp: s' bit_xor_iff)
    show ?thesis unfolding b using inv j uniq by (auto simp: s' nth_list_update states_inv_def)
  qed
  then show "application_states s' = application_states s" "length (timeout_states s') = length (timeout_states s)"
    "bit (timeout_mask s') k \<longleftrightarrow> bit (timeout_mask s) k \<and> ts_state (timeout_states s ! k) \<noteq> state"
    "bit (timeout_mask s') k \<Longrightarrow> timeout_states s' ! k = timeout_states s ! k"
    "k < length (timeout_states s) \<Longrightarrow> \<not> bit (timeout_mask s') k \<Longrightarrow>
       timeout_states s' ! k = \<lparr>ts_state = 0, ts_timeout = 0\<rparr>" by blast+
qed

lemma clear_timeout_inv:
  fixes state :: nat
  assumes inv: "states_inv s" and A: "application_states s - {state} \<subseteq> A"
  defines "s' \<equiv> (clear_timeout_state state s)\<lparr>application_states := A\<rparr>"
  shows "states_inv s'" "slot s' x = (if x = state then None else slot s x)"
    "states_abs s' x = (if x \<notin> A then None else if x = state then Some 0
       else Some (case slot s x of None \<Rightarrow> 0 | Some k \<Rightarrow> ts_timeout (timeout_states s ! k)))"
proof -
  note c = clear_timeout_slots [OF inv, where state = state]
  show i: "states_inv s'"
  proof -
    have "\<forall>k < length (timeout_states s). \<not> bit (timeout_mask s') k \<longrightarrow>
        timeout_states s' ! k = \<lparr>ts_state = 0, ts_timeout = 0\<rparr>" using c(5) by (simp add: s'_def)
    moreover have "\<forall>k. bit (timeout_mask s') k \<longrightarrow> bit (timeout_mask s) k \<and> ts_state (timeout_states s ! k) \<noteq> state \<and>
        timeout_states s' ! k = timeout_states s ! k" using c(3,4) by (simp add: s'_def)
    moreover have "length (timeout_states s') = length (timeout_states s)" "application_states s' = A"
      by (simp_all add: s'_def c(2))
    ultimately show ?thesis using inv A by (auto simp: states_inv_def inj_on_def)
  qed
  show sl: "slot s' x = (if x = state then None else slot s x)"
    by (rule option_eqI, simp add: slot_Some [OF i] slot_Some [OF inv]) (auto simp: s'_def c(3,4))
  have "timeout_states s' ! k = timeout_states s ! k" if "slot s' x = Some k" for k
    using that c(4) by (simp add: slot_Some [OF i]) (simp add: s'_def)
  then show "states_abs s' x = (if x \<notin> A then None else if x = state then Some 0
       else Some (case slot s x of None \<Rightarrow> 0 | Some k \<Rightarrow> ts_timeout (timeout_states s ! k)))"
    using sl by (auto simp: states_abs_def split: option.splits) (auto simp: s'_def)
qed

lemma infuse_state_set_refines:
  assumes inv: "states_inv s"
  shows "states_inv (snd (infuse_state_set state s))"
    "states_abs (snd (infuse_state_set state s)) = (states_abs s)(state \<mapsto> 0)"
    "fst (infuse_state_set state s) \<longleftrightarrow> state \<in> dom (states_abs s)"
proof -
  define A where "A = insert state (application_states s)"
  define s1 where "s1 = (clear_timeout_state state s)\<lparr>application_states := A\<rparr>"
  have "application_states s - {state} \<subseteq> A" by (auto simp: A_def)
  note s1 = clear_timeout_inv [OF inv this, folded s1_def]
  have "slot s state = None" if "state \<notin> application_states s"
    using that states_invD(3) [OF inv] by (auto simp: slot_None [OF inv])
  then have "clear_timeout_state state s = s" if "state \<notin> application_states s"
    using that by (simp add: clear_timeout_state_def find_timeout_slot)
  then have eq: "snd (infuse_state_set state s) = notify_set state (state \<in> application_states s) 0 s1"
    by (auto simp: infuse_state_set_def Let_def s1_def A_def clear_commute)
  show "states_inv (snd (infuse_state_set state s))"
    using s1(1) states_cong(1) [of "snd (infuse_state_set state s)" s1] by (simp add: eq)
  have "states_abs s1 = (states_abs s)(state \<mapsto> 0)"
    unfolding fun_eq_iff s1(3) by (simp add: states_abs_def A_def)
  then show "states_abs (snd (infuse_state_set state s)) = (states_abs s)(state \<mapsto> 0)"
    using states_cong(3) [of "snd (infuse_state_set state s)" s1] by (simp add: eq)
  show "fst (infuse_state_set state s) \<longleftrightarrow> state \<in> dom (states_abs s)"
    by (simp add: infuse_state_set_def Let_def states_abs_def dom_def)
qed

lemma infuse_state_clear_refines:
  assumes inv: "states_inv s"
  shows "states_inv (snd (infuse_state_clear state s))"
    "states_abs (snd (infuse_state_clear state s)) = (states_abs s)(state := None)"
    "fst (infuse_state_clear state s) \<longleftrightarrow> state \<in> dom (states_abs s)"
proof -
  define A where "A = application_states s - {state}"
  define s1 where "s1 = (clear_timeout_state state s)\<lparr>application_states := A\<rparr>"
  have "application_states s - {state} \<subseteq> A" by (auto simp: A_def)
  note s1 = clear_timeout_inv [OF inv this, folded s1_def]
  have a1: "states_abs s1 = (states_abs s)(state := None)"
    unfolding fun_eq_iff s1(3) by (simp add: states_abs_def A_def)
  have eq: "snd (infuse_state_clear state s) = (if state \<in> application_states s then notify_cleared state s1 else s)"
    by (auto simp: infuse_state_clear_def Let_def s1_def A_def clear_commute)
  show "states_inv (snd (infuse_state_clear state s))"
    using inv s1(1) states_cong(1) [of "notify_cleared state s1" s1] by (simp add: eq)
  show "states_abs (snd (infuse_state_clear state s)) = (states_abs s)(state := None)"
    using a1 states_cong(3) [of "notify_cleared state s1" s1] by (simp add: eq) (auto simp: fun_eq_iff states_abs_def)
  show "fst (infuse_state_clear state s) \<longleftrightarrow> state \<in> dom (states_abs s)"
    by (simp add: infuse_state_clear_def Let_def states_abs_def dom_def)
qed

text \<open>Rescheduling the timeout of a marked slot, and marking a free one.\<close>

lemma set_slot_timeout:
  assumes inv: "states_inv s" and k: "slot s state = Some k" and t: "0 < t" "t < 65536"
  defines "s' \<equiv> s\<lparr>timeout_states := (timeout_states s)[k := (timeout_states s ! k)\<lparr>ts_timeout := t\<rparr>]\<rparr>"
  shows "states_inv s'" "states_abs s' = (states_abs s)(state \<mapsto> t)"
proof -
  have k': "bit (timeout_mask s) k" "ts_state (timeout_states s ! k) = state" "k < length (timeout_states s)"
    "state \<in> application_states s"
    using k slot_Some [OF inv] states_invD [OF inv] by auto
  have st: "ts_state (timeout_states s' ! j) = ts_state (timeout_states s ! j)" for j
    using k' by (cases "k < length (timeout_states s)") (auto simp: s'_def nth_update)
  have tm: "ts_timeout (timeout_states s' ! j) = (if j = k then t else ts_timeout (timeout_states s ! j))" for j
    using k' by (auto simp: s'_def nth_update)
  have sl: "slot s' = slot s" unfolding slot_def st by (simp add: s'_def fun_eq_iff)
  have rest: "timeout_mask s' = timeout_mask s" "application_states s' = application_states s"
    "length (timeout_states s') = length (timeout_states s)" by (simp_all add: s'_def)
  have zero: "timeout_states s' ! j = timeout_states s ! j" if "\<not> bit (timeout_mask s) j" for j
    using that k' by (auto simp: s'_def nth_update)
  show "states_inv s'" unfolding states_inv_def rest st tm using inv t zero by (auto simp: states_inv_def)
  show "states_abs s' = (states_abs s)(state \<mapsto> t)"
  proof (rule ext)
    fix x
    have "slot s x = Some k \<longleftrightarrow> x = state" using k' by (auto simp: slot_Some [OF inv])
    then show "states_abs s' x = ((states_abs s)(state \<mapsto> t)) x"
      using k' unfolding states_abs_def rest sl tm by (auto simp: k states_abs_def split: option.splits)
  qed
qed

lemma add_slot:
  assumes inv: "states_inv s" and none: "slot s state = None" and t: "0 < t" "t < 65536"
    and j: "j < length (timeout_states s)" "\<not> bit (timeout_mask s) j"
  defines "s' \<equiv> s\<lparr>application_states := insert state (application_states s),
      timeout_mask := timeout_mask s OR BIT j,
      timeout_states := (timeout_states s)[j := \<lparr>ts_state = state, ts_timeout = t\<rparr>]\<rparr>"
  shows "states_inv s'" "states_abs s' = (states_abs s)(state \<mapsto> t)"
proof -
  have j32: "j < 32" using j inv by (auto simp: states_inv_def)
  have ts: "timeout_states s' ! k = (if k = j then \<lparr>ts_state = state, ts_timeout = t\<rparr> else timeout_states s ! k)" for k
    using j by (auto simp: s'_def nth_update)
  have b: "bit (timeout_mask s') k \<longleftrightarrow> bit (timeout_mask s) k \<or> k = j" for k
    using j32 by (auto simp: s'_def bit_or_iff)
  have rest: "application_states s' = insert state (application_states s)"
    "length (timeout_states s') = length (timeout_states s)" by (simp_all add: s'_def)
  have no: "\<forall>k. bit (timeout_mask s) k \<longrightarrow> ts_state (timeout_states s ! k) \<noteq> state" using none by (simp add: slot_None [OF inv])
  show i: "states_inv s'"
    unfolding states_inv_def rest b ts using inv t j no by (auto simp: states_inv_def inj_on_def)
  have sl: "slot s' x = (if x = state then Some j else slot s x)" for x
    by (rule option_eqI) (use no j in \<open>auto simp: slot_Some [OF i] slot_Some [OF inv] b ts\<close>)
  have "states_abs s' x = ((states_abs s)(state \<mapsto> t)) x" for x
  proof -
    have "k \<noteq> j" if "slot s x = Some k" for k using that j slot_Some [OF inv] by auto
    then show ?thesis by (auto simp: states_abs_def sl rest ts split: option.splits)
  qed
  then show "states_abs s' = (states_abs s)(state \<mapsto> t)" by (rule ext)
qed

lemma infuse_state_set_timeout_refines:
  assumes inv: "states_inv s" and t: "t < 65536"
  shows "states_inv (snd (infuse_state_set_timeout state t s))"
    "states_abs (snd (infuse_state_set_timeout state t s)) =
       spec_set_timeout (length (timeout_states s)) state t (states_abs s)"
proof -
  let ?r = "snd (infuse_state_set_timeout state t s)" and ?n = "length (timeout_states s)"
  have notify: "states_inv (notify_set x a u s) = states_inv s" "states_abs (notify_set x a u s) = states_abs s"
    for x a u and s :: "'a app_states" by (rule states_cong; simp)+
  have wt: "state \<in> with_timeout (states_abs s) \<longleftrightarrow> slot s state \<noteq> None"
    by (auto simp: with_timeout_slots [OF inv] slot_None [OF inv])
  have "states_inv ?r \<and> states_abs ?r = spec_set_timeout ?n state t (states_abs s)"
  proof (cases "t = 0 \<or> slot s state = None \<and> popcount (timeout_mask s) = ?n")
    case True
    then show ?thesis
      using inv by (auto simp: infuse_state_set_timeout_def spec_set_timeout_def find_timeout_slot wt
          card_with_timeout [OF inv])
  next
    case False
    then have spec: "spec_set_timeout ?n state t (states_abs s) = (states_abs s)(state \<mapsto> t)" and t0: "0 < t"
      by (auto simp: spec_set_timeout_def wt card_with_timeout [OF inv])
    show ?thesis
    proof (cases "slot s state")
      case (Some k)
      then show ?thesis
        using set_slot_timeout [OF inv Some t0 t] t0 slot_less [OF inv Some]
        by (simp add: infuse_state_set_timeout_def find_timeout_slot spec notify Let_def)
    next
      case None
      have "ffs (NOT (timeout_mask s)) - 1 < ?n \<and> \<not> bit (timeout_mask s) (ffs (NOT (timeout_mask s)) - 1)"
        using False None inv by (intro bits_below) (auto simp: states_inv_def)
      with add_slot [OF inv None t0 t] False None show ?thesis
        by (simp add: infuse_state_set_timeout_def find_timeout_slot spec notify Let_def)
    qed
  qed
  then show "states_inv ?r" "states_abs ?r = spec_set_timeout ?n state t (states_abs s)" by auto
qed

lemma not_with_timeout: "x \<notin> with_timeout m \<longleftrightarrow> m x = None \<or> m x = Some 0"
  by (cases "m x") (auto simp: with_timeout_def)

text \<open>One slot of a tick, then the whole loop.\<close>

definition tick_one :: "nat set \<Rightarrow> nat \<Rightarrow> state_map \<Rightarrow> state_map" where
  "tick_one snapshot x m = (\<lambda>y. if y = x then spec_tick snapshot m y else m y)"

lemma tick_slot_refines:
  assumes inv: "states_inv s" and k: "bit (timeout_mask s) k"
  defines "x \<equiv> ts_state (timeout_states s ! k)"
  shows "states_inv (tick_slot snapshot k s)"
    "states_abs (tick_slot snapshot k s) = tick_one snapshot x (states_abs s)"
    "j \<noteq> k \<Longrightarrow> bit (timeout_mask (tick_slot snapshot k s)) j = bit (timeout_mask s) j"
    "j \<noteq> k \<Longrightarrow> timeout_states (tick_slot snapshot k s) ! j = timeout_states s ! j"
proof -
  define t where "t = ts_timeout (timeout_states s ! k)"
  note kD = states_invD [OF inv k, folded x_def t_def]
  have sl: "slot s x = Some k" using k by (simp add: slot_Some [OF inv] x_def)
  have m: "states_abs s x = Some t" using kD sl by (simp add: states_abs_def t_def)
  have dec: "u16 (t + 65535) = t - 1" using kD by (simp add: u16_def mod_if)
  have "states_inv (tick_slot snapshot k s) \<and>
    states_abs (tick_slot snapshot k s) = tick_one snapshot x (states_abs s) \<and>
    (\<forall>j. j \<noteq> k \<longrightarrow> bit (timeout_mask (tick_slot snapshot k s)) j = bit (timeout_mask s) j \<and>
       timeout_states (tick_slot snapshot k s) ! j = timeout_states s ! j)"
  proof (cases "x \<in> snapshot")
    case False
    then show ?thesis using inv m by (auto simp: tick_slot_def tick_one_def spec_tick_def x_def [symmetric])
  next
    case snap: True
    show ?thesis
    proof (cases "t = 1")
      case False
      then have "0 < t - 1" "t - 1 < 65536" using kD by auto
      from set_slot_timeout [OF inv sl this] this snap m show ?thesis
        by (auto simp: tick_slot_def tick_one_def spec_tick_def x_def [symmetric] t_def [symmetric] dec Let_def)
    next
      case True
      define s' where "s' = (clear_timeout_state x s)\<lparr>application_states := application_states s - {x}\<rparr>"
      have rec: "r\<lparr>ts_timeout := 0, ts_state := 0\<rparr> = \<lparr>ts_state = 0, ts_timeout = 0\<rparr>" for r :: timeout_state
        by (cases r) simp
      have f: "application_states (tick_slot snapshot k s) = application_states s'"
        "timeout_states (tick_slot snapshot k s) = timeout_states s'"
        "timeout_mask (tick_slot snapshot k s) = timeout_mask s'"
        using True snap kD slot_less [OF inv sl]
        by (simp_all add: tick_slot_def x_def [symmetric] t_def [symmetric] dec Let_def s'_def
            clear_timeout_state_def find_timeout_slot sl rec u16_def)
      note c = clear_timeout_inv [OF inv order.refl, of x, folded s'_def]
      have "states_abs s' = tick_one snapshot x (states_abs s)"
        unfolding fun_eq_iff c(3) using snap m True by (simp add: tick_one_def spec_tick_def) (simp add: states_abs_def)
      moreover have "bit (timeout_mask s') j = bit (timeout_mask s) j \<and> timeout_states s' ! j = timeout_states s ! j"
        if "j \<noteq> k" for j
        using that kD slot_less [OF inv sl]
        by (simp add: s'_def clear_timeout_state_def find_timeout_slot sl bit_xor_iff)
      ultimately show ?thesis using states_cong [OF f] c(1) unfolding f by simp
    qed
  qed
  then show "states_inv (tick_slot snapshot k s)"
    "states_abs (tick_slot snapshot k s) = tick_one snapshot x (states_abs s)"
    "j \<noteq> k \<Longrightarrow> bit (timeout_mask (tick_slot snapshot k s)) j = bit (timeout_mask s) j"
    "j \<noteq> k \<Longrightarrow> timeout_states (tick_slot snapshot k s) ! j = timeout_states s ! j" by auto
qed

lemma tick_fold_refines:
  assumes "states_inv s" "distinct ks" "\<forall>k\<in>set ks. bit (timeout_mask s) k"
  shows "states_inv (fold (tick_slot snapshot) ks s) \<and>
    states_abs (fold (tick_slot snapshot) ks s) =
       (\<lambda>x. if x \<in> (\<lambda>k. ts_state (timeout_states s ! k)) ` set ks then spec_tick snapshot (states_abs s) x
            else states_abs s x)"
  using assms
proof (induction ks arbitrary: s)
  case (Cons k ks)
  let ?s = "tick_slot snapshot k s"
  have k: "bit (timeout_mask s) k" using Cons.prems by simp
  note t = tick_slot_refines [OF Cons.prems(1) k, where snapshot = snapshot]
  have ne: "j \<noteq> k" if "j \<in> set ks" for j using that Cons.prems by auto
  have b: "\<forall>j\<in>set ks. bit (timeout_mask ?s) j"
  proof
    fix j
    assume j: "j \<in> set ks"
    then have "bit (timeout_mask s) j" using Cons.prems(3) by simp
    then show "bit (timeout_mask ?s) j" by (simp only: t(3) [OF ne [OF j]])
  qed
  have ts: "timeout_states ?s ! j = timeout_states s ! j" if "j \<in> set ks" for j by (rule t(4) [OF ne [OF that]])
  have "distinct ks" using Cons.prems by simp
  note IH = Cons.IH [OF t(1) this b]
  define X I where "X = ts_state (timeout_states s ! k)" and "I = (\<lambda>j. ts_state (timeout_states s ! j)) ` set ks"
  have I: "(\<lambda>j. ts_state (timeout_states ?s ! j)) ` set ks = I"
  proof -
    have "ts_state (timeout_states ?s ! j) = ts_state (timeout_states s ! j)" if "j \<in> set ks" for j
      by (rule arg_cong [OF ts [OF that]])
    then show ?thesis unfolding I_def by (rule image_cong [OF refl])
  qed
  have X: "X \<notin> I"
  proof
    assume "X \<in> I"
    then obtain j where j: "j \<in> set ks" "ts_state (timeout_states s ! k) = ts_state (timeout_states s ! j)"
      unfolding X_def I_def by blast
    have "inj_on (\<lambda>k. ts_state (timeout_states s ! k)) {k. bit (timeout_mask s) k}"
      using Cons.prems(1) unfolding states_inv_def by blast
    from inj_onD [OF this j(2)] have "k = j" using k j(1) Cons.prems(3) by simp
    then show False using ne [OF j(1)] by simp
  qed
  have one: "states_abs ?s x = (if x = X then spec_tick snapshot (states_abs s) x else states_abs s x)" for x
    by (simp add: t(2) tick_one_def X_def)
  have "spec_tick snapshot (states_abs ?s) x = spec_tick snapshot (states_abs s) x" if "x \<in> I" for x
    using that X one [of x] by (auto simp: spec_tick_def)
  then have "states_abs (fold (tick_slot snapshot) ks ?s) =
      (\<lambda>x. if x \<in> insert X I then spec_tick snapshot (states_abs s) x else states_abs s x)"
    using IH X one unfolding I by auto
  then show ?case using IH by (simp add: X_def I_def)
qed auto

lemma infuse_states_tick_refines:
  assumes inv: "states_inv s"
  shows "states_inv (infuse_states_tick snapshot s)"
    "states_abs (infuse_states_tick snapshot s) = spec_tick snapshot (states_abs s)"
proof -
  have bits: "set (bits_of (timeout_mask s)) = {k. bit (timeout_mask s) k}" using bit_word32_less by auto
  note t = tick_fold_refines [OF inv distinct_bits_of [of "timeout_mask s"], of snapshot]
  show "states_inv (infuse_states_tick snapshot s)" using t bits by (simp add: infuse_states_tick_def tick_loop_fold)
  have "spec_tick snapshot (states_abs s) x = states_abs s x" if "x \<notin> with_timeout (states_abs s)" for x
    using that by (auto simp: not_with_timeout spec_tick_def)
  then show "states_abs (infuse_states_tick snapshot s) = spec_tick snapshot (states_abs s)"
    using t unfolding bits with_timeout_slots [OF inv, symmetric]
    by (auto simp: infuse_states_tick_def tick_loop_fold)
qed

subsection \<open>Sequences of operations\<close>

datatype 'w state_op =
    Op_set nat
  | Op_set_timeout nat nat
  | Op_clear nat
  | Op_tick "nat set"
  | Op_register "'w infuse_state_cb"
  | Op_unregister "'w infuse_state_cb"

fun exec_op :: "'w state_op \<Rightarrow> 'w app_states \<Rightarrow> 'w app_states" where
  "exec_op (Op_set state) s = snd (infuse_state_set state s)"
| "exec_op (Op_set_timeout state t) s = snd (infuse_state_set_timeout state (u16 t) s)"
| "exec_op (Op_clear state) s = snd (infuse_state_clear state s)"
| "exec_op (Op_tick snapshot) s = infuse_states_tick snapshot s"
| "exec_op (Op_register cb) s = infuse_state_register_callback cb s"
| "exec_op (Op_unregister cb) s = snd (infuse_state_unregister_callback cb s)"

fun spec_op :: "nat \<Rightarrow> 'w state_op \<Rightarrow> state_map \<Rightarrow> state_map" where
  "spec_op slots (Op_set state) m = m(state \<mapsto> 0)"
| "spec_op slots (Op_set_timeout state t) m = spec_set_timeout slots state (u16 t) m"
| "spec_op slots (Op_clear state) m = m(state := None)"
| "spec_op slots (Op_tick snapshot) m = spec_tick snapshot m"
| "spec_op slots (Op_register cb) m = m"
| "spec_op slots (Op_unregister cb) m = m"

lemma length_slots [simp]: "length (timeout_states (exec_op oper s)) = length (timeout_states s)"
proof -
  have clear: "length (timeout_states (clear_timeout_state state s)) = length (timeout_states s)" for state and s :: "'a app_states"
    by (simp add: clear_timeout_state_def Let_def)
  have "length (timeout_states (tick_slot sn k s)) = length (timeout_states s)" for sn k and s :: "'a app_states"
    by (simp add: tick_slot_def Let_def)
  then have "length (timeout_states (fold (tick_slot sn) ks s)) = length (timeout_states s)" for sn ks and s :: "'a app_states"
    by (induction ks arbitrary: s) simp_all
  then show ?thesis
    by (cases oper) (simp_all add: infuse_state_set_def infuse_state_set_timeout_def infuse_state_clear_def clear
        infuse_states_tick_def tick_loop_fold infuse_state_register_callback_def
        infuse_state_unregister_callback_def Let_def split_beta)
qed

lemma exec_op_refines:
  assumes inv: "states_inv s"
  shows "states_inv (exec_op oper s) \<and>
    states_abs (exec_op oper s) = spec_op (length (timeout_states s)) oper (states_abs s)"
proof (cases oper)
  case (Op_register cb)
  then show ?thesis using inv states_cong [of "exec_op oper s" s]
    by (simp add: infuse_state_register_callback_def)
next
  case (Op_unregister cb)
  then show ?thesis using inv states_cong [of "exec_op oper s" s]
    by (simp add: infuse_state_unregister_callback_def split_beta Let_def)
qed (simp_all add: infuse_state_set_refines [OF inv] infuse_state_set_timeout_refines [OF inv]
    infuse_state_clear_refines [OF inv] infuse_states_tick_refines [OF inv])

lemma get_timeout_abs:
  assumes inv: "states_inv s"
  shows "infuse_state_get_timeout state s = (case states_abs s state of None \<Rightarrow> Inl EINVAL | Some t \<Rightarrow> Inr t)"
  using slot_less [OF inv, of state]
  by (auto simp: infuse_state_get_timeout_def states_abs_def find_timeout_slot split: option.splits)

lemma states_init_inv: "n \<le> 32 \<Longrightarrow> states_inv (states_init n w) \<and> states_abs (states_init n w) = Map.empty"
  by (auto simp: states_inv_def states_init_def states_abs_def)

lemma exec_ops_refine:
  assumes "states_inv s"
  shows "states_inv (fold exec_op ops s) \<and>
    states_abs (fold exec_op ops s) = fold (spec_op (length (timeout_states s))) ops (states_abs s)"
  using assms by (induction ops arbitrary: s) (simp_all add: exec_op_refines)

text \<open>
  C16. The timeout slots and the application states stay consistent. After any sequence of operations from
  boot, with at most 32 timeout slots, every marked slot lies inside the array and belongs to a state that is
  set and has between one and 65535 seconds left, no state occupies two slots, and free slots are zero.
\<close>

theorem states_invariant:
  assumes "n \<le> 32"
  shows "states_inv (fold exec_op ops (states_init n w))"
  using exec_ops_refine [of "states_init n w" ops] states_init_inv [OF assms, of w] by simp

theorem states_invariant_witness:
  "(2 :: nat) \<le> 32 \<and>
   states_inv (fold exec_op [Op_set 5, Op_set_timeout 7 1, Op_set_timeout 5 60, Op_tick {5, 7}] (states_init 2 ()))"
  by (rule conjI, simp, rule states_invariant, simp)

text \<open>
  C6. The module implements its specification. The concrete operations on the bitmap, the slot array and the
  slot mask behave, under every sequence of calls from boot, as the operations of the specification on a map
  from states to remaining seconds; what the queries return is what the map holds.
\<close>

theorem states_refine:
  fixes ops :: "'w state_op list" and w :: 'w
  assumes "n \<le> 32"
  defines "s \<equiv> fold exec_op ops (states_init n w)"
  defines "m \<equiv> fold (spec_op n) ops Map.empty"
  shows "(\<forall>state. infuse_state_get state s \<longleftrightarrow> state \<in> dom m) \<and>
    infuse_states_snapshot s = dom m \<and>
    (\<forall>state. infuse_state_get_timeout state s = (case m state of None \<Rightarrow> Inl EINVAL | Some t \<Rightarrow> Inr t)) \<and>
    (\<forall>state. fst (infuse_state_set state s) \<longleftrightarrow> state \<in> dom m) \<and>
    (\<forall>state. fst (infuse_state_clear state s) \<longleftrightarrow> state \<in> dom m)"
proof -
  have len: "length (timeout_states (states_init n w)) = n" by (simp add: states_init_def)
  have init: "states_inv (states_init n w)" "states_abs (states_init n w) = Map.empty"
    using states_init_inv [OF assms(1), of w] by blast+
  have inv: "states_inv s" and m: "m = states_abs s"
    using exec_ops_refine [OF init(1), of ops] unfolding s_def m_def init(2) len by simp_all
  show ?thesis
  proof (intro conjI allI)
    fix state
    show "infuse_state_get_timeout state s = (case m state of None \<Rightarrow> Inl EINVAL | Some t \<Rightarrow> Inr t)"
      unfolding m by (rule get_timeout_abs [OF inv])
    show "infuse_state_get state s \<longleftrightarrow> state \<in> dom m"
      unfolding m by (simp add: infuse_state_get_def states_abs_def dom_def)
    show "infuse_states_snapshot s = dom m"
      unfolding m by (auto simp: infuse_states_snapshot_def states_abs_def dom_def)
    show "fst (infuse_state_set state s) \<longleftrightarrow> state \<in> dom m"
      unfolding m by (rule infuse_state_set_refines(3) [OF inv])
    show "fst (infuse_state_clear state s) \<longleftrightarrow> state \<in> dom m"
      unfolding m by (rule infuse_state_clear_refines(3) [OF inv])
  qed
qed

theorem states_refine_witness:
  "(1 :: nat) \<le> 32 \<and>
   infuse_state_get_timeout 7 (fold exec_op [Op_set_timeout 7 3, Op_tick {7}, Op_set_timeout 8 5] (states_init 1 ())) = Inr 2 \<and>
   infuse_state_get_timeout 8 (fold exec_op [Op_set_timeout 7 3, Op_tick {7}, Op_set_timeout 8 5] (states_init 1 ())) = Inl EINVAL"
proof -
  have "with_timeout [7 \<mapsto> 2] = {7}" by (auto simp: with_timeout_def split: if_splits)
  then have m: "fold (spec_op 1) [Op_set_timeout 7 3, Op_tick {7}, Op_set_timeout 8 5] Map.empty = [7 \<mapsto> 2]"
    by (auto simp: spec_set_timeout_def spec_tick_def with_timeout_def fun_eq_iff)
  show ?thesis
    using states_refine [of 1 "[Op_set_timeout 7 3, Op_tick {7}, Op_set_timeout 8 5]" "()"] unfolding m by simp
qed

subsection \<open>The interface to the other modules\<close>

text \<open>
  What the task runner and the modules that set states rely on: a view of the states that are set with
  the time they have left, and how the operations change it.
\<close>

locale state_service =
  fixes ok :: "'s \<Rightarrow> bool" and view :: "'s \<Rightarrow> state_map" and capacity :: "'s \<Rightarrow> nat"
    and set_for :: "nat \<Rightarrow> nat \<Rightarrow> 's \<Rightarrow> 's" and tick :: "nat set \<Rightarrow> 's \<Rightarrow> 's"
    and query :: "nat \<Rightarrow> 's \<Rightarrow> nat res"
  assumes ok_set_for: "ok s \<Longrightarrow> t < 65536 \<Longrightarrow> ok (set_for state t s)"
    and view_set_for: "ok s \<Longrightarrow> t < 65536 \<Longrightarrow>
      view (set_for state t s) = spec_set_timeout (capacity s) state t (view s)"
    and ok_tick: "ok s \<Longrightarrow> ok (tick snapshot s)"
    and view_tick: "ok s \<Longrightarrow> view (tick snapshot s) = spec_tick snapshot (view s)"
    and query_view: "ok s \<Longrightarrow> query state s = (case view s state of None \<Rightarrow> Inl EINVAL | Some t \<Rightarrow> Inr t)"
begin

lemma ok_ticks: "ok s \<Longrightarrow> ok (fold tick snaps s)"
  by (induction snaps arbitrary: s) (simp_all add: ok_tick)

lemma view_ticks:
  assumes "ok s" "view s state = Some t" "0 < t" "\<forall>snap\<in>set snaps. state \<in> snap"
  shows "view (fold tick snaps s) state = (if length snaps < t then Some (t - length snaps) else None)"
  using assms
proof (induction snaps arbitrary: s t)
  case (Cons snap snaps)
  show ?case
  proof (cases "t = 1")
    case True
    have "view (fold tick snaps s') state = None" if "ok s'" "view s' state = None" for s'
      using that by (induction snaps arbitrary: s') (simp_all add: ok_tick view_tick spec_tick_def)
    then show ?thesis using Cons.prems True by (simp add: view_tick ok_tick spec_tick_def)
  next
    case False
    then have "view (tick snap s) state = Some (t - 1)" "0 < t - 1"
      using Cons.prems by (auto simp: view_tick spec_tick_def)
    from Cons.IH [OF ok_tick [OF Cons.prems(1)] this] Cons.prems show ?thesis by auto
  qed
qed simp

lemma times_out:
  assumes "ok s" "0 < t" "t < 65536" "state \<in> with_timeout (view s) \<or> card (with_timeout (view s)) \<noteq> capacity s"
    "\<forall>snap\<in>set snaps. state \<in> snap"
  shows "query state (fold tick snaps (set_for state t s)) =
    (if length snaps < t then Inr (t - length snaps) else Inl EINVAL)"
proof -
  have "view (set_for state t s) state = Some t"
    using assms by (auto simp: view_set_for spec_set_timeout_def)
  then show ?thesis
    using view_ticks [OF ok_set_for [OF assms(1,3)] _ assms(2,5), of state] ok_ticks [OF ok_set_for [OF assms(1,3)]]
    by (simp add: query_view)
qed

end

interpretation infuse_states: state_service states_inv states_abs "\<lambda>s. length (timeout_states s)"
  "\<lambda>state t s. snd (infuse_state_set_timeout state t s)" infuse_states_tick infuse_state_get_timeout
  by unfold_locales
    (simp_all add: infuse_state_set_timeout_refines infuse_states_tick_refines get_timeout_abs)

text \<open>
  C17. A state set for \<open>t\<close> seconds is set for exactly \<open>t\<close> ticks. If a slot is free, or the state already has
  one, then after \<open>infuse_state_set_timeout\<close> the state stays set for each of the next \<open>t - 1\<close> ticks whose
  snapshot contains it, with one second less every time, and the \<open>t\<close>-th such tick clears it.
\<close>

theorem state_times_out:
  assumes "states_inv s" "0 < t" "t < 65536"
    "state \<in> with_timeout (states_abs s) \<or> card (with_timeout (states_abs s)) \<noteq> length (timeout_states s)"
    "\<forall>snap\<in>set snaps. state \<in> snap"
  shows "infuse_state_get_timeout state (fold infuse_states_tick snaps (snd (infuse_state_set_timeout state t s))) =
    (if length snaps < t then Inr (t - length snaps) else Inl EINVAL)"
  using assms by (rule infuse_states.times_out)

theorem state_times_out_witness:
  "infuse_state_get_timeout 9 (infuse_states_tick {9} (infuse_states_tick {4, 9}
     (snd (infuse_state_set_timeout 9 2 (states_init 8 ()))))) = Inl EINVAL"
proof -
  have "states_inv (states_init 8 ())" "states_abs (states_init 8 ()) = Map.empty"
    using states_init_inv [of 8 "()"] by auto
  then show ?thesis
    using state_times_out [of "states_init 8 ()" 2 9 "[{4, 9}, {9}]"]
    by (simp add: with_timeout_def states_init_def)
qed

end
