(* ===== verification/Task_Schedule.thy ===== *)
theory Task_Schedule
  imports App_States Math_Common
begin

text \<open>
  Schedules of the task runner, \<open>subsys/task_runner/schedule.c\<close> and \<open>task_runner/schedule.h\<close>: the packed
  schedule structure, its validation, the conditions on application states, and the decisions when a
  task starts and when it is asked to terminate. Operations that C leaves undefined (a remainder by zero,
  signed overflow) are the result \<open>None\<close>; a validated schedule never reaches them.
\<close>

subsection \<open>Data\<close>

record state_conditions =
  sc_metadata :: byte
  sc_states :: "nat list"

text \<open>
  The union of the periodicity parameters is kept as its six bytes; the members read them the way the
  packed structures overlay them. The logging configuration and the task arguments are not looked at here.
\<close>

record task_schedule =
  sc_task_id :: nat
  sc_validity :: byte
  sc_periodicity_type :: nat
  sc_boot_lockout_minutes :: nat
  sc_timeout_s :: nat
  sc_start_lower :: nat
  sc_start_upper :: nat
  sc_terminate_lower :: nat
  sc_terminate_upper :: nat
  sc_periodicity :: "byte list"
  sc_states_start_timeout_2x_s :: nat
  sc_states_start :: state_conditions
  sc_states_terminate :: state_conditions
  sc_logging_args :: "byte list"

definition fixed_period_s :: "task_schedule \<Rightarrow> nat" where
  "fixed_period_s s = le_at 0 4 (sc_periodicity s)"

definition lockout_lockout_s :: "task_schedule \<Rightarrow> nat" where
  "lockout_lockout_s s = le_at 0 4 (sc_periodicity s)"

definition after_schedule_idx :: "task_schedule \<Rightarrow> nat" where
  "after_schedule_idx s = le_at 0 1 (sc_periodicity s)"

definition after_duration_s :: "task_schedule \<Rightarrow> nat" where
  "after_duration_s s = le_at 1 2 (sc_periodicity s)"

definition ldb_lockout_min :: "task_schedule \<Rightarrow> nat" where
  "ldb_lockout_min s = le_at 0 2 (sc_periodicity s)"

definition ldb_lockout_max :: "task_schedule \<Rightarrow> nat" where
  "ldb_lockout_max s = le_at 2 2 (sc_periodicity s)"

definition ldb_battery_min :: "task_schedule \<Rightarrow> nat" where
  "ldb_battery_min s = le_at 4 1 (sc_periodicity s)"

definition ldb_battery_max :: "task_schedule \<Rightarrow> nat" where
  "ldb_battery_max s = le_at 5 1 (sc_periodicity s)"

definition TASK_LOCKED :: byte where "TASK_LOCKED = 0x80"
definition TASK_VALID_ALWAYS :: nat where "TASK_VALID_ALWAYS = 1"
definition TASK_VALID_ACTIVE :: nat where "TASK_VALID_ACTIVE = 2"
definition TASK_VALID_INACTIVE :: nat where "TASK_VALID_INACTIVE = 3"
definition TASK_VALID_PERMANENTLY_RUNS :: nat where "TASK_VALID_PERMANENTLY_RUNS = 4"
definition TASK_VALID_END :: nat where "TASK_VALID_END = 5"
definition TASK_PERIODICITY_FIXED :: nat where "TASK_PERIODICITY_FIXED = 1"
definition TASK_PERIODICITY_LOCKOUT :: nat where "TASK_PERIODICITY_LOCKOUT = 2"
definition TASK_PERIODICITY_AFTER :: nat where "TASK_PERIODICITY_AFTER = 3"
definition TASK_PERIODICITY_LOCKOUT_DYNAMIC_BATTERY :: nat where "TASK_PERIODICITY_LOCKOUT_DYNAMIC_BATTERY = 4"
definition TASK_PERIODICITY_END :: nat where "TASK_PERIODICITY_END = 5"

lemmas task_consts =
  TASK_LOCKED_def TASK_VALID_ALWAYS_def TASK_VALID_ACTIVE_def TASK_VALID_INACTIVE_def
  TASK_VALID_PERMANENTLY_RUNS_def TASK_VALID_END_def TASK_PERIODICITY_FIXED_def
  TASK_PERIODICITY_LOCKOUT_def TASK_PERIODICITY_AFTER_def
  TASK_PERIODICITY_LOCKOUT_DYNAMIC_BATTERY_def TASK_PERIODICITY_END_def

definition validity_masked :: "task_schedule \<Rightarrow> nat" where
  "validity_masked s = unat (sc_validity s AND 0x7F)"

text \<open>
  The state of a schedule. \<open>linked\<close> and \<open>event_cb\<close> are pointers: the index of another schedule's state, and
  the identity of an application callback.
\<close>

record task_schedule_state =
  ss_linked :: "nat option"
  ss_event_cb :: "nat option"
  ss_last_run :: nat
  ss_runtime :: nat
  ss_last_terminate :: nat
  ss_task_idx :: nat

definition INFUSE_STATE_APPLICATION_ACTIVE :: nat where "INFUSE_STATE_APPLICATION_ACTIVE = 2"

subsection \<open>State conditions\<close>

fun states_eval_loop :: "byte \<Rightarrow> nat set \<Rightarrow> (nat \<times> nat) list \<Rightarrow> bool \<Rightarrow> bool" where
  "states_eval_loop metadata app_states [] result = result"
| "states_eval_loop metadata app_states ((i, state_idx) # rest) result =
     (if state_idx = 0 then result
      else
        (let state_val = (state_idx \<in> app_states);
             state_val = (if bit metadata i then \<not> state_val else state_val);
             or_cond = bit metadata (i + 4);
             result = (if or_cond then result \<or> state_val else result \<and> state_val)
         in states_eval_loop metadata app_states rest result))"

definition task_schedule_states_eval :: "state_conditions \<Rightarrow> nat set \<Rightarrow> bool \<Rightarrow> bool" where
  "task_schedule_states_eval states app_states fallthrough =
     (if sc_states states ! 0 = 0 then fallthrough
      else states_eval_loop (sc_metadata states) app_states (enumerate 0 (sc_states states))
             (\<not> bit (sc_metadata states) 4))"

text \<open>
  \<open>TASK_STATES_DEFINE\<close>: a state with the flags \<open>TR_NOT\<close> and \<open>TR_OR\<close> per argument.
\<close>

definition TR_NOT :: word16 where "TR_NOT = 0x100"
definition TR_OR :: word16 where "TR_OR = 0x200"

definition tr_bit :: "word16 \<Rightarrow> word16 \<Rightarrow> nat \<Rightarrow> byte" where
  "tr_bit flag state idx = (if state AND flag \<noteq> 0 then push_bit idx 1 else 0)"

definition tr_states_define_all :: "word16 \<Rightarrow> word16 \<Rightarrow> word16 \<Rightarrow> word16 \<Rightarrow> state_conditions" where
  "tr_states_define_all s0 s1 s2 s3 =
     \<lparr>sc_metadata = tr_bit TR_NOT s0 0 OR tr_bit TR_NOT s1 1 OR tr_bit TR_NOT s2 2 OR tr_bit TR_NOT s3 3 OR
                    tr_bit TR_OR s0 4 OR tr_bit TR_OR s1 5 OR tr_bit TR_OR s2 6 OR tr_bit TR_OR s3 7,
      sc_states = [unat (s0 AND 0xFF), unat (s1 AND 0xFF), unat (s2 AND 0xFF), unat (s3 AND 0xFF)]\<rparr>"

subsection \<open>Validation\<close>

definition task_schedule_validate :: "task_schedule \<Rightarrow> bool" where
  "task_schedule_validate schedule =
     (let validity = validity_masked schedule; ptype = sc_periodicity_type schedule in
      if validity = 0 then False
      else if validity \<ge> TASK_VALID_END then False
      else if ptype \<ge> TASK_PERIODICITY_END then False
      else if ptype = TASK_PERIODICITY_FIXED \<and> fixed_period_s schedule = 0 then False
      else if ptype = TASK_PERIODICITY_LOCKOUT \<and> lockout_lockout_s schedule = 0 then False
      else if ptype = TASK_PERIODICITY_LOCKOUT_DYNAMIC_BATTERY \<and>
              (ldb_battery_min schedule \<ge> ldb_battery_max schedule \<or> ldb_lockout_min schedule = 0 \<or>
               ldb_lockout_max schedule = 0) then False
      else if sc_start_lower schedule > 100 \<or> sc_start_upper schedule > 100 \<or>
              sc_terminate_lower schedule > 100 \<or> sc_terminate_upper schedule > 100 then False
      else if sc_start_lower schedule \<noteq> 0 \<and> sc_start_upper schedule \<noteq> 0 \<and>
              sc_start_upper schedule \<le> sc_start_lower schedule then False
      else if sc_terminate_lower schedule \<noteq> 0 \<and> sc_terminate_upper schedule \<noteq> 0 \<and>
              sc_terminate_upper schedule \<le> sc_terminate_lower schedule then False
      else True)"

subsection \<open>Start and termination\<close>

definition TASK_RUNNER_LOCKOUT_IGNORE_FIRST :: nat where
  "TASK_RUNNER_LOCKOUT_IGNORE_FIRST = 2 ^ 31"

text \<open>The lockout, before the flag is split off: \<open>None\<close> on signed overflow of the interpolation.\<close>

definition lockout_value :: "bool \<Rightarrow> task_schedule \<Rightarrow> nat \<Rightarrow> nat option" where
  "lockout_value config_assert schedule battery_soc =
     (if sc_periodicity_type schedule = TASK_PERIODICITY_LOCKOUT then Some (lockout_lockout_s schedule)
      else if battery_soc \<le> ldb_battery_min schedule then Some (ldb_lockout_min schedule)
      else if battery_soc \<ge> ldb_battery_max schedule then Some (ldb_lockout_max schedule)
      else map_option (\<lambda>v. nat (v mod 2 ^ 32))
             (math_2d_linear_interpolate_fast config_assert
                (int (ldb_battery_min schedule)) (int (ldb_battery_max schedule))
                (int (ldb_lockout_min schedule)) (int (ldb_lockout_max schedule)) (int battery_soc)))"

definition since_last_run :: "nat \<Rightarrow> task_schedule_state \<Rightarrow> nat" where
  "since_last_run uptime state = u32 (uptime + (2 ^ 32 - ss_last_run state))"

text \<open>The periodicity condition; \<open>linked\<close> is the state that \<open>state->linked\<close> points to.\<close>

definition start_periodicity ::
  "bool \<Rightarrow> task_schedule \<Rightarrow> task_schedule_state \<Rightarrow> task_schedule_state option \<Rightarrow> nat \<Rightarrow> nat \<Rightarrow> nat \<Rightarrow> bool option" where
  "start_periodicity config_assert schedule state linked uptime epoch_time battery_soc =
     (let ptype = sc_periodicity_type schedule in
      if ptype = TASK_PERIODICITY_FIXED then
        (if fixed_period_s schedule = 0 then None else Some (epoch_time mod fixed_period_s schedule = 0))
      else if ptype = TASK_PERIODICITY_LOCKOUT \<or> ptype = TASK_PERIODICITY_LOCKOUT_DYNAMIC_BATTERY then
        map_option (\<lambda>lockout_val.
          let ignore_first = (lockout_val \<ge> TASK_RUNNER_LOCKOUT_IGNORE_FIRST);
              lockout_val = lockout_val mod TASK_RUNNER_LOCKOUT_IGNORE_FIRST
          in since_last_run uptime state \<ge> lockout_val \<or> ignore_first \<and> ss_last_run state = 0 \<and> uptime \<noteq> 0)
          (lockout_value config_assert schedule battery_soc)
      else if ptype = TASK_PERIODICITY_AFTER then
        Some (case linked of
                None \<Rightarrow> False
              | Some l \<Rightarrow> ss_last_terminate l \<noteq> 0 \<and> u32 (ss_last_terminate l + after_duration_s schedule) = uptime)
      else Some True)"

definition task_schedule_should_start ::
  "bool \<Rightarrow> task_schedule \<Rightarrow> task_schedule_state \<Rightarrow> task_schedule_state option \<Rightarrow> nat set \<Rightarrow> nat \<Rightarrow> nat \<Rightarrow> nat \<Rightarrow> bool option" where
  "task_schedule_should_start config_assert schedule state linked app_states uptime epoch_time battery_soc =
     (let is_active = (INFUSE_STATE_APPLICATION_ACTIVE \<in> app_states) in
      if INFUSE_STATE_REBOOTING \<in> app_states then Some False
      else if validity_masked schedule = TASK_VALID_ACTIVE \<and> \<not> is_active then Some False
      else if validity_masked schedule = TASK_VALID_INACTIVE \<and> is_active then Some False
      else if sc_boot_lockout_minutes schedule \<noteq> 0 \<and> uptime div 60 < sc_boot_lockout_minutes schedule then Some False
      else
        map_option (\<lambda>periodicity.
          let battery_lower = (sc_start_lower schedule = 0 \<or> battery_soc \<ge> sc_start_lower schedule);
              battery_upper = (sc_start_upper schedule = 0 \<or> battery_soc \<le> sc_start_upper schedule);
              states = (sc_states_start_timeout_2x_s schedule \<noteq> 0 \<and>
                          since_last_run uptime state \<ge> 2 * sc_states_start_timeout_2x_s schedule \<or>
                        task_schedule_states_eval (sc_states_start schedule) app_states True)
          in periodicity \<and> battery_lower \<and> battery_upper \<and> states)
          (start_periodicity config_assert schedule state linked uptime epoch_time battery_soc))"

definition task_schedule_should_terminate ::
  "task_schedule \<Rightarrow> task_schedule_state \<Rightarrow> nat set \<Rightarrow> nat \<Rightarrow> nat \<Rightarrow> nat \<Rightarrow> bool" where
  "task_schedule_should_terminate schedule state app_states uptime epoch_time battery_soc =
     (let is_active = (INFUSE_STATE_APPLICATION_ACTIVE \<in> app_states) in
      if INFUSE_STATE_REBOOTING \<in> app_states then True
      else if validity_masked schedule = TASK_VALID_ACTIVE \<and> \<not> is_active then True
      else if validity_masked schedule = TASK_VALID_INACTIVE \<and> is_active then True
      else
        (let periodicity = (sc_timeout_s schedule \<noteq> 0 \<and> ss_runtime state \<ge> sc_timeout_s schedule);
             battery_lower = (sc_terminate_lower schedule \<noteq> 0 \<and> battery_soc \<le> sc_terminate_lower schedule);
             battery_upper = (sc_terminate_upper schedule \<noteq> 0 \<and> battery_soc \<ge> sc_terminate_upper schedule);
             states = task_schedule_states_eval (sc_states_terminate schedule) app_states False
         in periodicity \<or> battery_lower \<or> battery_upper \<or> states))"

subsection \<open>A validated schedule evaluates\<close>

lemma ldb_bounds:
  "ldb_lockout_min s < 65536" "ldb_lockout_max s < 65536" "ldb_battery_min s < 256" "ldb_battery_max s < 256"
  using le_at_less [of _ 2 "sc_periodicity s"] le_at_less [of _ 1 "sc_periodicity s"]
  by (simp_all add: ldb_lockout_min_def ldb_lockout_max_def ldb_battery_min_def ldb_battery_max_def)

lemma validate_cases:
  assumes "task_schedule_validate s"
  shows "sc_periodicity_type s = TASK_PERIODICITY_FIXED \<Longrightarrow> fixed_period_s s \<noteq> 0"
    "sc_periodicity_type s = TASK_PERIODICITY_LOCKOUT_DYNAMIC_BATTERY \<Longrightarrow> ldb_battery_min s < ldb_battery_max s"
    "validity_masked s \<in> {TASK_VALID_ALWAYS, TASK_VALID_ACTIVE, TASK_VALID_INACTIVE, TASK_VALID_PERMANENTLY_RUNS}"
    "sc_periodicity_type s < TASK_PERIODICITY_END"
proof -
  have "(if c then False else d) \<longleftrightarrow> \<not> c \<and> d" for c d by simp
  note v = assms [unfolded task_schedule_validate_def Let_def this]
  show "sc_periodicity_type s = TASK_PERIODICITY_FIXED \<Longrightarrow> fixed_period_s s \<noteq> 0"
    "sc_periodicity_type s = TASK_PERIODICITY_LOCKOUT_DYNAMIC_BATTERY \<Longrightarrow> ldb_battery_min s < ldb_battery_max s"
    "sc_periodicity_type s < TASK_PERIODICITY_END"
    using v by (simp_all only: not_le de_Morgan_conj de_Morgan_disj) blast+
  have "validity_masked s \<noteq> 0" "validity_masked s < 5" using v by (simp_all only: TASK_VALID_END_def not_le) blast+
  then have "validity_masked s = 1 \<or> validity_masked s = 2 \<or> validity_masked s = 3 \<or> validity_masked s = 4" by linarith
  then show "validity_masked s \<in> {TASK_VALID_ALWAYS, TASK_VALID_ACTIVE, TASK_VALID_INACTIVE, TASK_VALID_PERMANENTLY_RUNS}"
    by (auto simp: task_consts)
qed

lemma lockout_value_bounds:
  assumes "task_schedule_validate s" "sc_periodicity_type s = TASK_PERIODICITY_LOCKOUT_DYNAMIC_BATTERY"
  shows "\<exists>v. lockout_value ca s soc = Some v \<and>
    min (ldb_lockout_min s) (ldb_lockout_max s) \<le> v \<and> v \<le> max (ldb_lockout_min s) (ldb_lockout_max s)"
proof (cases "soc \<le> ldb_battery_min s \<or> ldb_battery_max s \<le> soc")
  case True
  then show ?thesis using assms(2) by (auto simp: lockout_value_def task_consts)
next
  case False
  define x0 x1 y0 y1 where "x0 = int (ldb_battery_min s)" and "x1 = int (ldb_battery_max s)"
    and "y0 = int (ldb_lockout_min s)" and "y1 = int (ldb_lockout_max s)"
  define r where "r = y0 + ((y1 - y0) * (int soc - x0)) sdiv (x1 - x0)"
  have b: "0 \<le> y0" "y0 < 65536" "0 \<le> y1" "y1 < 65536" "0 \<le> x0" "x0 < int soc" "int soc < x1" "x1 < 256"
    using False ldb_bounds [of s] by (auto simp: x0_def x1_def y0_def y1_def)
  have eq: "math_2d_linear_interpolate_fast ca x0 x1 y0 y1 (int soc) = Some r"
    unfolding r_def using b by (intro interpolate_no_overflow [where A = 65536 and B = 256]) auto
  have "x0 \<noteq> x1" "min x0 x1 \<le> int soc" "int soc \<le> max x0 x1" using b by auto
  note bt = interpolated_between(1,2) [OF this, of y0 y1, folded r_def]
  then have r: "0 \<le> r" "r < 65536" using b by (auto simp: min_def max_def split: if_splits)
  have "lockout_value ca s soc = Some (nat (r mod 2 ^ 32))"
    using False assms(2) eq by (simp add: lockout_value_def task_consts x0_def x1_def y0_def y1_def)
  moreover have "r mod 2 ^ 32 = r" using r by simp
  moreover have "min (ldb_lockout_min s) (ldb_lockout_max s) \<le> nat r \<and> nat r \<le> max (ldb_lockout_min s) (ldb_lockout_max s)"
    using bt r unfolding y0_def y1_def by (auto simp: min_def max_def split: if_splits)
  ultimately show ?thesis by simp
qed

lemma should_start_total:
  assumes "task_schedule_validate s"
  shows "\<exists>b. task_schedule_should_start ca s st linked app up ep soc = Some b"
proof -
  have "\<exists>v. lockout_value ca s soc = Some v"
    if "sc_periodicity_type s = TASK_PERIODICITY_LOCKOUT \<or> sc_periodicity_type s = TASK_PERIODICITY_LOCKOUT_DYNAMIC_BATTERY"
  proof (cases "sc_periodicity_type s = TASK_PERIODICITY_LOCKOUT")
    case False
    then show ?thesis using that lockout_value_bounds [OF assms] by blast
  qed (simp add: lockout_value_def)
  then have "\<exists>p. start_periodicity ca s st linked up ep soc = Some p"
    using validate_cases(1) [OF assms] unfolding start_periodicity_def Let_def by auto
  then show ?thesis unfolding task_schedule_should_start_def Let_def by auto
qed

text \<open>
  C21. Validation is sufficient. For a schedule that \<open>task_schedule_validate\<close> accepts, the start decision is
  always defined: no remainder by zero and no signed overflow, whatever the battery charge, the times and the
  application states; and the dynamic lockout always lies between the two configured lockouts.
\<close>

theorem validated_schedule_evaluates:
  assumes "task_schedule_validate s"
  shows "(\<exists>b. task_schedule_should_start ca s st linked app up ep soc = Some b) \<and>
    (sc_periodicity_type s = TASK_PERIODICITY_LOCKOUT_DYNAMIC_BATTERY \<longrightarrow>
      (\<exists>v. lockout_value ca s soc = Some v \<and>
        min (ldb_lockout_min s) (ldb_lockout_max s) \<le> v \<and> v \<le> max (ldb_lockout_min s) (ldb_lockout_max s)))"
  using should_start_total [OF assms] lockout_value_bounds [OF assms] by blast

definition example_schedule :: task_schedule where
  "example_schedule =
     \<lparr>sc_task_id = 10, sc_validity = 1, sc_periodicity_type = 4, sc_boot_lockout_minutes = 0, sc_timeout_s = 30,
      sc_start_lower = 20, sc_start_upper = 0, sc_terminate_lower = 0, sc_terminate_upper = 0,
      sc_periodicity = [0x10, 0x0E, 0x3C, 0, 20, 80], sc_states_start_timeout_2x_s = 0,
      sc_states_start = \<lparr>sc_metadata = 0, sc_states = [0, 0, 0, 0]\<rparr>,
      sc_states_terminate = \<lparr>sc_metadata = 0, sc_states = [0, 0, 0, 0]\<rparr>, sc_logging_args = []\<rparr>"

theorem validated_schedule_evaluates_witness:
  "task_schedule_validate example_schedule \<and>
   (\<exists>b. task_schedule_should_start False example_schedule \<lparr>ss_linked = None, ss_event_cb = None, ss_last_run = 0,
      ss_runtime = 0, ss_last_terminate = 0, ss_task_idx = 0\<rparr> None {2} 1000 0 50 = Some b) \<and>
   (\<exists>v. lockout_value False example_schedule 50 = Some v \<and> 60 \<le> v \<and> v \<le> 3600)"
proof -
  have v: "task_schedule_validate example_schedule" by code_simp
  have f: "sc_periodicity_type example_schedule = TASK_PERIODICITY_LOCKOUT_DYNAMIC_BATTERY"
    "ldb_lockout_min example_schedule = 3600" "ldb_lockout_max example_schedule = 60" by code_simp+
  from validated_schedule_evaluates [OF v, of False _ None "{2}" 1000 0 50] show ?thesis using v by (simp add: f)
qed

subsection \<open>State conditions mean what they say\<close>

text \<open>
  The documented meaning of \<open>TASK_STATES_DEFINE\<close>: the arguments are states that may be negated, combined from
  the left, each with \<open>OR\<close> where its flag says so and with \<open>AND\<close> otherwise.
\<close>

record tr_term =
  tt_state :: nat
  tt_not :: bool
  tt_or :: bool

definition tr_arg :: "tr_term \<Rightarrow> word16" where
  "tr_arg t = word_of_nat (tt_state t) OR (if tt_not t then TR_NOT else 0) OR (if tt_or t then TR_OR else 0)"

definition tr_value :: "nat set \<Rightarrow> tr_term \<Rightarrow> bool" where
  "tr_value app t = ((tt_state t \<in> app) \<noteq> tt_not t)"

fun tr_meaning :: "nat set \<Rightarrow> tr_term list \<Rightarrow> bool" where
  "tr_meaning app [] = True"
| "tr_meaning app (t # ts) =
     foldl (\<lambda>acc u. if tt_or u then acc \<or> tr_value app u else acc \<and> tr_value app u) (tr_value app t) ts"

definition tr_define :: "tr_term list \<Rightarrow> state_conditions" where
  "tr_define ts =
     (let arg = (\<lambda>i. if i < length ts then tr_arg (ts ! i) else 0)
      in tr_states_define_all (arg 0) (arg 1) (arg 2) (arg 3))"

lemma word16_and_single: "(w AND push_bit k 1 \<noteq> 0) = bit (w :: word16) k" if "k < 16"
  using that by (auto simp: bit_eq_iff [where ?'a = word16] bit_simps)

lemma word_of_nat_bit_high: "n < 256 \<Longrightarrow> 8 \<le> k \<Longrightarrow> \<not> bit (word_of_nat n :: word16) k"
proof -
  assume "n < 256" "8 \<le> k"
  have "take_bit 8 n = n" using \<open>n < 256\<close> by (simp add: take_bit_eq_mod)
  then have "\<not> bit n k" using \<open>8 \<le> k\<close> by (metis bit_take_bit_iff not_le)
  moreover have "unat (word_of_nat n :: word16) = n" using \<open>n < 256\<close> by (simp add: unat_of_nat)
  ultimately show ?thesis by (metis bit_unsigned_iff possible_bit_nat)
qed

lemma tr_arg_flags:
  assumes "tt_state t < 256"
  shows "tr_arg t AND TR_NOT \<noteq> 0 \<longleftrightarrow> tt_not t" "tr_arg t AND TR_OR \<noteq> 0 \<longleftrightarrow> tt_or t" "unat (tr_arg t AND 0xFF) = tt_state t"
proof -
  have c: "TR_NOT = push_bit 8 1" "TR_OR = push_bit 9 1" by (simp_all add: TR_NOT_def TR_OR_def)
  have b: "bit (tr_arg t) k \<longleftrightarrow> bit (word_of_nat (tt_state t) :: word16) k \<or> (tt_not t \<and> k = 8) \<or> (tt_or t \<and> k = 9)" for k
  proof -
    have "bit TR_NOT k \<longleftrightarrow> k = 8" "bit TR_OR k \<longleftrightarrow> k = 9"
      unfolding c by (auto simp only: bit_push_bit_iff bit_1_iff possible_bit_word) simp_all
    then show ?thesis by (auto simp: tr_arg_def bit_or_iff)
  qed
  show "tr_arg t AND TR_NOT \<noteq> 0 \<longleftrightarrow> tt_not t" "tr_arg t AND TR_OR \<noteq> 0 \<longleftrightarrow> tt_or t"
    unfolding c using word_of_nat_bit_high [OF assms] by (simp_all add: word16_and_single b del: push_bit_of_1)
  have "tr_arg t AND 0xFF = word_of_nat (tt_state t)"
  proof (rule bit_word_eqI)
    fix k assume "k < LENGTH(16)"
    have "(0xFF :: word16) = mask 8" by (simp add: mask_eq_exp_minus_1)
    then have "bit (tr_arg t AND 0xFF) k \<longleftrightarrow> bit (tr_arg t) k \<and> k < 8"
      using \<open>k < LENGTH(16)\<close> by (simp only: bit_and_iff bit_mask_iff possible_bit_word) auto
    also have "\<dots> \<longleftrightarrow> bit (word_of_nat (tt_state t) :: word16) k"
      using word_of_nat_bit_high [OF assms, of k] by (cases "k < 8") (auto simp: b)
    finally show "bit (tr_arg t AND 0xFF) k = bit (word_of_nat (tt_state t) :: word16) k" .
  qed
  then show "unat (tr_arg t AND 0xFF) = tt_state t" using assms by (simp add: unat_of_nat)
qed

lemma bit_tr_bit:
  assumes "i < 8"
  shows "bit (tr_bit flag state i) k \<longleftrightarrow> k = i \<and> state AND flag \<noteq> 0"
proof -
  have "bit (push_bit i 1 :: byte) k \<longleftrightarrow> k = i"
    using assms by (simp only: bit_push_bit_iff bit_1_iff possible_bit_word) auto
  then show ?thesis by (auto simp: tr_bit_def)
qed

lemma tr_define_all_bits:
  fixes s0 s1 s2 s3
  defines "m \<equiv> sc_metadata (tr_states_define_all s0 s1 s2 s3)"
  shows "bit m 0 = (s0 AND TR_NOT \<noteq> 0)" "bit m 1 = (s1 AND TR_NOT \<noteq> 0)" "bit m 2 = (s2 AND TR_NOT \<noteq> 0)"
    "bit m 3 = (s3 AND TR_NOT \<noteq> 0)" "bit m 4 = (s0 AND TR_OR \<noteq> 0)" "bit m 5 = (s1 AND TR_OR \<noteq> 0)"
    "bit m 6 = (s2 AND TR_OR \<noteq> 0)" "bit m 7 = (s3 AND TR_OR \<noteq> 0)"
  unfolding m_def tr_states_define_all_def state_conditions.select_convs bit_or_iff by (simp_all add: bit_tr_bit)

text \<open>One argument of the evaluation loop, and the loop over the four of them.\<close>

definition tr_apply :: "nat set \<Rightarrow> word16 \<Rightarrow> bool \<Rightarrow> bool" where
  "tr_apply app s acc =
     (let v = ((unat (s AND 0xFF) \<in> app) \<noteq> (s AND TR_NOT \<noteq> 0)) in if s AND TR_OR \<noteq> 0 then acc \<or> v else acc \<and> v)"

definition cond_step :: "byte \<Rightarrow> nat set \<Rightarrow> nat \<Rightarrow> nat \<Rightarrow> bool \<Rightarrow> bool" where
  "cond_step m app i idx r =
     (let v = ((idx \<in> app) \<noteq> bit m i) in if bit m (i + 4) then r \<or> v else r \<and> v)"

lemma states_eval_loop_step:
  "states_eval_loop m app ((i, idx) # rest) r =
     (if idx = 0 then r else states_eval_loop m app rest (cond_step m app i idx r))"
  by (cases "bit m i"; cases "bit m (i + 4)") (simp_all add: cond_step_def Let_def)

lemma eval_defined:
  "task_schedule_states_eval (tr_states_define_all s0 s1 s2 s3) app fallthrough =
     (if unat (s0 AND 0xFF) = 0 then fallthrough
      else let r0 = ((unat (s0 AND 0xFF) \<in> app) \<noteq> (s0 AND TR_NOT \<noteq> 0)) in
        if unat (s1 AND 0xFF) = 0 then r0 else let r1 = tr_apply app s1 r0 in
        if unat (s2 AND 0xFF) = 0 then r1 else let r2 = tr_apply app s2 r1 in
        if unat (s3 AND 0xFF) = 0 then r2 else tr_apply app s3 r2)"
proof -
  define m where "m = sc_metadata (tr_states_define_all s0 s1 s2 s3)"
  define a0 a1 a2 a3 where "a0 = unat (s0 AND 0xFF)" and "a1 = unat (s1 AND 0xFF)"
    and "a2 = unat (s2 AND 0xFF)" and "a3 = unat (s3 AND 0xFF)"
  note b = tr_define_all_bits [of s0 s1 s2 s3, folded m_def]
  have st: "sc_states (tr_states_define_all s0 s1 s2 s3) = [a0, a1, a2, a3]"
    by (simp add: tr_states_define_all_def a0_def a1_def a2_def a3_def)
  have e: "enumerate 0 [w, x, y, z] = [(0, w), (1, x), (2, y), (3, z)]" for w x y z :: nat by simp
  have n: "(0 :: nat) + 4 = 4" "(1 :: nat) + 4 = 5" "(2 :: nat) + 4 = 6" "(3 :: nat) + 4 = 7" by simp_all
  have r0: "cond_step m app 0 a0 (\<not> bit m 4) = ((a0 \<in> app) \<noteq> (s0 AND TR_NOT \<noteq> 0))"
    unfolding cond_step_def n b Let_def by (cases "s0 AND TR_OR = 0") simp_all
  have r: "cond_step m app 1 a1 = tr_apply app s1" "cond_step m app 2 a2 = tr_apply app s2"
    "cond_step m app 3 a3 = tr_apply app s3"
    unfolding fun_eq_iff cond_step_def n b tr_apply_def a1_def a2_def a3_def by (rule allI, rule refl)+
  show ?thesis
    unfolding task_schedule_states_eval_def st m_def [symmetric] e nth_Cons_0 states_eval_loop_step r0 r Let_def
      a0_def [symmetric] a1_def [symmetric] a2_def [symmetric] a3_def [symmetric] states_eval_loop.simps(1)
    by (cases "a0 = 0") simp_all
qed

lemma tr_apply_arg:
  "tt_state t < 256 \<Longrightarrow>
   tr_apply app (tr_arg t) acc = (if tt_or t then acc \<or> tr_value app t else acc \<and> tr_value app t)"
  by (simp add: tr_apply_def tr_arg_flags tr_value_def)

lemma list_upto4:
  assumes "xs \<noteq> []" "length xs \<le> 4"
  obtains a where "xs = [a]" | a b where "xs = [a, b]" | a b c where "xs = [a, b, c]" | a b c d where "xs = [a, b, c, d]"
  using assms by (cases xs; cases "tl xs"; cases "tl (tl xs)"; cases "tl (tl (tl xs))") auto

text \<open>
  C20. State conditions evaluate as written. A condition built by \<open>TASK_STATES_DEFINE\<close> from one to four
  states, each possibly negated and each but the first combined by \<open>AND\<close> or \<open>OR\<close>, evaluates to the value of
  the expression associated from the left; an \<open>OR\<close> on the first state has no effect. (The comment on
  \<open>task_schedule_state_conditions\<close> only speaks of the conjunction of the states, possibly inverted.)
\<close>

theorem states_eval_meaning:
  assumes "ts \<noteq> []" "length ts \<le> 4" "\<forall>t\<in>set ts. 0 < tt_state t \<and> tt_state t < 256"
  shows "task_schedule_states_eval (tr_define ts) app fallthrough = tr_meaning app ts"
proof -
  have z: "(0 :: word16) AND TR_NOT = 0" "(0 :: word16) AND TR_OR = 0" "unat ((0 :: word16) AND 0xFF) = 0" by simp_all
  have c: "\<exists>t1 t2 t3 t4. ts = [t1] \<or> ts = [t1, t2] \<or> ts = [t1, t2, t3] \<or> ts = [t1, t2, t3, t4]"
    using assms(1,2) by (elim list_upto4) blast+
  then obtain t1 t2 t3 t4 where "ts = [t1] \<or> ts = [t1, t2] \<or> ts = [t1, t2, t3] \<or> ts = [t1, t2, t3, t4]" by blast
  then show ?thesis
    using assms(3) unfolding tr_define_def
    by (elim disjE) (simp_all add: eval_defined z tr_arg_flags tr_apply_arg Let_def, simp_all add: tr_value_def)
qed

theorem states_eval_meaning_witness:
  "task_schedule_states_eval (tr_define
     [\<lparr>tt_state = 34, tt_not = True, tt_or = False\<rparr>, \<lparr>tt_state = 12, tt_not = False, tt_or = True\<rparr>]) {34, 12} False"
  using states_eval_meaning [of "[\<lparr>tt_state = 34, tt_not = True, tt_or = False\<rparr>,
      \<lparr>tt_state = 12, tt_not = False, tt_or = True\<rparr>]" "{34, 12}" False]
  by (simp add: tr_value_def)

end
