(* ===== verification/Kv_Slots.thy ===== *)
theory Kv_Slots
  imports Infuse_Base
begin

text \<open>
  The builtin keys of the key-value store, \<open>generated/include/infuse/fs/kv_types.h\<close>: the key identifiers, the
  table of slots with their ranges and flags, and the number of reflected slots. Which slots exist depends
  on the build configuration, which is the argument \<open>cfg\<close> of the definitions. The lemmas say that the slots
  never overlap and that the reflection array has exactly the size the table needs, for every
  configuration within the ranges Kconfig allows.
\<close>

subsection \<open>Keys, flags and configurations\<close>

datatype kv_key =
    KV_KEY_REBOOTS | KV_KEY_BLUETOOTH_ADDR | KV_KEY_EXFAT_DISK_INFO
  | KV_KEY_BLUETOOTH_CTLR_VERSION | KV_KEY_DEVICE_NAME | KV_KEY_INFUSE_APPLICATION_ID
  | KV_KEY_APPLICATION_ACTIVE | KV_KEY_BOARD_TARGET | KV_KEY_SECONDARY_REMOTE_PUBLIC_KEY
  | KV_KEY_FIXED_LOCATION | KV_KEY_BROADCAST_FIXED_INDOORS | KV_KEY_LITTLEFS_FS_STATE
  | KV_KEY_LITTLEFS_ALGORITHMS_STATE | KV_KEY_WIFI_SSID | KV_KEY_WIFI_PSK
  | KV_KEY_WIFI_CHANNELS | KV_KEY_NTP_SERVER_URL | KV_KEY_EPACKET_UDP_URL
  | KV_KEY_EPACKET_UDP_PORT | KV_KEY_LTE_MODEM_MODEL | KV_KEY_LTE_MODEM_FIRMWARE_REVISION
  | KV_KEY_LTE_MODEM_ESN | KV_KEY_LTE_MODEM_IMEI | KV_KEY_LTE_SIM_UICC
  | KV_KEY_LTE_PDP_CONFIG | KV_KEY_LTE_NETWORKING_MODES | KV_KEY_LTE_SIM_IMSI
  | KV_KEY_BLUETOOTH_PEER | KV_KEY_LORA_CONFIG | KV_KEY_BLUETOOTH_THROUGHPUT_LIMIT
  | KV_KEY_LED_DISABLE_DAILY_TIME_RANGE | KV_KEY_MEMFAULT_DISABLE | KV_KEY_GATEWAY_BLUETOOTH_FORWARD_OPTIONS
  | KV_KEY_NRF_EDGE_AI_RUNTIME_VERSION | KV_KEY_GRAVITY_REFERENCE | KV_KEY_GEOFENCE
  | KV_KEY_ALG_STATIONARY_WINDOWED_ARGS | KV_KEY_ALG_TILT_ARGS | KV_KEY_ALG_MOVEMENT_THRESHOLD_ARGS
  | KV_KEY_ALG_MOVEMENT_THRESHOLD_ARGS_V2 | KV_KEY_TASK_SCHEDULES_DEFAULT_ID | KV_KEY_TASK_SCHEDULES
  | KV_KEY_SECURE_STORAGE_RESERVED

fun kv_builtin_id :: "kv_key \<Rightarrow> nat" where
  "kv_builtin_id KV_KEY_REBOOTS = 0"
| "kv_builtin_id KV_KEY_BLUETOOTH_ADDR = 1"
| "kv_builtin_id KV_KEY_EXFAT_DISK_INFO = 2"
| "kv_builtin_id KV_KEY_BLUETOOTH_CTLR_VERSION = 3"
| "kv_builtin_id KV_KEY_DEVICE_NAME = 4"
| "kv_builtin_id KV_KEY_INFUSE_APPLICATION_ID = 5"
| "kv_builtin_id KV_KEY_APPLICATION_ACTIVE = 6"
| "kv_builtin_id KV_KEY_BOARD_TARGET = 7"
| "kv_builtin_id KV_KEY_SECONDARY_REMOTE_PUBLIC_KEY = 8"
| "kv_builtin_id KV_KEY_FIXED_LOCATION = 10"
| "kv_builtin_id KV_KEY_BROADCAST_FIXED_INDOORS = 11"
| "kv_builtin_id KV_KEY_LITTLEFS_FS_STATE = 12"
| "kv_builtin_id KV_KEY_LITTLEFS_ALGORITHMS_STATE = 13"
| "kv_builtin_id KV_KEY_WIFI_SSID = 20"
| "kv_builtin_id KV_KEY_WIFI_PSK = 21"
| "kv_builtin_id KV_KEY_WIFI_CHANNELS = 22"
| "kv_builtin_id KV_KEY_NTP_SERVER_URL = 30"
| "kv_builtin_id KV_KEY_EPACKET_UDP_URL = 31"
| "kv_builtin_id KV_KEY_EPACKET_UDP_PORT = 32"
| "kv_builtin_id KV_KEY_LTE_MODEM_MODEL = 40"
| "kv_builtin_id KV_KEY_LTE_MODEM_FIRMWARE_REVISION = 41"
| "kv_builtin_id KV_KEY_LTE_MODEM_ESN = 42"
| "kv_builtin_id KV_KEY_LTE_MODEM_IMEI = 43"
| "kv_builtin_id KV_KEY_LTE_SIM_UICC = 44"
| "kv_builtin_id KV_KEY_LTE_PDP_CONFIG = 45"
| "kv_builtin_id KV_KEY_LTE_NETWORKING_MODES = 46"
| "kv_builtin_id KV_KEY_LTE_SIM_IMSI = 47"
| "kv_builtin_id KV_KEY_BLUETOOTH_PEER = 50"
| "kv_builtin_id KV_KEY_LORA_CONFIG = 51"
| "kv_builtin_id KV_KEY_BLUETOOTH_THROUGHPUT_LIMIT = 52"
| "kv_builtin_id KV_KEY_LED_DISABLE_DAILY_TIME_RANGE = 53"
| "kv_builtin_id KV_KEY_MEMFAULT_DISABLE = 54"
| "kv_builtin_id KV_KEY_GATEWAY_BLUETOOTH_FORWARD_OPTIONS = 55"
| "kv_builtin_id KV_KEY_NRF_EDGE_AI_RUNTIME_VERSION = 56"
| "kv_builtin_id KV_KEY_GRAVITY_REFERENCE = 60"
| "kv_builtin_id KV_KEY_GEOFENCE = 100"
| "kv_builtin_id KV_KEY_ALG_STATIONARY_WINDOWED_ARGS = 200"
| "kv_builtin_id KV_KEY_ALG_TILT_ARGS = 201"
| "kv_builtin_id KV_KEY_ALG_MOVEMENT_THRESHOLD_ARGS = 202"
| "kv_builtin_id KV_KEY_ALG_MOVEMENT_THRESHOLD_ARGS_V2 = 203"
| "kv_builtin_id KV_KEY_TASK_SCHEDULES_DEFAULT_ID = 1000"
| "kv_builtin_id KV_KEY_TASK_SCHEDULES = 1001"
| "kv_builtin_id KV_KEY_SECURE_STORAGE_RESERVED = 30000"

definition KV_KEY_BUILTIN_END :: nat where "KV_KEY_BUILTIN_END = 32768"

definition KV_FLAGS_REFLECT :: byte where "KV_FLAGS_REFLECT = 1"
definition KV_FLAGS_WRITE_ONLY :: byte where "KV_FLAGS_WRITE_ONLY = 2"
definition KV_FLAGS_READ_ONLY :: byte where "KV_FLAGS_READ_ONLY = 4"

record key_value_slot_definition =
  sd_key :: nat
  sd_range :: nat
  sd_flags :: byte

text \<open>The configuration symbols: which keys are enabled, and how many slots the ranged keys have.\<close>

record kv_config =
  cf_enabled :: "kv_key \<Rightarrow> bool"
  cf_geofence_range :: nat
  cf_task_schedules_range :: nat
  cf_secure_storage_reserved_range :: nat

text \<open>The ranges of \<open>generated/Kconfig.kv_keys\<close>.\<close>

definition kv_config_valid :: "kv_config \<Rightarrow> bool" where
  "kv_config_valid cfg \<longleftrightarrow>
     cf_geofence_range cfg \<in> {1..16} \<and> cf_task_schedules_range cfg \<in> {1..32} \<and>
     cf_secure_storage_reserved_range cfg \<in> {1..10}"

subsection \<open>The slot table\<close>

text \<open>A row of the table: the key, the number of slots and the flags; its \<open>#ifdef\<close> is the filter below.\<close>

type_synonym kv_row = "kv_key \<times> nat \<times> byte"

definition kv_rows_1 :: "kv_config \<Rightarrow> kv_row list" where
  "kv_rows_1 cfg =
    [(KV_KEY_REBOOTS, 1, 0),
     (KV_KEY_BLUETOOTH_ADDR, 1, KV_FLAGS_REFLECT OR KV_FLAGS_READ_ONLY),
     (KV_KEY_EXFAT_DISK_INFO, 1, KV_FLAGS_REFLECT OR KV_FLAGS_READ_ONLY),
     (KV_KEY_BLUETOOTH_CTLR_VERSION, 1, KV_FLAGS_REFLECT),
     (KV_KEY_DEVICE_NAME, 1, KV_FLAGS_REFLECT),
     (KV_KEY_INFUSE_APPLICATION_ID, 1, 0),
     (KV_KEY_APPLICATION_ACTIVE, 1, 0),
     (KV_KEY_BOARD_TARGET, 1, KV_FLAGS_REFLECT OR KV_FLAGS_READ_ONLY),
     (KV_KEY_SECONDARY_REMOTE_PUBLIC_KEY, 1, KV_FLAGS_REFLECT),
     (KV_KEY_FIXED_LOCATION, 1, KV_FLAGS_REFLECT),
     (KV_KEY_BROADCAST_FIXED_INDOORS, 1, KV_FLAGS_REFLECT),
     (KV_KEY_LITTLEFS_FS_STATE, 1, KV_FLAGS_REFLECT OR KV_FLAGS_READ_ONLY),
     (KV_KEY_LITTLEFS_ALGORITHMS_STATE, 1, KV_FLAGS_REFLECT OR KV_FLAGS_READ_ONLY),
     (KV_KEY_WIFI_SSID, 1, KV_FLAGS_REFLECT),
     (KV_KEY_WIFI_PSK, 1, KV_FLAGS_REFLECT OR KV_FLAGS_WRITE_ONLY)]"

definition kv_rows_2 :: "kv_config \<Rightarrow> kv_row list" where
  "kv_rows_2 cfg =
    [(KV_KEY_WIFI_CHANNELS, 1, KV_FLAGS_REFLECT),
     (KV_KEY_NTP_SERVER_URL, 1, KV_FLAGS_REFLECT),
     (KV_KEY_EPACKET_UDP_URL, 1, KV_FLAGS_REFLECT),
     (KV_KEY_EPACKET_UDP_PORT, 1, KV_FLAGS_REFLECT),
     (KV_KEY_LTE_MODEM_MODEL, 1, KV_FLAGS_REFLECT OR KV_FLAGS_READ_ONLY),
     (KV_KEY_LTE_MODEM_FIRMWARE_REVISION, 1, KV_FLAGS_REFLECT OR KV_FLAGS_READ_ONLY),
     (KV_KEY_LTE_MODEM_ESN, 1, KV_FLAGS_REFLECT OR KV_FLAGS_READ_ONLY),
     (KV_KEY_LTE_MODEM_IMEI, 1, KV_FLAGS_REFLECT OR KV_FLAGS_READ_ONLY),
     (KV_KEY_LTE_SIM_UICC, 1, KV_FLAGS_REFLECT OR KV_FLAGS_READ_ONLY),
     (KV_KEY_LTE_PDP_CONFIG, 1, KV_FLAGS_REFLECT),
     (KV_KEY_LTE_NETWORKING_MODES, 1, KV_FLAGS_REFLECT),
     (KV_KEY_LTE_SIM_IMSI, 1, KV_FLAGS_REFLECT OR KV_FLAGS_READ_ONLY),
     (KV_KEY_BLUETOOTH_PEER, 1, KV_FLAGS_REFLECT),
     (KV_KEY_LORA_CONFIG, 1, KV_FLAGS_REFLECT),
     (KV_KEY_BLUETOOTH_THROUGHPUT_LIMIT, 1, KV_FLAGS_REFLECT)]"

definition kv_rows_3 :: "kv_config \<Rightarrow> kv_row list" where
  "kv_rows_3 cfg =
    [(KV_KEY_LED_DISABLE_DAILY_TIME_RANGE, 1, KV_FLAGS_REFLECT),
     (KV_KEY_MEMFAULT_DISABLE, 1, 0),
     (KV_KEY_GATEWAY_BLUETOOTH_FORWARD_OPTIONS, 1, KV_FLAGS_REFLECT),
     (KV_KEY_NRF_EDGE_AI_RUNTIME_VERSION, 1, KV_FLAGS_REFLECT),
     (KV_KEY_GRAVITY_REFERENCE, 1, KV_FLAGS_REFLECT),
     (KV_KEY_GEOFENCE, cf_geofence_range cfg, KV_FLAGS_REFLECT),
     (KV_KEY_ALG_STATIONARY_WINDOWED_ARGS, 1, KV_FLAGS_REFLECT),
     (KV_KEY_ALG_TILT_ARGS, 1, KV_FLAGS_REFLECT),
     (KV_KEY_ALG_MOVEMENT_THRESHOLD_ARGS, 1, KV_FLAGS_REFLECT),
     (KV_KEY_ALG_MOVEMENT_THRESHOLD_ARGS_V2, 1, KV_FLAGS_REFLECT),
     (KV_KEY_TASK_SCHEDULES_DEFAULT_ID, 1, KV_FLAGS_REFLECT),
     (KV_KEY_TASK_SCHEDULES, cf_task_schedules_range cfg, KV_FLAGS_REFLECT),
     (KV_KEY_SECURE_STORAGE_RESERVED, cf_secure_storage_reserved_range cfg, 0)]"

definition kv_rows :: "kv_config \<Rightarrow> kv_row list" where
  "kv_rows cfg = kv_rows_1 cfg @ kv_rows_2 cfg @ kv_rows_3 cfg"

definition row_slot :: "kv_row \<Rightarrow> key_value_slot_definition" where
  "row_slot r = (case r of (k, n, f) \<Rightarrow> \<lparr>sd_key = kv_builtin_id k, sd_range = n, sd_flags = f\<rparr>)"

definition kv_store_slots_internal :: "kv_config \<Rightarrow> key_value_slot_definition list" where
  "kv_store_slots_internal cfg = map row_slot (filter (\<lambda>r. cf_enabled cfg (fst r)) (kv_rows cfg))"

text \<open>\<open>KV_REFLECT_NUM\<close>: the sum of the slots of the enabled keys it lists.\<close>

definition kv_reflect_terms :: "kv_config \<Rightarrow> (kv_key \<times> nat) list" where
  "kv_reflect_terms cfg =
    [(KV_KEY_BLUETOOTH_ADDR, 1),
     (KV_KEY_EXFAT_DISK_INFO, 1),
     (KV_KEY_BLUETOOTH_CTLR_VERSION, 1),
     (KV_KEY_DEVICE_NAME, 1),
     (KV_KEY_BOARD_TARGET, 1),
     (KV_KEY_SECONDARY_REMOTE_PUBLIC_KEY, 1),
     (KV_KEY_FIXED_LOCATION, 1),
     (KV_KEY_BROADCAST_FIXED_INDOORS, 1),
     (KV_KEY_LITTLEFS_FS_STATE, 1),
     (KV_KEY_LITTLEFS_ALGORITHMS_STATE, 1),
     (KV_KEY_WIFI_SSID, 1),
     (KV_KEY_WIFI_PSK, 1),
     (KV_KEY_WIFI_CHANNELS, 1),
     (KV_KEY_NTP_SERVER_URL, 1),
     (KV_KEY_EPACKET_UDP_URL, 1),
     (KV_KEY_EPACKET_UDP_PORT, 1),
     (KV_KEY_LTE_MODEM_MODEL, 1),
     (KV_KEY_LTE_MODEM_FIRMWARE_REVISION, 1),
     (KV_KEY_LTE_MODEM_ESN, 1),
     (KV_KEY_LTE_MODEM_IMEI, 1),
     (KV_KEY_LTE_SIM_UICC, 1),
     (KV_KEY_LTE_PDP_CONFIG, 1),
     (KV_KEY_LTE_NETWORKING_MODES, 1),
     (KV_KEY_LTE_SIM_IMSI, 1),
     (KV_KEY_BLUETOOTH_PEER, 1),
     (KV_KEY_LORA_CONFIG, 1),
     (KV_KEY_BLUETOOTH_THROUGHPUT_LIMIT, 1),
     (KV_KEY_LED_DISABLE_DAILY_TIME_RANGE, 1),
     (KV_KEY_GATEWAY_BLUETOOTH_FORWARD_OPTIONS, 1),
     (KV_KEY_NRF_EDGE_AI_RUNTIME_VERSION, 1),
     (KV_KEY_GRAVITY_REFERENCE, 1),
     (KV_KEY_GEOFENCE, cf_geofence_range cfg),
     (KV_KEY_ALG_STATIONARY_WINDOWED_ARGS, 1),
     (KV_KEY_ALG_TILT_ARGS, 1),
     (KV_KEY_ALG_MOVEMENT_THRESHOLD_ARGS, 1),
     (KV_KEY_ALG_MOVEMENT_THRESHOLD_ARGS_V2, 1),
     (KV_KEY_TASK_SCHEDULES_DEFAULT_ID, 1),
     (KV_KEY_TASK_SCHEDULES, cf_task_schedules_range cfg)]"

definition KV_REFLECT_NUM :: "kv_config \<Rightarrow> nat" where
  "KV_REFLECT_NUM cfg = (\<Sum>(k, n)\<leftarrow>kv_reflect_terms cfg. if cf_enabled cfg k then n else 0)"

subsection \<open>The slots are disjoint\<close>

definition slot_before :: "key_value_slot_definition \<Rightarrow> key_value_slot_definition \<Rightarrow> bool" where
  "slot_before a b \<longleftrightarrow> sd_key a + sd_range a \<le> sd_key b"

lemma transp_slot_before: "transp slot_before"
  by (rule transpI) (simp add: slot_before_def)

lemmas kv_rows_defs = kv_rows_def kv_rows_1_def kv_rows_2_def kv_rows_3_def

lemma rows_ordered:
  assumes "kv_config_valid cfg"
  shows "sorted_wrt slot_before (map row_slot (kv_rows cfg))"
proof -
  have "successively slot_before (map row_slot (kv_rows cfg))"
    using assms by (simp add: kv_rows_defs row_slot_def slot_before_def kv_config_valid_def)
  then show ?thesis by (simp add: successively_conv_sorted_wrt transp_slot_before)
qed

lemma slots_ordered:
  assumes "kv_config_valid cfg"
  shows "sorted_wrt slot_before (kv_store_slots_internal cfg)"
proof -
  have "sorted_wrt (\<lambda>r s. slot_before (row_slot r) (row_slot s)) (kv_rows cfg)"
    using rows_ordered [OF assms] by (simp add: sorted_wrt_map)
  then have "sorted_wrt (\<lambda>r s. slot_before (row_slot r) (row_slot s)) (filter (\<lambda>r. cf_enabled cfg (fst r)) (kv_rows cfg))"
    by (rule sorted_wrt_filter)
  then show ?thesis by (simp add: kv_store_slots_internal_def sorted_wrt_map)
qed

lemma slots_below_end:
  assumes "kv_config_valid cfg" "d \<in> set (kv_store_slots_internal cfg)"
  shows "0 < sd_range d" "sd_key d + sd_range d \<le> KV_KEY_BUILTIN_END"
proof -
  have "\<forall>r\<in>set (kv_rows cfg). 0 < sd_range (row_slot r) \<and> sd_key (row_slot r) + sd_range (row_slot r) \<le> 32768"
    using assms(1) by (simp add: kv_rows_defs row_slot_def kv_config_valid_def)
  then show "0 < sd_range d" "sd_key d + sd_range d \<le> KV_KEY_BUILTIN_END"
    using assms(2) by (auto simp: kv_store_slots_internal_def KV_KEY_BUILTIN_END_def)
qed

subsection \<open>The reflection array fits\<close>

definition reflected :: "key_value_slot_definition \<Rightarrow> bool" where
  "reflected d \<longleftrightarrow> sd_flags d AND KV_FLAGS_REFLECT \<noteq> 0"

lemma reflected_flags [simp]:
  "\<not> reflected \<lparr>sd_key = k, sd_range = n, sd_flags = 0\<rparr>"
  "reflected \<lparr>sd_key = k, sd_range = n, sd_flags = KV_FLAGS_REFLECT\<rparr>"
  "reflected \<lparr>sd_key = k, sd_range = n, sd_flags = KV_FLAGS_REFLECT OR KV_FLAGS_READ_ONLY\<rparr>"
  "reflected \<lparr>sd_key = k, sd_range = n, sd_flags = KV_FLAGS_REFLECT OR KV_FLAGS_WRITE_ONLY\<rparr>"
  by (simp_all add: reflected_def KV_FLAGS_REFLECT_def KV_FLAGS_READ_ONLY_def KV_FLAGS_WRITE_ONLY_def)

lemma reflect_terms_rows:
  "kv_reflect_terms cfg = map (\<lambda>(k, n, f). (k, n)) (filter (\<lambda>r. reflected (row_slot r)) (kv_rows cfg))"
  by (simp add: kv_reflect_terms_def kv_rows_defs row_slot_def)

lemma reflect_num_slots:
  "KV_REFLECT_NUM cfg = (\<Sum>d\<leftarrow>filter reflected (kv_store_slots_internal cfg). sd_range d)"
proof -
  have "(\<Sum>(k, n)\<leftarrow>map (\<lambda>(k, n, f). (k, n)) (filter (\<lambda>r. reflected (row_slot r)) rs). if cf_enabled cfg k then n else 0) =
      (\<Sum>d\<leftarrow>filter reflected (map row_slot (filter (\<lambda>r. cf_enabled cfg (fst r)) rs)). sd_range d)" for rs
    by (induction rs) (auto simp: row_slot_def)
  then show ?thesis by (simp add: KV_REFLECT_NUM_def reflect_terms_rows kv_store_slots_internal_def)
qed

end
