(* ===== verification/Kv_Store.thy ===== *)
theory Kv_Store
  imports Kv_Slots
begin

text \<open>
  The key-value store, \<open>subsys/fs/kv_store\<close>: access control by the slot table (\<open>kv_store_common.c\<close>), the
  operations on the flash file system with change notification (\<open>kv_store_nvs.c\<close>, \<open>kv_store_zms.c\<close>), and the
  reflection checksums that let the cloud detect changes (\<open>kv_reflect.c\<close>). The file systems NVS and ZMS and the
  CRC belong to Zephyr and are parameters; what is relied on is the locale \<open>kv_backend\<close>, with the reads of NVS.
\<close>

subsection \<open>Slot metadata\<close>

text \<open>The loop of \<open>kv_store_key_metadata\<close>: flags and, for reflected slots, the reflection index (\<open>SIZE_MAX\<close> is \<open>None\<close>).\<close>

fun key_metadata_loop :: "key_value_slot_definition list \<Rightarrow> nat \<Rightarrow> nat \<Rightarrow> (byte \<times> nat option) option" where
  "key_metadata_loop [] key idx = None"
| "key_metadata_loop (d # defs) key idx =
     (if sd_key d \<le> key \<and> key < sd_key d + sd_range d
      then Some (sd_flags d,
                 if sd_flags d AND KV_FLAGS_REFLECT \<noteq> 0 then Some (idx + (key - sd_key d)) else None)
      else key_metadata_loop defs key
             (if sd_flags d AND KV_FLAGS_REFLECT \<noteq> 0 then idx + sd_range d else idx))"

definition kv_store_key_metadata :: "key_value_slot_definition list \<Rightarrow> nat \<Rightarrow> (byte \<times> nat option) option" where
  "kv_store_key_metadata defs key = key_metadata_loop defs key 0"

definition kv_store_key_enabled :: "key_value_slot_definition list \<Rightarrow> nat \<Rightarrow> bool" where
  "kv_store_key_enabled defs key \<longleftrightarrow> kv_store_key_metadata defs key \<noteq> None"

definition kv_store_external_write_only :: "key_value_slot_definition list \<Rightarrow> nat \<Rightarrow> unit res" where
  "kv_store_external_write_only defs key =
     (case kv_store_key_metadata defs key of
        None \<Rightarrow> Inl EACCES
      | Some (flags, _) \<Rightarrow> if flags AND KV_FLAGS_WRITE_ONLY \<noteq> 0 then Inl EPERM else Inr ())"

definition kv_store_external_read_only :: "key_value_slot_definition list \<Rightarrow> nat \<Rightarrow> unit res" where
  "kv_store_external_read_only defs key =
     (case kv_store_key_metadata defs key of
        None \<Rightarrow> Inl EACCES
      | Some (flags, _) \<Rightarrow> if flags AND KV_FLAGS_READ_ONLY \<noteq> 0 then Inl EPERM else Inr ())"

subsection \<open>The flash file system\<close>

text \<open>
  The interface shared by NVS and ZMS, over a file system state \<open>'f\<close>. A read returns the length of the
  stored value and the bytes copied to the buffer; a write returns the bytes written, zero if the value is
  already stored.
\<close>

record 'f kv_fs_api =
  fs_read :: "'f \<Rightarrow> nat \<Rightarrow> nat \<Rightarrow> (nat \<times> byte list) res"
  fs_write :: "'f \<Rightarrow> nat \<Rightarrow> byte list \<Rightarrow> nat res \<times> 'f"
  fs_delete :: "'f \<Rightarrow> nat \<Rightarrow> unit res \<times> 'f"
  fs_clear :: "'f \<Rightarrow> unit res \<times> 'f"
  fs_mount :: "'f \<Rightarrow> unit res \<times> 'f"
  fs_page_info :: "'f \<Rightarrow> nat res"
  fs_area_erase :: "'f \<Rightarrow> 'f"
  fs_id_pre :: nat
  fs_no_fs_error :: errno

text \<open>The static state of the store: the file system, the callbacks and their data, and the checksums.\<close>

record ('f, 'w) kv_store =
  kv_fs :: 'f
  kv_cb_list :: "(nat \<Rightarrow> byte list option \<Rightarrow> 'w \<Rightarrow> 'w) option list"
  kv_cb_data :: 'w
  value_crc_slots :: "nat list"
  reflect_crc :: nat

text \<open>The environment: file system, CRC, and slot table.\<close>

record 'f kv_env =
  ke_api :: "'f kv_fs_api"
  ke_crc32 :: "byte list \<Rightarrow> nat"
  ke_slots :: "key_value_slot_definition list"

definition kv_id :: "'f kv_env \<Rightarrow> nat \<Rightarrow> nat" where
  "kv_id e key = (fs_id_pre (ke_api e) OR key)"

definition kv_store_register_callback ::
  "(nat \<Rightarrow> byte list option \<Rightarrow> 'w \<Rightarrow> 'w) option \<Rightarrow> ('f, 'w) kv_store \<Rightarrow> ('f, 'w) kv_store" where
  "kv_store_register_callback cb s = s\<lparr>kv_cb_list := kv_cb_list s @ [cb]\<rparr>"

definition notify_value_changed :: "nat \<Rightarrow> byte list option \<Rightarrow> ('f, 'w) kv_store \<Rightarrow> ('f, 'w) kv_store" where
  "notify_value_changed key data s =
     s\<lparr>kv_cb_data := fold (\<lambda>cb w. case cb of None \<Rightarrow> w | Some f \<Rightarrow> f key data w) (kv_cb_list s) (kv_cb_data s)\<rparr>"

subsection \<open>Reflection\<close>

text \<open>\<open>crc32_ieee\<close> over the array of slot checksums, as the bytes it occupies in memory.\<close>

definition slots_crc :: "'f kv_env \<Rightarrow> nat list \<Rightarrow> nat" where
  "slots_crc e slots = ke_crc32 e (concat (map (put_le 4) slots))"

definition reflect_value :: "'f kv_env \<Rightarrow> 'f \<Rightarrow> nat \<Rightarrow> nat" where
  "reflect_value e fs key =
     (case fs_read (ke_api e) fs (kv_id e key) 256 of
        Inl _ \<Rightarrow> 0
      | Inr (rc, read_buffer) \<Rightarrow> if rc > 256 then 0 else ke_crc32 e (take rc read_buffer))"

text \<open>One slot definition of \<open>kv_reflect_init\<close>, from array index \<open>idx\<close>; the key is a \<open>uint16_t\<close>.\<close>

fun reflect_init_slots :: "'f kv_env \<Rightarrow> 'f \<Rightarrow> key_value_slot_definition list \<Rightarrow> nat \<Rightarrow> nat list \<Rightarrow> nat list" where
  "reflect_init_slots e fs [] idx slots = slots"
| "reflect_init_slots e fs (d # defs) idx slots =
     (if sd_flags d AND KV_FLAGS_REFLECT = 0 then reflect_init_slots e fs defs idx slots
      else reflect_init_slots e fs defs (idx + sd_range d)
             (fold (\<lambda>j slots. slots[idx + j := reflect_value e fs (u16 (sd_key d + j))]) [0..<sd_range d] slots))"

definition kv_reflect_init :: "'f kv_env \<Rightarrow> ('f, 'w) kv_store \<Rightarrow> ('f, 'w) kv_store" where
  "kv_reflect_init e s =
     (let slots = reflect_init_slots e (kv_fs s) (ke_slots e) 0 (value_crc_slots s)
      in s\<lparr>value_crc_slots := slots, reflect_crc := slots_crc e slots\<rparr>)"

definition kv_reflect_key_updated :: "'f kv_env \<Rightarrow> nat \<Rightarrow> byte list option \<Rightarrow> ('f, 'w) kv_store \<Rightarrow> ('f, 'w) kv_store" where
  "kv_reflect_key_updated e reflect_idx data s =
     (let slots = (value_crc_slots s)[reflect_idx := (case data of None \<Rightarrow> 0 | Some d \<Rightarrow> ke_crc32 e d)]
      in s\<lparr>value_crc_slots := slots, reflect_crc := slots_crc e slots\<rparr>)"

definition kv_store_reflect_crc :: "('f, 'w) kv_store \<Rightarrow> nat" where
  "kv_store_reflect_crc s = reflect_crc s"

definition kv_reflect_key_crc :: "nat \<Rightarrow> ('f, 'w) kv_store \<Rightarrow> nat" where
  "kv_reflect_key_crc reflect_idx s = value_crc_slots s ! reflect_idx"

text \<open>The update that follows a change of a stored value.\<close>

definition value_updated :: "'f kv_env \<Rightarrow> nat \<Rightarrow> nat option \<Rightarrow> byte list option \<Rightarrow> ('f, 'w) kv_store \<Rightarrow> ('f, 'w) kv_store" where
  "value_updated e key reflect_idx data s =
     notify_value_changed key data
       (case reflect_idx of None \<Rightarrow> s | Some idx \<Rightarrow> kv_reflect_key_updated e idx data s)"

subsection \<open>Operations\<close>

definition kv_store_reset :: "'f kv_env \<Rightarrow> ('f, 'w) kv_store \<Rightarrow> unit res \<times> ('f, 'w) kv_store" where
  "kv_store_reset e s =
     (case fs_clear (ke_api e) (kv_fs s) of
        (Inl err, fs) \<Rightarrow> (Inl err, s\<lparr>kv_fs := fs\<rparr>)
      | (Inr _, fs) \<Rightarrow>
          (let (rc, fs) = fs_mount (ke_api e) fs in (rc, kv_reflect_init e (s\<lparr>kv_fs := fs\<rparr>))))"

definition kv_store_key_exists :: "'f kv_env \<Rightarrow> nat \<Rightarrow> ('f, 'w) kv_store \<Rightarrow> bool" where
  "kv_store_key_exists e key s =
     (case fs_read (ke_api e) (kv_fs s) (kv_id e key) 0 of Inl _ \<Rightarrow> False | Inr (n, _) \<Rightarrow> n > 0)"

definition kv_store_key_data_size :: "'f kv_env \<Rightarrow> nat \<Rightarrow> ('f, 'w) kv_store \<Rightarrow> nat res" where
  "kv_store_key_data_size e key s = map_sum id fst (fs_read (ke_api e) (kv_fs s) (kv_id e key) 0)"

definition kv_store_delete :: "'f kv_env \<Rightarrow> nat \<Rightarrow> ('f, 'w) kv_store \<Rightarrow> unit res \<times> ('f, 'w) kv_store" where
  "kv_store_delete e key s =
     (case kv_store_key_metadata (ke_slots e) key of
        None \<Rightarrow> (Inl EACCES, s)
      | Some (_, reflect_idx) \<Rightarrow>
          if fs_read (ke_api e) (kv_fs s) (kv_id e key) 0 = Inl ENOENT then (Inl ENOENT, s)
          else
            (case fs_delete (ke_api e) (kv_fs s) (kv_id e key) of
               (Inl err, fs) \<Rightarrow> (Inl err, s\<lparr>kv_fs := fs\<rparr>)
             | (Inr _, fs) \<Rightarrow> (Inr (), value_updated e key reflect_idx None (s\<lparr>kv_fs := fs\<rparr>))))"

definition kv_store_write :: "'f kv_env \<Rightarrow> nat \<Rightarrow> byte list \<Rightarrow> ('f, 'w) kv_store \<Rightarrow> nat res \<times> ('f, 'w) kv_store" where
  "kv_store_write e key data s =
     (case kv_store_key_metadata (ke_slots e) key of
        None \<Rightarrow> (Inl EACCES, s)
      | Some (_, reflect_idx) \<Rightarrow>
          (case fs_write (ke_api e) (kv_fs s) (kv_id e key) data of
             (Inl err, fs) \<Rightarrow> (Inl err, s\<lparr>kv_fs := fs\<rparr>)
           | (Inr rc, fs) \<Rightarrow>
               (Inr rc, if rc > 0 then value_updated e key reflect_idx (Some data) (s\<lparr>kv_fs := fs\<rparr>)
                        else s\<lparr>kv_fs := fs\<rparr>)))"

definition kv_store_read :: "'f kv_env \<Rightarrow> nat \<Rightarrow> nat \<Rightarrow> ('f, 'w) kv_store \<Rightarrow> (nat \<times> byte list) res" where
  "kv_store_read e key max_data_len s =
     (if kv_store_key_enabled (ke_slots e) key then fs_read (ke_api e) (kv_fs s) (kv_id e key) max_data_len
      else Inl EACCES)"

definition kv_store_read_fallback ::
  "'f kv_env \<Rightarrow> nat \<Rightarrow> nat \<Rightarrow> byte list \<Rightarrow> ('f, 'w) kv_store \<Rightarrow> (nat \<times> byte list) res \<times> ('f, 'w) kv_store" where
  "kv_store_read_fallback e key max_data_len fallback s =
     (case kv_store_key_metadata (ke_slots e) key of
        None \<Rightarrow> (Inl EACCES, s)
      | Some (_, reflect_idx) \<Rightarrow>
          (let rc = fs_read (ke_api e) (kv_fs s) (kv_id e key) max_data_len in
           if rc = Inl ENOENT then
             (case fs_write (ke_api e) (kv_fs s) (kv_id e key) fallback of
                (Inl err, fs) \<Rightarrow> (Inl err, s\<lparr>kv_fs := fs\<rparr>)
              | (Inr n, fs) \<Rightarrow>
                  if n = length fallback then
                    (let s = value_updated e key reflect_idx (Some fallback) (s\<lparr>kv_fs := fs\<rparr>)
                     in (fs_read (ke_api e) (kv_fs s) (kv_id e key) max_data_len, s))
                  else (Inr (n, []), s\<lparr>kv_fs := fs\<rparr>))
           else (rc, s)))"

definition kv_store_init :: "'f kv_env \<Rightarrow> ('f, 'w) kv_store \<Rightarrow> unit res \<times> ('f, 'w) kv_store" where
  "kv_store_init e s =
     (case fs_page_info (ke_api e) (kv_fs s) of
        Inl err \<Rightarrow> (Inl err, s)
      | Inr _ \<Rightarrow>
          (let (rc, fs) = fs_mount (ke_api e) (kv_fs s);
               (rc, fs) = (if rc = Inl (fs_no_fs_error (ke_api e)) then fs_mount (ke_api e) (fs_area_erase (ke_api e) fs)
                           else (rc, fs));
               s = s\<lparr>kv_fs := fs\<rparr>
           in (rc, if rc = Inr () then kv_reflect_init e s else s)))"

subsection \<open>The slot table gives every reflected key its own index\<close>

definition slot_keys :: "key_value_slot_definition \<Rightarrow> nat list" where
  "slot_keys d = map (\<lambda>j. sd_key d + j) [0..<sd_range d]"

definition reflected_keys :: "key_value_slot_definition list \<Rightarrow> nat list" where
  "reflected_keys defs = concat (map slot_keys (filter reflected defs))"

lemma reflected_keys_simps [simp]:
  "reflected_keys [] = []"
  "reflected_keys (d # defs) = (if reflected d then slot_keys d else []) @ reflected_keys defs"
  by (simp_all add: reflected_keys_def)

lemma set_slot_keys: "k \<in> set (slot_keys d) \<longleftrightarrow> sd_key d \<le> k \<and> k < sd_key d + sd_range d"
proof
  assume k: "sd_key d \<le> k \<and> k < sd_key d + sd_range d"
  then have "k = sd_key d + (k - sd_key d)" "k - sd_key d < sd_range d" by auto
  then show "k \<in> set (slot_keys d)" by (auto simp: slot_keys_def)
qed (auto simp: slot_keys_def)

lemma length_slot_keys [simp]: "length (slot_keys d) = sd_range d" by (simp add: slot_keys_def)

lemma in_reflected_keys: "k \<in> set (reflected_keys defs) \<longleftrightarrow> (\<exists>d\<in>set defs. reflected d \<and> k \<in> set (slot_keys d))"
  by (auto simp: reflected_keys_def)

lemma distinct_reflected_keys: "sorted_wrt slot_before defs \<Longrightarrow> distinct (reflected_keys defs)"
proof (induction defs)
  case (Cons d defs)
  have "distinct (slot_keys d)" by (simp add: slot_keys_def distinct_map inj_on_def)
  moreover have "k \<notin> set (reflected_keys defs)" if "k \<in> set (slot_keys d)" for k
    using that Cons.prems by (auto simp: in_reflected_keys set_slot_keys slot_before_def dest!: bspec)
  ultimately show ?case using Cons by auto
qed simp

lemma length_reflected_keys: "length (reflected_keys defs) = (\<Sum>d\<leftarrow>filter reflected defs. sd_range d)"
  by (induction defs) simp_all

lemma key_metadata_index:
  assumes "key_metadata_loop defs key idx = Some (fl, Some i)"
  shows "idx \<le> i \<and> i - idx < length (reflected_keys defs) \<and> reflected_keys defs ! (i - idx) = key"
  using assms
proof (induction defs arbitrary: idx)
  case (Cons d defs)
  show ?case
  proof (cases "sd_key d \<le> key \<and> key < sd_key d + sd_range d")
    case True
    then have "reflected d" "i = idx + (key - sd_key d)" using Cons.prems by (auto simp: reflected_def split: if_splits)
    then show ?thesis using True by (auto simp: nth_append slot_keys_def)
  next
    case False
    then have l: "key_metadata_loop defs key (if reflected d then idx + sd_range d else idx) = Some (fl, Some i)"
      using Cons.prems by (auto simp: reflected_def)
    from Cons.IH [OF this] show ?thesis by (cases "reflected d") (auto simp: nth_append)
  qed
qed simp

lemma key_metadata_unreflected:
  assumes "sorted_wrt slot_before defs" "key_metadata_loop defs key idx = Some (fl, None)"
  shows "key \<notin> set (reflected_keys defs)"
  using assms
proof (induction defs arbitrary: idx)
  case (Cons d defs)
  show ?case
  proof (cases "key \<in> set (slot_keys d)")
    case True
    then have "\<not> reflected d" using Cons.prems by (auto simp: set_slot_keys reflected_def split: if_splits)
    moreover have "key \<notin> set (reflected_keys defs)"
      using True Cons.prems(1) by (auto simp: in_reflected_keys set_slot_keys slot_before_def dest!: bspec)
    ultimately show ?thesis by simp
  next
    case False
    then have "\<not> (sd_key d \<le> key \<and> key < sd_key d + sd_range d)" by (simp add: set_slot_keys)
    then show ?thesis using Cons False by (auto split: if_splits)
  qed
qed simp

lemma key_metadata_enabled:
  "key_metadata_loop defs key idx \<noteq> None \<longleftrightarrow> (\<exists>d\<in>set defs. key \<in> set (slot_keys d))"
  by (induction defs arbitrary: idx) (auto simp: set_slot_keys)

lemma key_metadata_slot:
  assumes "sorted_wrt slot_before defs" "d \<in> set defs" "key \<in> set (slot_keys d)"
  shows "\<exists>ri. key_metadata_loop defs key idx = Some (sd_flags d, ri)"
  using assms by (induction defs arbitrary: idx) (fastforce simp: set_slot_keys slot_before_def)+

text \<open>
  C19. The slot table is consistent. For every build configuration within the Kconfig ranges, no key belongs to two
  slots, every reflected key has its own index into the reflection array, the indices are exactly those below
  \<open>KV_REFLECT_NUM\<close>, and all builtin keys lie below \<open>KV_KEY_BUILTIN_END\<close>.
\<close>

theorem kv_slots_consistent:
  assumes "kv_config_valid cfg"
  defines "defs \<equiv> kv_store_slots_internal cfg"
  shows "(\<forall>a < length defs. \<forall>b < length defs. a \<noteq> b \<longrightarrow> set (slot_keys (defs ! a)) \<inter> set (slot_keys (defs ! b)) = {}) \<and>
    (\<forall>key fl i. kv_store_key_metadata defs key = Some (fl, Some i) \<longrightarrow>
       i < KV_REFLECT_NUM cfg \<and> reflected_keys defs ! i = key) \<and>
    distinct (reflected_keys defs) \<and> length (reflected_keys defs) = KV_REFLECT_NUM cfg \<and>
    (\<forall>key. kv_store_key_enabled defs key \<longrightarrow> key < KV_KEY_BUILTIN_END)"
proof -
  have sorted: "sorted_wrt slot_before defs" unfolding defs_def by (rule slots_ordered [OF assms(1)])
  have len: "length (reflected_keys defs) = KV_REFLECT_NUM cfg"
    unfolding defs_def by (simp add: length_reflected_keys reflect_num_slots)
  have dis: "set (slot_keys (defs ! a)) \<inter> set (slot_keys (defs ! b)) = {}" if "a < b" "b < length defs" for a b
    using sorted_wrt_nth_less [OF sorted that] by (auto simp: set_slot_keys slot_before_def)
  have "set (slot_keys (defs ! a)) \<inter> set (slot_keys (defs ! b)) = {}" if "a < length defs" "b < length defs" "a \<noteq> b" for a b
    using dis [of a b] dis [of b a] that by (cases "a < b") auto
  moreover have "i < KV_REFLECT_NUM cfg \<and> reflected_keys defs ! i = key"
    if "kv_store_key_metadata defs key = Some (fl, Some i)" for key fl i
    using key_metadata_index that len by (fastforce simp: kv_store_key_metadata_def)
  moreover have "key < KV_KEY_BUILTIN_END" if en: "kv_store_key_enabled defs key" for key
  proof -
    obtain d where "d \<in> set defs" "key \<in> set (slot_keys d)"
      using en unfolding kv_store_key_enabled_def kv_store_key_metadata_def key_metadata_enabled by blast
    then show ?thesis using slots_below_end(2) [OF assms(1), of d] by (simp add: set_slot_keys defs_def)
  qed
  ultimately show ?thesis using distinct_reflected_keys [OF sorted] len by blast
qed

theorem kv_slots_consistent_witness:
  "kv_config_valid \<lparr>cf_enabled = \<lambda>_. True, cf_geofence_range = 4, cf_task_schedules_range = 16, cf_secure_storage_reserved_range = 1\<rparr> \<and>
   distinct (reflected_keys (kv_store_slots_internal
     \<lparr>cf_enabled = \<lambda>_. True, cf_geofence_range = 4, cf_task_schedules_range = 16, cf_secure_storage_reserved_range = 1\<rparr>))"
  using kv_slots_consistent [of "\<lparr>cf_enabled = \<lambda>_. True, cf_geofence_range = 4, cf_task_schedules_range = 16,
      cf_secure_storage_reserved_range = 1\<rparr>"] by (simp add: kv_config_valid_def)

subsection \<open>What is relied on of the file system\<close>

text \<open>
  The documented behaviour of NVS on working storage, over the values held: a read copies at most the
  buffer length and reports the full length (ZMS, whose functions are called in the same way, reports the length
  copied), a write of data stores it, or reports zero because it is there
  already, and a failed write or deletion leaves the values alone. Nothing is said of a failed clear, which may
  have erased some of the sectors. The identifier prefix leaves the sixteen key bits free.
\<close>

locale kv_backend =
  fixes api :: "'f kv_fs_api" and contents :: "'f \<Rightarrow> nat \<rightharpoonup> byte list"
  assumes read_law: "fs_read api f i n =
      (case contents f i of None \<Rightarrow> Inl ENOENT | Some v \<Rightarrow> Inr (length v, take n v))"
    and write_ok: "\<lbrakk>v \<noteq> []; fs_write api f i v = (Inr n, f')\<rbrakk> \<Longrightarrow>
      contents f' = (contents f)(i \<mapsto> v) \<and> n = (if contents f i = Some v then 0 else length v)"
    and write_err: "fs_write api f i v = (Inl err, f') \<Longrightarrow> contents f' = contents f"
    and delete_ok: "fs_delete api f i = (Inr u, f') \<Longrightarrow> contents f' = (contents f)(i := None)"
    and delete_err: "fs_delete api f i = (Inl err, f') \<Longrightarrow> contents f' = contents f"
    and clear_ok: "fs_clear api f = (Inr u, f') \<Longrightarrow> contents f' = (\<lambda>_. None)"
    and mount_law: "fs_mount api f = (rc, f') \<Longrightarrow> contents f' = contents f"
    and id_pre_law: "take_bit 16 (fs_id_pre api) = 0"
begin

lemma kv_id_inj:
  assumes "ke_api e = api" "k < 65536" "k' < 65536" "kv_id e k = kv_id e k'"
  shows "k = k'"
proof -
  have "take_bit 16 (kv_id e k) = k" if "k < 65536" for k
    using that assms(1) id_pre_law by (simp add: kv_id_def take_bit_or take_bit_nat_eq_self)
  then show ?thesis using assms by metis
qed

lemma reflect_value_contents:
  assumes "ke_api e = api"
  shows "reflect_value e f key =
    (case contents f (kv_id e key) of None \<Rightarrow> 0 | Some v \<Rightarrow> if length v > 256 then 0 else ke_crc32 e v)"
  using assms by (simp add: reflect_value_def read_law split: option.splits)

lemma reflect_value_other:
  assumes "ke_api e = api" "k < 65536" "k' < 65536" "k' \<noteq> k" "contents f' = (contents f)(kv_id e k := x)"
  shows "reflect_value e f' k' = reflect_value e f k'"
  using assms kv_id_inj [of e k' k] by (auto simp: reflect_value_contents)

lemma reflect_value_same: "\<lbrakk>ke_api e = api; contents f' = contents f\<rbrakk> \<Longrightarrow> reflect_value e f' k = reflect_value e f k"
  by (simp add: reflect_value_contents)

end

subsection \<open>The checksums follow the values\<close>

definition reflect_ok :: "'f kv_env \<Rightarrow> ('f, 'w) kv_store \<Rightarrow> bool" where
  "reflect_ok e s \<longleftrightarrow> value_crc_slots s = map (reflect_value e (kv_fs s)) (reflected_keys (ke_slots e)) \<and>
     reflect_crc s = slots_crc e (value_crc_slots s)"

lemma fold_update_range:
  "idx + n \<le> length slots \<Longrightarrow>
   fold (\<lambda>j slots. slots[idx + j := f j]) [0..<n] slots = take idx slots @ map f [0..<n] @ drop (idx + n) slots"
proof (induction n)
  case (Suc n)
  have d: "drop (idx + n) slots = slots ! (idx + n) # drop (Suc (idx + n)) slots"
    using Suc.prems by (simp add: Cons_nth_drop_Suc)
  show ?case using Suc by (simp add: list_update_append d)
qed simp

lemma reflect_init_slots_map:
  assumes "idx + length (reflected_keys defs) \<le> length slots" "\<forall>d\<in>set defs. sd_key d + sd_range d \<le> 65536"
  shows "reflect_init_slots e fs defs idx slots =
    take idx slots @ map (reflect_value e fs) (reflected_keys defs) @ drop (idx + length (reflected_keys defs)) slots"
  using assms
proof (induction defs arbitrary: idx slots)
  case (Cons d defs)
  show ?case
  proof (cases "reflected d")
    case True
    have "fold (\<lambda>j slots. slots[idx + j := reflect_value e fs (u16 (sd_key d + j))]) [0..<sd_range d] slots =
      take idx slots @ map (\<lambda>j. reflect_value e fs (u16 (sd_key d + j))) [0..<sd_range d] @ drop (idx + sd_range d) slots"
      using Cons.prems True by (intro fold_update_range) simp
    also have "map (\<lambda>j. reflect_value e fs (u16 (sd_key d + j))) [0..<sd_range d] = map (reflect_value e fs) (slot_keys d)"
      using Cons.prems by (simp add: slot_keys_def u16_def)
    finally show ?thesis using Cons True by (simp add: reflected_def ac_simps)
  next
    case False
    then show ?thesis using Cons by (simp add: reflected_def)
  qed
qed simp

definition slots_wf :: "key_value_slot_definition list \<Rightarrow> bool" where
  "slots_wf defs \<longleftrightarrow> sorted_wrt slot_before defs \<and> (\<forall>d\<in>set defs. sd_key d + sd_range d \<le> 65536)"

lemma slots_wf_internal: "kv_config_valid cfg \<Longrightarrow> slots_wf (kv_store_slots_internal cfg)"
  using slots_ordered slots_below_end(2) by (fastforce simp: slots_wf_def KV_KEY_BUILTIN_END_def)

lemma reflected_key_bound: "\<lbrakk>slots_wf defs; k \<in> set (reflected_keys defs)\<rbrakk> \<Longrightarrow> k < 65536"
  by (fastforce simp: slots_wf_def in_reflected_keys set_slot_keys)

lemma enabled_key_bound: "\<lbrakk>slots_wf defs; kv_store_key_enabled defs k\<rbrakk> \<Longrightarrow> k < 65536"
  unfolding kv_store_key_enabled_def kv_store_key_metadata_def key_metadata_enabled
  by (fastforce simp: slots_wf_def set_slot_keys)

lemma value_updated_fs [simp]: "kv_fs (value_updated e key ri data s) = kv_fs s"
  by (simp add: value_updated_def notify_value_changed_def kv_reflect_key_updated_def Let_def split: option.split)

lemma value_updated_cb_data [simp]:
  "kv_cb_data (value_updated e key ri data s) = kv_cb_data (notify_value_changed key data s)"
  by (simp add: value_updated_def notify_value_changed_def kv_reflect_key_updated_def Let_def split: option.split)

lemma notify_cb_data_fs [simp]: "kv_cb_data (notify_value_changed key data (s\<lparr>kv_fs := f\<rparr>)) = kv_cb_data (notify_value_changed key data s)"
  by (simp add: notify_value_changed_def)

lemma reflect_init_ok:
  assumes "slots_wf (ke_slots e)" "length (value_crc_slots s) = length (reflected_keys (ke_slots e))"
  shows "reflect_ok e (kv_reflect_init e s)"
  using assms by (simp add: kv_reflect_init_def reflect_ok_def Let_def reflect_init_slots_map slots_wf_def)

lemma reflect_init_id:
  assumes "slots_wf (ke_slots e)" "reflect_ok e s"
  shows "kv_reflect_init e s = s"
  using assms by (cases s) (simp add: kv_reflect_init_def reflect_ok_def Let_def reflect_init_slots_map slots_wf_def)

subsection \<open>Histories of the store\<close>

datatype kv_op =
    Kv_write nat "byte list"
  | Kv_delete nat
  | Kv_read_fallback nat nat "byte list"
  | Kv_reset

text \<open>One call of the interface; the result is dropped.\<close>

fun kv_apply :: "'f kv_env \<Rightarrow> kv_op \<Rightarrow> ('f, 'w) kv_store \<Rightarrow> ('f, 'w) kv_store" where
  "kv_apply e (Kv_write key data) s = snd (kv_store_write e key data s)"
| "kv_apply e (Kv_delete key) s = snd (kv_store_delete e key s)"
| "kv_apply e (Kv_read_fallback key max_len fallback) s = snd (kv_store_read_fallback e key max_len fallback s)"
| "kv_apply e Kv_reset s = snd (kv_store_reset e s)"

text \<open>Values that reflection can checksum again from flash: not empty, and within the read buffer.\<close>

fun op_fits :: "kv_op \<Rightarrow> bool" where
  "op_fits (Kv_write key data) \<longleftrightarrow> data \<noteq> [] \<and> length data \<le> 256"
| "op_fits (Kv_read_fallback key max_len fallback) \<longleftrightarrow> fallback \<noteq> [] \<and> length fallback \<le> 256"
| "op_fits _ \<longleftrightarrow> True"

text \<open>
  The calls of a history from a state of the store: their values fit, and resets report success. (A clear that fails
  midway leaves values erased, and \<open>kv_store_reset\<close> then does not recompute the checksums.)
\<close>

definition op_ok :: "'f kv_env \<Rightarrow> kv_op \<Rightarrow> ('f, 'w) kv_store \<Rightarrow> bool" where
  "op_ok e oper s \<longleftrightarrow> op_fits oper \<and> (oper = Kv_reset \<longrightarrow> fst (kv_store_reset e s) = Inr ())"

fun kv_history_ok :: "'f kv_env \<Rightarrow> kv_op list \<Rightarrow> ('f, 'w) kv_store \<Rightarrow> bool" where
  "kv_history_ok e [] s \<longleftrightarrow> True"
| "kv_history_ok e (oper # ops) s \<longleftrightarrow> op_ok e oper s \<and> kv_history_ok e ops (kv_apply e oper s)"

context kv_backend
begin

lemma reflect_ok_same:
  assumes "ke_api e = api" "reflect_ok e s" "contents f' = contents (kv_fs s)"
  shows "reflect_ok e (s\<lparr>kv_fs := f'\<rparr>)"
  using assms reflect_value_same [of e f' "kv_fs s"] by (simp add: reflect_ok_def)

lemma reflect_ok_notify [simp]: "reflect_ok e (notify_value_changed key data s) \<longleftrightarrow> reflect_ok e s"
  by (simp add: notify_value_changed_def reflect_ok_def)

lemma reflect_ok_updated:
  assumes e: "ke_api e = api" and wf: "slots_wf (ke_slots e)" and ok: "reflect_ok e s"
    and meta: "kv_store_key_metadata (ke_slots e) key = Some (fl, ri)"
    and new: "contents f' = (contents (kv_fs s))(kv_id e key := data)" "\<And>d. data = Some d \<Longrightarrow> length d \<le> 256"
  shows "reflect_ok e (value_updated e key ri data (s\<lparr>kv_fs := f'\<rparr>))"
proof -
  let ?ks = "reflected_keys (ke_slots e)"
  obtain d where "d \<in> set (ke_slots e)" "key \<in> set (slot_keys d)"
    using meta key_metadata_enabled [of "ke_slots e" key 0] by (auto simp: kv_store_key_metadata_def)
  then have k: "key < 65536" using wf by (fastforce simp: slots_wf_def set_slot_keys)
  have other: "reflect_value e f' k' = reflect_value e (kv_fs s) k'" if "k' \<in> set ?ks" "k' \<noteq> key" for k'
    using reflect_value_other [OF e k _ _ new(1)] reflected_key_bound [OF wf] that by blast
  show ?thesis
  proof (cases ri)
    case None
    then have "key \<notin> set ?ks"
      using meta wf key_metadata_unreflected by (simp add: kv_store_key_metadata_def slots_wf_def)
    then have "map (reflect_value e f') ?ks = map (reflect_value e (kv_fs s)) ?ks" using other by (auto intro!: map_cong)
    then show ?thesis using None ok by (simp add: value_updated_def reflect_ok_def notify_value_changed_def)
  next
    case (Some i)
    then have i: "i < length ?ks" "?ks ! i = key"
      using meta key_metadata_index [of "ke_slots e" key 0 fl i] by (auto simp: kv_store_key_metadata_def)
    have dist: "distinct ?ks" using wf distinct_reflected_keys by (simp add: slots_wf_def)
    have self: "reflect_value e f' key = (case data of None \<Rightarrow> 0 | Some d \<Rightarrow> ke_crc32 e d)"
      using e new by (auto simp: reflect_value_contents split: option.splits)
    have "(value_crc_slots s)[i := (case data of None \<Rightarrow> 0 | Some d \<Rightarrow> ke_crc32 e d)] = map (reflect_value e f') ?ks"
      using ok i self other dist
      by (intro nth_equalityI) (auto simp: reflect_ok_def nth_list_update nth_eq_iff_index_eq)
    then show ?thesis using Some by (simp add: value_updated_def kv_reflect_key_updated_def reflect_ok_def Let_def notify_value_changed_def)
  qed
qed

lemma kv_apply_reflect_ok:
  assumes e: "ke_api e = api" and wf: "slots_wf (ke_slots e)" and ok: "reflect_ok e s" and fits: "op_ok e oper s"
  shows "reflect_ok e (kv_apply e oper s)"
proof (cases oper)
  case (Kv_write key data)
  obtain rc f' where w: "fs_write api (kv_fs s) (kv_id e key) data = (rc, f')" by force
  show ?thesis
    using Kv_write fits e wf ok w write_ok [of data "kv_fs s" "kv_id e key" _ f']
      write_err [of "kv_fs s" "kv_id e key" data _ f']
    by (auto simp: op_ok_def kv_store_write_def fun_upd_idem intro!: reflect_ok_updated reflect_ok_same
        split: option.split sum.split if_splits)
next
  case (Kv_delete key)
  obtain rc f' where d: "fs_delete api (kv_fs s) (kv_id e key) = (rc, f')" by force
  show ?thesis
    using Kv_delete e wf ok d delete_ok [of "kv_fs s" "kv_id e key" _ f'] delete_err [of "kv_fs s" "kv_id e key" _ f']
    by (auto simp: kv_store_delete_def intro!: reflect_ok_updated reflect_ok_same split: option.split sum.split)
next
  case (Kv_read_fallback key max_len fallback)
  obtain rc f' where w: "fs_write api (kv_fs s) (kv_id e key) fallback = (rc, f')" by force
  show ?thesis
    using Kv_read_fallback fits e wf ok w write_ok [of fallback "kv_fs s" "kv_id e key" _ f']
      write_err [of "kv_fs s" "kv_id e key" fallback _ f']
    by (auto simp: op_ok_def kv_store_read_fallback_def Let_def fun_upd_idem read_law
        intro!: reflect_ok_updated reflect_ok_same split: option.splits sum.split)
next
  case Kv_reset
  obtain rc f' where c: "fs_clear api (kv_fs s) = (rc, f')" by force
  have len: "length (value_crc_slots s) = length (reflected_keys (ke_slots e))" using ok by (simp add: reflect_ok_def)
  show ?thesis
    using Kv_reset e wf ok c len fits
    by (auto simp: op_ok_def kv_store_reset_def intro!: reflect_init_ok reflect_ok_same split: sum.split prod.split)
qed

lemma kv_read_contents:
  assumes "ke_api e = api"
  shows "kv_store_read e k m s = (if kv_store_key_enabled (ke_slots e) k
    then (case contents (kv_fs s) (kv_id e k) of None \<Rightarrow> Inl ENOENT | Some v \<Rightarrow> Inr (length v, take m v)) else Inl EACCES)"
  using assms by (simp add: kv_store_read_def read_law)

lemma kv_read_same:
  assumes "ke_api e = api" "contents (kv_fs s') = contents (kv_fs s)"
  shows "kv_store_read e k m s' = kv_store_read e k m s"
  using assms by (simp add: kv_read_contents)

lemma kv_read_other:
  assumes "ke_api e = api" "slots_wf (ke_slots e)" "kv_store_key_enabled (ke_slots e) key" "k \<noteq> key"
    and "contents (kv_fs s') = (contents (kv_fs s))(kv_id e key := x)"
  shows "kv_store_read e k m s' = kv_store_read e k m s"
  using assms kv_id_inj [of e k key] by (auto simp: kv_read_contents enabled_key_bound)

lemma kv_history_reflect_ok:
  assumes "ke_api e = api" "slots_wf (ke_slots e)" "reflect_ok e s" "kv_history_ok e ops s"
  shows "reflect_ok e (fold (kv_apply e) ops s)"
  using assms by (induction ops arbitrary: s) (simp_all add: kv_apply_reflect_ok)

end

lemma kv_init_reflect_ok:
  assumes "kv_store_init e s0 = (Inr (), s)" "slots_wf (ke_slots e)"
    "length (value_crc_slots s0) = length (reflected_keys (ke_slots e))"
  shows "reflect_ok e s"
  using assms by (auto simp: kv_store_init_def Let_def intro!: reflect_init_ok split: sum.splits prod.splits if_splits)

text \<open>
  C4. The reflection checksums always describe what is in flash. After initialisation and any sequence of writes,
  deletions and reads with fallback (of values of 1 to 256 bytes, the reflection read buffer), whether they succeed or
  fail, and of resets that report success, recomputing every slot checksum and the checksum over them from the flash contents, as
  \<open>kv_reflect_init\<close> does on the next boot, changes nothing.
\<close>

theorem kv_reflect_consistent:
  assumes "kv_backend (ke_api e) contents" "kv_config_valid cfg" "ke_slots e = kv_store_slots_internal cfg"
    and "length (value_crc_slots s0) = KV_REFLECT_NUM cfg" "kv_store_init e s0 = (Inr (), s)" "kv_history_ok e ops s"
  shows "kv_reflect_init e (fold (kv_apply e) ops s) = fold (kv_apply e) ops s"
proof -
  have wf: "slots_wf (ke_slots e)" using assms(2,3) slots_wf_internal by simp
  have "length (reflected_keys (ke_slots e)) = KV_REFLECT_NUM cfg"
    using assms(3) by (simp add: length_reflected_keys reflect_num_slots)
  then have "reflect_ok e s" using kv_init_reflect_ok [OF assms(5) wf] assms(4) by simp
  then have "reflect_ok e (fold (kv_apply e) ops s)"
    using kv_backend.kv_history_reflect_ok [OF assms(1) refl wf _ assms(6)] by blast
  then show ?thesis by (rule reflect_init_id [OF wf])
qed

text \<open>
  C13. What is written is what is read. For an enabled key, a successful write of data that is not empty makes reads return it (cut
  to the buffer), leaves every other key as it was, and informs the callbacks, in order of registration, exactly
  when the stored value changed; a failed write leaves all values and callback data as they were.
\<close>

theorem kv_write_then_read:
  assumes "kv_backend (ke_api e) contents" "slots_wf (ke_slots e)" "kv_store_key_enabled (ke_slots e) key" "data \<noteq> []"
    and "kv_store_write e key data s = (rc, s')"
  shows "case rc of
      Inl _ \<Rightarrow> (\<forall>k m. kv_store_read e k m s' = kv_store_read e k m s) \<and> kv_cb_data s' = kv_cb_data s
    | Inr n \<Rightarrow> (\<forall>m. kv_store_read e key m s' = Inr (length data, take m data)) \<and>
        (\<forall>k m. k \<noteq> key \<longrightarrow> kv_store_read e k m s' = kv_store_read e k m s) \<and>
        (if kv_store_read e key (length data) s = Inr (length data, data) then n = 0 \<and> kv_cb_data s' = kv_cb_data s
         else n = length data \<and> kv_cb_data s' = kv_cb_data (notify_value_changed key (Some data) s))"
proof -
  note api = assms(1)
  obtain fl ri where meta: "kv_store_key_metadata (ke_slots e) key = Some (fl, ri)"
    using assms(3) by (auto simp: kv_store_key_enabled_def)
  obtain wrc f' where w: "fs_write (ke_api e) (kv_fs s) (kv_id e key) data = (wrc, f')" by force
  have fs: "rc = wrc" "kv_fs s' = f'" using assms(5) meta w by (auto split: sum.splits if_splits simp: kv_store_write_def)
  show ?thesis
  proof (cases wrc)
    case (Inl err)
    then have "s' = s\<lparr>kv_fs := f'\<rparr>" using assms(5) meta w by (simp add: kv_store_write_def)
    moreover have "contents f' = contents (kv_fs s)" using kv_backend.write_err [OF api w [unfolded Inl]] .
    ultimately show ?thesis using Inl fs by (simp add: kv_backend.kv_read_same [OF api refl, of "s\<lparr>kv_fs := f'\<rparr>" s])
  next
    case (Inr n)
    have law: "contents f' = (contents (kv_fs s))(kv_id e key \<mapsto> data)"
      "n = (if contents (kv_fs s) (kv_id e key) = Some data then 0 else length data)"
      using kv_backend.write_ok [OF api assms(4) w [unfolded Inr]] by simp_all
    have cb: "kv_cb_data s' = (if n > 0 then kv_cb_data (notify_value_changed key (Some data) s) else kv_cb_data s)"
      using assms(5) meta w Inr by (auto simp: kv_store_write_def)
    have same: "kv_store_read e key (length data) s = Inr (length data, data) \<longleftrightarrow> contents (kv_fs s) (kv_id e key) = Some data"
      using assms(3) by (auto simp: kv_backend.kv_read_contents [OF api refl] split: option.splits)
    have new: "kv_store_read e key m s' = Inr (length data, take m data)" for m
      using assms(3) law fs by (simp add: kv_backend.kv_read_contents [OF api refl])
    have "kv_store_read e k m s' = kv_store_read e k m s" if "k \<noteq> key" for k m
      using kv_backend.kv_read_other [OF api refl assms(2,3) that, of s' s "Some data" m] law(1) fs(2) by simp
    then show ?thesis using Inr fs new same law(2) cb assms(4) by simp
  qed
qed

text \<open>
  C24. Reading with a fallback. If the key is enabled and has no value, the fallback, which is not empty, is stored and returned (cut to
  the buffer) and the callbacks are informed; if it has one, that is returned and nothing is written.
\<close>

theorem kv_fallback_stored:
  assumes "kv_backend (ke_api e) contents" "slots_wf (ke_slots e)" "kv_store_key_enabled (ke_slots e) key" "fallback \<noteq> []"
    and "kv_store_read_fallback e key m fallback s = (Inr v, s')"
  shows "case kv_store_read e key m s of
      Inr old \<Rightarrow> v = old \<and> s' = s
    | Inl err \<Rightarrow> err = ENOENT \<and> v = (length fallback, take m fallback) \<and> kv_store_read e key m s' = Inr v \<and>
        kv_cb_data s' = kv_cb_data (notify_value_changed key (Some fallback) s)"
proof -
  note api = assms(1)
  obtain fl ri where meta: "kv_store_key_metadata (ke_slots e) key = Some (fl, ri)"
    using assms(3) by (auto simp: kv_store_key_enabled_def)
  show ?thesis
  proof (cases "contents (kv_fs s) (kv_id e key)")
    case (Some old)
    then show ?thesis using assms(3,5) meta
      by (simp add: kv_backend.kv_read_contents [OF api refl] kv_store_read_fallback_def kv_backend.read_law [OF api])
  next
    case None
    obtain n f' where w: "fs_write (ke_api e) (kv_fs s) (kv_id e key) fallback = (Inr n, f')"
      using assms(5) meta None
      by (cases "fs_write (ke_api e) (kv_fs s) (kv_id e key) fallback")
        (auto simp: kv_store_read_fallback_def kv_backend.read_law [OF api] split: sum.splits)
    have "contents f' = (contents (kv_fs s))(kv_id e key \<mapsto> fallback)" "n = length fallback"
      using kv_backend.write_ok [OF api assms(4) w] None by simp_all
    then show ?thesis using assms(3,5) meta None w
      by (auto simp: kv_backend.kv_read_contents [OF api refl] kv_store_read_fallback_def kv_backend.read_law [OF api] Let_def)
  qed
qed

text \<open>
  C25. Access control. Keys outside the slot table are refused by every operation with \<open>EACCES\<close>, without touching
  the store; the external interfaces refuse read-only and write-only keys with \<open>EPERM\<close>.
\<close>

theorem kv_access_denied:
  assumes "slots_wf (ke_slots e)"
  shows "(key \<notin> (\<Union>d\<in>set (ke_slots e). set (slot_keys d)) \<longrightarrow>
      kv_store_write e key data s = (Inl EACCES, s) \<and> kv_store_delete e key s = (Inl EACCES, s) \<and>
      kv_store_read e key m s = Inl EACCES \<and> kv_store_read_fallback e key m data s = (Inl EACCES, s) \<and>
      kv_store_external_write_only (ke_slots e) key = Inl EACCES \<and>
      kv_store_external_read_only (ke_slots e) key = Inl EACCES) \<and>
    (\<forall>d\<in>set (ke_slots e). key \<in> set (slot_keys d) \<longrightarrow>
      kv_store_external_write_only (ke_slots e) key = (if sd_flags d AND KV_FLAGS_WRITE_ONLY \<noteq> 0 then Inl EPERM else Inr ()) \<and>
      kv_store_external_read_only (ke_slots e) key = (if sd_flags d AND KV_FLAGS_READ_ONLY \<noteq> 0 then Inl EPERM else Inr ()))"
proof (intro conjI ballI impI)
  assume "key \<notin> (\<Union>d\<in>set (ke_slots e). set (slot_keys d))"
  then have "kv_store_key_metadata (ke_slots e) key = None"
    using key_metadata_enabled [of "ke_slots e" key 0] unfolding kv_store_key_metadata_def by blast
  then show "kv_store_write e key data s = (Inl EACCES, s)" "kv_store_delete e key s = (Inl EACCES, s)"
    "kv_store_read e key m s = Inl EACCES" "kv_store_read_fallback e key m data s = (Inl EACCES, s)"
    "kv_store_external_write_only (ke_slots e) key = Inl EACCES" "kv_store_external_read_only (ke_slots e) key = Inl EACCES"
    by (simp_all add: kv_store_key_enabled_def kv_store_write_def kv_store_delete_def kv_store_read_def
        kv_store_read_fallback_def kv_store_external_write_only_def kv_store_external_read_only_def)
next
  fix d assume "d \<in> set (ke_slots e)" "key \<in> set (slot_keys d)"
  then obtain ri where "kv_store_key_metadata (ke_slots e) key = Some (sd_flags d, ri)"
    using key_metadata_slot assms by (fastforce simp: kv_store_key_metadata_def slots_wf_def)
  then show "kv_store_external_write_only (ke_slots e) key = (if sd_flags d AND KV_FLAGS_WRITE_ONLY \<noteq> 0 then Inl EPERM else Inr ())"
    "kv_store_external_read_only (ke_slots e) key = (if sd_flags d AND KV_FLAGS_READ_ONLY \<noteq> 0 then Inl EPERM else Inr ())"
    by (simp_all add: kv_store_external_write_only_def kv_store_external_read_only_def)
qed

subsection \<open>Reads after successful calls\<close>

context kv_backend
begin

lemma read_after_write:
  assumes "ke_api e = api" "slots_wf (ke_slots e)" "data \<noteq> []" "kv_store_write e key data s = (Inr n, s')"
  shows "kv_store_read e k m s' = (if k = key then Inr (length data, take m data) else kv_store_read e k m s)"
proof -
  obtain f' where en: "kv_store_key_enabled (ke_slots e) key"
    and w: "fs_write api (kv_fs s) (kv_id e key) data = (Inr n, f')" and "kv_fs s' = f'"
    using assms(1,4) by (auto simp: kv_store_write_def kv_store_key_enabled_def split: option.splits prod.splits sum.splits if_splits)
  then have c: "contents (kv_fs s') = (contents (kv_fs s))(kv_id e key \<mapsto> data)" using write_ok [OF assms(3) w] by simp
  then show ?thesis using kv_read_other [OF assms(1,2) en _ c] assms(1) en by (auto simp: kv_read_contents)
qed

lemma read_after_delete:
  assumes "ke_api e = api" "slots_wf (ke_slots e)" "kv_store_key_enabled (ke_slots e) key"
    and "kv_store_delete e key s = (r, s')" "r = Inr () \<or> kv_store_read e key 0 s = Inl ENOENT"
  shows "kv_store_read e k m s' = (if k = key then Inl ENOENT else kv_store_read e k m s)"
proof (cases "kv_store_read e key 0 s = Inl ENOENT")
  case True
  then have "s' = s"
    using assms(1,3,4) by (auto simp: kv_store_delete_def kv_store_read_def kv_store_key_enabled_def split: option.splits)
  then show ?thesis using True assms(1,3) by (auto simp: kv_read_contents split: option.splits)
next
  case False
  then obtain f' where d: "fs_delete api (kv_fs s) (kv_id e key) = (Inr (), f')" "kv_fs s' = f'"
    using assms(1,3-5)
    by (auto simp: kv_store_delete_def kv_store_key_enabled_def split: option.splits prod.splits sum.splits if_splits)
  then have c: "contents (kv_fs s') = (contents (kv_fs s))(kv_id e key := None)" using delete_ok [OF d(1)] by simp
  then show ?thesis using kv_read_other [OF assms(1-3) _ c] assms(1,3) by (auto simp: kv_read_contents)
qed

end

subsection \<open>Storage held in memory\<close>

text \<open>A file system that keeps the promises: the values as a map.\<close>

definition mem_kv_api :: "(nat \<rightharpoonup> byte list) kv_fs_api" where
  "mem_kv_api = \<lparr>
     fs_read = (\<lambda>f i n. case f i of None \<Rightarrow> Inl ENOENT | Some v \<Rightarrow> Inr (length v, take n v)),
     fs_write = (\<lambda>f i v. if f i = Some v then (Inr 0, f) else if v = [] then (Inr 0, f(i := None))
                         else (Inr (length v), f(i \<mapsto> v))),
     fs_delete = (\<lambda>f i. (Inr (), f(i := None))),
     fs_clear = (\<lambda>f. (Inr (), \<lambda>_. None)),
     fs_mount = (\<lambda>f. (Inr (), f)),
     fs_page_info = (\<lambda>f. Inr 4096),
     fs_area_erase = (\<lambda>f _. None),
     fs_id_pre = 0,
     fs_no_fs_error = EDEADLK\<rparr>"

interpretation mem_kv: kv_backend mem_kv_api "\<lambda>f. f"
  by unfold_locales (auto simp: mem_kv_api_def fun_upd_idem split: if_splits option.splits)

definition demo_cfg :: kv_config where
  "demo_cfg = \<lparr>cf_enabled = (\<lambda>k. k \<in> {KV_KEY_REBOOTS, KV_KEY_DEVICE_NAME, KV_KEY_WIFI_PSK, KV_KEY_GEOFENCE}),
     cf_geofence_range = 2, cf_task_schedules_range = 2, cf_secure_storage_reserved_range = 1\<rparr>"

definition demo_slots :: "key_value_slot_definition list" where
  "demo_slots = [\<lparr>sd_key = 0, sd_range = 1, sd_flags = 0\<rparr>, \<lparr>sd_key = 4, sd_range = 1, sd_flags = KV_FLAGS_REFLECT\<rparr>,
     \<lparr>sd_key = 21, sd_range = 1, sd_flags = KV_FLAGS_REFLECT OR KV_FLAGS_WRITE_ONLY\<rparr>,
     \<lparr>sd_key = 100, sd_range = 2, sd_flags = KV_FLAGS_REFLECT\<rparr>]"

definition demo_env :: "(nat \<rightharpoonup> byte list) kv_env" where
  "demo_env = \<lparr>ke_api = mem_kv_api, ke_crc32 = (\<lambda>bs. \<Sum>b\<leftarrow>bs. unat b), ke_slots = demo_slots\<rparr>"

definition demo_store :: "(nat \<rightharpoonup> byte list, (nat \<times> byte list option) list) kv_store" where
  "demo_store = \<lparr>kv_fs = (\<lambda>_. None), kv_cb_list = [Some (\<lambda>key data w. (key, data) # w)], kv_cb_data = [],
     value_crc_slots = [0, 0, 0, 0], reflect_crc = 0\<rparr>"

lemma demo_cfg_valid: "kv_config_valid demo_cfg" by (simp add: demo_cfg_def kv_config_valid_def)

lemma demo_slots_internal: "kv_store_slots_internal demo_cfg = demo_slots"
  by (simp add: kv_store_slots_internal_def kv_rows_defs row_slot_def demo_cfg_def demo_slots_def)

lemma demo_env_simps [simp]: "ke_api demo_env = mem_kv_api" "ke_slots demo_env = demo_slots"
  by (simp_all add: demo_env_def)

lemmas demo_slots_wf = slots_wf_internal [OF demo_cfg_valid, unfolded demo_slots_internal]

lemma demo_reflect_num: "KV_REFLECT_NUM demo_cfg = 4"
  by (simp add: KV_REFLECT_NUM_def kv_reflect_terms_def demo_cfg_def)

lemma demo_name_enabled: "kv_store_key_enabled demo_slots 4"
  by code_simp

theorem kv_reflect_consistent_witness:
  "(let ops = [Kv_write 4 [1, 2], Kv_read_fallback 101 4 [9],
       Kv_delete 4, Kv_reset, Kv_write 4 [3]];
     s = fold (kv_apply demo_env) ops (snd (kv_store_init demo_env demo_store))
   in kv_reflect_init demo_env s = s)"
proof -
  have "fst (kv_store_init demo_env demo_store) = Inr ()" by code_simp
  then have i: "kv_store_init demo_env demo_store = (Inr (), snd (kv_store_init demo_env demo_store))"
    by (metis prod.collapse)
  have "kv_history_ok demo_env [Kv_write 4 [1, 2], Kv_read_fallback 101 4 [9], Kv_delete 4, Kv_reset, Kv_write 4 [3]]
      (snd (kv_store_init demo_env demo_store))" by code_simp
  then show ?thesis unfolding Let_def
    by (intro kv_reflect_consistent [where contents = "\<lambda>f. f", OF _ demo_cfg_valid _ _ i])
      (simp_all add: mem_kv.kv_backend_axioms demo_store_def demo_slots_internal demo_reflect_num)
qed

theorem kv_write_then_read_witness:
  "case kv_store_write demo_env 4 [7, 8, 9] demo_store of (rc, s') \<Rightarrow>
     kv_store_read demo_env 4 2 s' = Inr (3, [7, 8])"
proof -
  obtain rc s' where w: "kv_store_write demo_env 4 [7, 8, 9] demo_store = (rc, s')" by force
  have "fst (kv_store_write demo_env 4 [7, 8, 9] demo_store) = Inr 3" by code_simp
  then have "rc = Inr 3" using w by simp
  then show ?thesis
    using kv_write_then_read [where contents = "\<lambda>f. f", OF _ _ _ _ w] demo_slots_wf demo_name_enabled
    by (simp add: w mem_kv.kv_backend_axioms)
qed

theorem kv_fallback_stored_witness:
  "case kv_store_read_fallback demo_env 4 2 [7, 8, 9] demo_store of (rc, s') \<Rightarrow>
     kv_store_read demo_env 4 2 s' = Inr (3, [7, 8])"
proof -
  let ?r = "kv_store_read_fallback demo_env 4 2 [7, 8, 9] demo_store"
  have "fst ?r = Inr (3, [7, 8])" by code_simp
  then have w: "?r = (Inr (3, [7, 8]), snd ?r)" by (metis prod.collapse)
  have absent: "kv_store_read demo_env 4 2 demo_store = Inl ENOENT" by code_simp
  show ?thesis
    using kv_fallback_stored [where contents = "\<lambda>f. f", OF _ _ _ _ w] demo_slots_wf demo_name_enabled absent
    by (subst w) (simp add: mem_kv.kv_backend_axioms)
qed

theorem kv_access_denied_witness:
  "kv_store_external_write_only demo_slots 21 = Inl EPERM \<and>
   kv_store_write demo_env 3 [1] demo_store = (Inl EACCES, demo_store)"
proof
  let ?d = "\<lparr>sd_key = 21, sd_range = 1, sd_flags = KV_FLAGS_REFLECT OR KV_FLAGS_WRITE_ONLY\<rparr>"
  have d: "?d \<in> set demo_slots" "sd_flags ?d AND KV_FLAGS_WRITE_ONLY \<noteq> 0" by code_simp+
  show "kv_store_external_write_only demo_slots 21 = Inl EPERM"
    using bspec [OF conjunct2 [OF kv_access_denied [of demo_env "21"]], of ?d] demo_slots_wf d
    by (simp add: set_slot_keys)
  have "\<forall>d\<in>set demo_slots. 3 \<notin> set (slot_keys d)" by code_simp
  then show "kv_store_write demo_env 3 [1] demo_store = (Inl EACCES, demo_store)"
    using kv_access_denied [of demo_env 3 "[1]" demo_store] demo_slots_wf by simp
qed

end
