(* ===== verification/Task_Runner.thy ===== *)
theory Task_Runner
  imports Task_Schedule Kv_Store "HOL-Library.Monad_Syntax"
begin

text \<open>
  The task runner, \<open>subsys/task_runner/runner.c\<close>: loading of the schedules from the key-value store, the
  iteration that starts and terminates tasks, and the reload when a schedule changes in the store. Every array
  access checks its index; an access outside its array gives \<open>None\<close>. What the runner does to the kernel
  (threads, work items, signals) and the event callbacks it makes are recorded in order in a log; what it learns
  from the kernel are parameters. The configuration modelled is the one with \<open>CONFIG_KV_STORE_KEY_TASK_SCHEDULES\<close>.
\<close>

subsection \<open>Data\<close>

datatype task_executor = TASK_EXECUTOR_THREAD | TASK_EXECUTOR_WORKQUEUE

definition TASK_FLAG_ARG_IS_DEVICE :: byte where "TASK_FLAG_ARG_IS_DEVICE = 1"

text \<open>The kernel objects, functions and arguments of a task are identified by the index of the task.\<close>

record task_config =
  tc_task_id :: nat
  tc_exec_type :: task_executor
  tc_flags :: byte

record task_data =
  td_reschedule_counter :: int
  td_schedule_idx :: nat
  td_running :: bool
  td_skip :: bool

datatype task_schedule_event = TASK_SCHEDULE_STARTED | TASK_SCHEDULE_TERMINATE_REQUEST | TASK_SCHEDULE_STOPPED

datatype runner_action =
    Work_init nat
  | Signal_init nat
  | Thread_create nat nat
  | Work_schedule nat
  | Signal_raise nat
  | Work_reschedule nat nat
  | Event_cb nat nat task_schedule_event

definition FLAGS_TRIGGER_SCHEDULE_RELOAD :: nat where "FLAGS_TRIGGER_SCHEDULE_RELOAD = 0"
definition FLAGS_TASKS_TERMINATING :: nat where "FLAGS_TASKS_TERMINATING = 1"
definition FLAGS_TASKS_RELOADING :: nat where "FLAGS_TASKS_RELOADING = 2"

lemmas runner_flag_defs = FLAGS_TRIGGER_SCHEDULE_RELOAD_def FLAGS_TASKS_TERMINATING_def FLAGS_TASKS_RELOADING_def

text \<open>
  The static variables. The runner's flags are changed by its callback on the key-value store, so they are part
  of the callback data of the store: the first component.
\<close>

type_synonym ('f, 'w) runner_kv = "('f, nat set \<times> 'w) kv_store"

record ('f, 'w) runner =
  sch :: "task_schedule list"
  default_sch :: "task_schedule list"
  sch_states :: "task_schedule_state list"
  sch_num :: nat
  tsk :: "task_config list"
  tsk_states :: "task_data list"
  schedule_cb_set :: bool
  runner_kv :: "('f, 'w) runner_kv"
  runner_log :: "runner_action list"

record 'f runner_env =
  re_kv :: "'f kv_env"
  re_range :: nat
  re_schedules_id :: nat
  re_assert :: bool

text \<open>What the kernel answers, by task: device ready, thread finished (a join without wait succeeds), work item busy.\<close>

record runner_kernel =
  rk_device_ready :: "nat \<Rightarrow> bool"
  rk_thread_joined :: "nat \<Rightarrow> bool"
  rk_work_busy :: "nat \<Rightarrow> bool"

definition runner_flags :: "('f, 'w) runner \<Rightarrow> nat set" where
  "runner_flags r = fst (kv_cb_data (runner_kv r))"

definition kv_set_flag :: "nat \<Rightarrow> ('f, 'w) runner_kv \<Rightarrow> ('f, 'w) runner_kv" where
  "kv_set_flag b kv = kv\<lparr>kv_cb_data := (insert b (fst (kv_cb_data kv)), snd (kv_cb_data kv))\<rparr>"

definition kv_clear_flag :: "nat \<Rightarrow> ('f, 'w) runner_kv \<Rightarrow> ('f, 'w) runner_kv" where
  "kv_clear_flag b kv = kv\<lparr>kv_cb_data := (fst (kv_cb_data kv) - {b}, snd (kv_cb_data kv))\<rparr>"

definition set_flag :: "nat \<Rightarrow> ('f, 'w) runner \<Rightarrow> ('f, 'w) runner" where
  "set_flag b r = r\<lparr>runner_kv := kv_set_flag b (runner_kv r)\<rparr>"

definition clear_flag :: "nat \<Rightarrow> ('f, 'w) runner \<Rightarrow> ('f, 'w) runner" where
  "clear_flag b r = r\<lparr>runner_kv := kv_clear_flag b (runner_kv r)\<rparr>"

definition log_action :: "runner_action \<Rightarrow> ('f, 'w) runner \<Rightarrow> ('f, 'w) runner" where
  "log_action a r = r\<lparr>runner_log := runner_log r @ [a]\<rparr>"

subsection \<open>Checked accesses and loops\<close>

definition at_idx :: "'a list \<Rightarrow> nat \<Rightarrow> 'a option" where
  "at_idx xs i = (if i < length xs then Some (xs ! i) else None)"

fun ofold :: "('a \<Rightarrow> 's \<Rightarrow> 's option) \<Rightarrow> 'a list \<Rightarrow> 's \<Rightarrow> 's option" where
  "ofold f [] s = Some s"
| "ofold f (x # xs) s = Option.bind (f x s) (ofold f xs)"

subsection \<open>Schedules as stored\<close>

definition conditions_bytes :: "state_conditions \<Rightarrow> byte list" where
  "conditions_bytes c = sc_metadata c # map word_of_nat (sc_states c)"

definition conditions_of :: "byte list \<Rightarrow> state_conditions" where
  "conditions_of bs = \<lparr>sc_metadata = bs ! 0, sc_states = map unat (bytes_at 1 4 bs)\<rparr>"

definition sizeof_task_schedule :: nat where "sizeof_task_schedule = 50"

definition task_schedule_bytes :: "task_schedule \<Rightarrow> byte list" where
  "task_schedule_bytes s =
     put_le 1 (sc_task_id s) @ [sc_validity s] @ put_le 1 (sc_periodicity_type s) @ put_le 1 (sc_boot_lockout_minutes s) @
     put_le 4 (sc_timeout_s s) @ put_le 1 (sc_start_lower s) @ put_le 1 (sc_start_upper s) @
     put_le 1 (sc_terminate_lower s) @ put_le 1 (sc_terminate_upper s) @ sc_periodicity s @
     put_le 2 (sc_states_start_timeout_2x_s s) @ conditions_bytes (sc_states_start s) @
     conditions_bytes (sc_states_terminate s) @ sc_logging_args s"

definition task_schedule_of :: "byte list \<Rightarrow> task_schedule" where
  "task_schedule_of bs =
     \<lparr>sc_task_id = le_at 0 1 bs, sc_validity = bs ! 1, sc_periodicity_type = le_at 2 1 bs,
      sc_boot_lockout_minutes = le_at 3 1 bs, sc_timeout_s = le_at 4 4 bs,
      sc_start_lower = le_at 8 1 bs, sc_start_upper = le_at 9 1 bs,
      sc_terminate_lower = le_at 10 1 bs, sc_terminate_upper = le_at 11 1 bs,
      sc_periodicity = bytes_at 12 6 bs, sc_states_start_timeout_2x_s = le_at 18 2 bs,
      sc_states_start = conditions_of (bytes_at 20 5 bs), sc_states_terminate = conditions_of (bytes_at 25 5 bs),
      sc_logging_args = bytes_at 30 20 bs\<rparr>"

subsection \<open>Loading\<close>

definition schedule_key :: "nat \<Rightarrow> nat" where
  "schedule_key i = kv_builtin_id KV_KEY_TASK_SCHEDULES + i"

definition kv_value_changed :: "nat \<Rightarrow> nat \<Rightarrow> byte list option \<Rightarrow> nat set \<times> 'w \<Rightarrow> nat set \<times> 'w" where
  "kv_value_changed num key data ctx =
     (if key < kv_builtin_id KV_KEY_TASK_SCHEDULES_DEFAULT_ID \<or> key \<ge> kv_builtin_id KV_KEY_TASK_SCHEDULES + num then ctx
      else if FLAGS_TASKS_RELOADING \<in> fst ctx then ctx
      else (insert FLAGS_TRIGGER_SCHEDULE_RELOAD (fst ctx), snd ctx))"

definition default_id_bytes :: "nat \<Rightarrow> byte list" where
  "default_id_bytes schedules_id = put_le 4 (push_bit 16 sizeof_task_schedule OR schedules_id)"

text \<open>The loop that stores the default schedules, over the store, the schedules written out and \<open>num_eval\<close>.\<close>

fun load_defaults ::
  "'f runner_env \<Rightarrow> task_schedule list \<Rightarrow> nat \<Rightarrow> ('f, 'w) runner_kv \<times> task_schedule list \<times> nat \<Rightarrow>
   ('f, 'w) runner_kv \<times> task_schedule list \<times> nat" where
  "load_defaults e [] i st = st"
| "load_defaults e (d # ds) i (kv, out, num_eval) =
     (if \<not> task_schedule_validate d then load_defaults e ds (Suc i) (kv, out, num_eval)
      else if i \<ge> re_range e then (kv, out, num_eval)
      else load_defaults e ds (Suc i)
             (snd (kv_store_write (re_kv e) (schedule_key i) (task_schedule_bytes d) kv), out[i := d], i + 1))"

definition load_stored :: "'f runner_env \<Rightarrow> task_schedule list \<Rightarrow> ('f, 'w) runner_kv \<Rightarrow> nat \<Rightarrow>
    task_schedule list \<times> nat \<Rightarrow> task_schedule list \<times> nat" where
  "load_stored e defaults kv i st =
     (case st of (out, num_eval) \<Rightarrow>
      if i < length defaults \<and> sc_validity (defaults ! i) AND TASK_LOCKED \<noteq> 0 then (out[i := defaults ! i], i + 1)
      else
        (case kv_store_read (re_kv e) (schedule_key i) sizeof_task_schedule kv of
           Inr (rc, bs) \<Rightarrow>
             if rc = sizeof_task_schedule then (out[i := task_schedule_of bs], i + 1)
             else (out[i := task_schedule_of (replicate sizeof_task_schedule 0)], num_eval)
         | Inl _ \<Rightarrow> (out[i := task_schedule_of (replicate sizeof_task_schedule 0)], num_eval)))"

definition task_runner_schedules_load ::
  "'f runner_env \<Rightarrow> nat \<Rightarrow> task_schedule list \<Rightarrow> task_schedule list \<Rightarrow> ('f, 'w) runner_kv \<Rightarrow>
   nat \<times> task_schedule list \<times> ('f, 'w) runner_kv" where
  "task_runner_schedules_load e schedules_id defaults out kv =
     (let kv = kv_set_flag FLAGS_TASKS_RELOADING kv;
          id_key = kv_builtin_id KV_KEY_TASK_SCHEDULES_DEFAULT_ID;
          (num_eval, out, kv) =
            (if kv_store_read (re_kv e) id_key 4 kv \<noteq> Inr (4, default_id_bytes schedules_id) then
               (let (kv, out, num_eval) = load_defaults e defaults 0 (kv, out, 0);
                    kv = fold (\<lambda>i kv. snd (kv_store_delete (re_kv e) (schedule_key i) kv)) [length defaults..<re_range e] kv
                in (num_eval, out, snd (kv_store_write (re_kv e) id_key (default_id_bytes schedules_id) kv)))
             else
               (let (out, num_eval) = fold (load_stored e defaults kv) [0..<re_range e] (out, 0)
                in (num_eval, out, kv)))
      in (num_eval, out, kv_clear_flag FLAGS_TASKS_RELOADING kv))"

subsection \<open>Initialisation\<close>

definition init_task :: "runner_kernel \<Rightarrow> nat \<Rightarrow> ('f, 'w) runner \<Rightarrow> ('f, 'w) runner option" where
  "init_task k i r = do {
     c \<leftarrow> at_idx (tsk r) i;
     d \<leftarrow> at_idx (tsk_states r) i;
     let d = d\<lparr>td_running := False, td_schedule_idx := 255,
               td_skip := (tc_flags c AND TASK_FLAG_ARG_IS_DEVICE \<noteq> 0 \<and> \<not> rk_device_ready k i \<or> td_skip d)\<rparr>;
     let r = r\<lparr>tsk_states := (tsk_states r)[i := d]\<rparr>;
     Some (if tc_exec_type c = TASK_EXECUTOR_WORKQUEUE then log_action (Work_init i) r else r)
   }"

definition init_tasks :: "runner_kernel \<Rightarrow> ('f, 'w) runner \<Rightarrow> ('f, 'w) runner option" where
  "init_tasks k r = ofold (init_task k) [0..<length (tsk r)] r"

text \<open>The first task with an identifier, counting from \<open>j\<close>.\<close>

fun find_task :: "task_config list \<Rightarrow> nat \<Rightarrow> nat \<Rightarrow> nat option" where
  "find_task [] task_id j = None"
| "find_task (c # cs) task_id j = (if task_id = tc_task_id c then Some j else find_task cs task_id (Suc j))"

text \<open>The link of a schedule to another one's state: an address outside the array is \<open>None\<close>.\<close>

definition schedule_link :: "nat \<Rightarrow> nat \<Rightarrow> task_schedule \<Rightarrow> nat option option" where
  "schedule_link num_schedules num_states s =
     (if sc_periodicity_type s \<noteq> TASK_PERIODICITY_AFTER \<or> after_schedule_idx s \<ge> num_schedules then Some None
      else if after_schedule_idx s < num_states then Some (Some (after_schedule_idx s)) else None)"

definition init_schedule :: "nat \<Rightarrow> bool \<Rightarrow> nat \<Rightarrow> ('f, 'w) runner \<Rightarrow> ('f, 'w) runner option" where
  "init_schedule num_schedules event_cb_reset i r = do {
     s \<leftarrow> at_idx (sch r) i;
     st \<leftarrow> at_idx (sch_states r) i;
     let st = st\<lparr>ss_task_idx := 255, ss_linked := None,
                 ss_event_cb := (if event_cb_reset then None else ss_event_cb st)\<rparr>;
     st \<leftarrow> (if \<not> task_schedule_validate s then Some st
            else (case find_task (tsk r) (sc_task_id s) 0 of
                    None \<Rightarrow> Some st
                  | Some j \<Rightarrow> map_option
                      (\<lambda>l. st\<lparr>ss_task_idx := j, ss_linked := l, ss_last_run := 0, ss_last_terminate := 0, ss_runtime := 0\<rparr>)
                      (schedule_link num_schedules (length (sch_states r)) s)));
     Some (r\<lparr>sch_states := (sch_states r)[i := st]\<rparr>)
   }"

definition init_schedules :: "nat \<Rightarrow> bool \<Rightarrow> ('f, 'w) runner \<Rightarrow> ('f, 'w) runner option" where
  "init_schedules num_schedules event_cb_reset r =
     ofold (init_schedule num_schedules event_cb_reset) [0..<sch_num r] r"

text \<open>The schedules loaded into the array of the runner.\<close>

definition reload_schedules :: "'f runner_env \<Rightarrow> ('f, 'w) runner \<Rightarrow> ('f, 'w) runner" where
  "reload_schedules e r =
     (let (num, out, kv) = task_runner_schedules_load e (re_schedules_id e) (default_sch r) (sch r) (runner_kv r)
      in r\<lparr>sch_num := u8 num, sch := out, runner_kv := kv\<rparr>)"

definition task_runner_init ::
  "'f runner_env \<Rightarrow> runner_kernel \<Rightarrow> task_schedule list \<Rightarrow> task_schedule_state list \<Rightarrow> task_config list \<Rightarrow>
   task_data list \<Rightarrow> ('f, 'w) runner \<Rightarrow> ('f, 'w) runner option" where
  "task_runner_init e k schedules schedule_states tasks task_states r = do {
     let r = r\<lparr>sch_states := schedule_states, tsk := tasks, tsk_states := task_states, default_sch := schedules\<rparr>;
     let r = reload_schedules e r;
     let r = (if schedule_cb_set r then r
              else r\<lparr>schedule_cb_set := True,
                     runner_kv := kv_store_register_callback (Some (kv_value_changed (re_range e))) (runner_kv r)\<rparr>);
     r \<leftarrow> init_tasks k r;
     init_schedules (length schedules) True r
   }"

definition task_schedule_from_data :: "task_data \<Rightarrow> ('f, 'w) runner \<Rightarrow> task_schedule option" where
  "task_schedule_from_data d r = at_idx (sch r) (td_schedule_idx d)"

definition task_workqueue_reschedule :: "bool \<Rightarrow> nat \<Rightarrow> nat \<Rightarrow> ('f, 'w) runner \<Rightarrow> ('f, 'w) runner option" where
  "task_workqueue_reschedule signaled j delay r = do {
     d \<leftarrow> at_idx (tsk_states r) j;
     let d = d\<lparr>td_reschedule_counter := td_reschedule_counter d + 1\<rparr>;
     Some (log_action (Work_reschedule j (if signaled then 0 else delay)) (r\<lparr>tsk_states := (tsk_states r)[j := d]\<rparr>))
   }"

subsection \<open>Starting and terminating\<close>

definition notify_event :: "task_schedule_state \<Rightarrow> nat \<Rightarrow> task_schedule_event \<Rightarrow> ('f, 'w) runner \<Rightarrow> ('f, 'w) runner" where
  "notify_event st i ev r = (case ss_event_cb st of None \<Rightarrow> r | Some cb \<Rightarrow> log_action (Event_cb cb i ev) r)"

definition task_start :: "nat \<Rightarrow> nat \<Rightarrow> ('f, 'w) runner \<Rightarrow> ('f, 'w) runner option" where
  "task_start i uptime r = do {
     _ \<leftarrow> at_idx (sch r) i;
     st \<leftarrow> at_idx (sch_states r) i;
     let j = ss_task_idx st;
     c \<leftarrow> at_idx (tsk r) j;
     d \<leftarrow> at_idx (tsk_states r) j;
     let st = st\<lparr>ss_last_run := uptime, ss_runtime := 0\<rparr>;
     let d = d\<lparr>td_running := True, td_schedule_idx := i\<rparr>;
     let d' = (if tc_exec_type c = TASK_EXECUTOR_THREAD then d else d\<lparr>td_reschedule_counter := 0\<rparr>);
     let r = log_action (Signal_init j)
               (r\<lparr>sch_states := (sch_states r)[i := st], tsk_states := (tsk_states r)[j := d']\<rparr>);
     let r = log_action (if tc_exec_type c = TASK_EXECUTOR_THREAD then Thread_create j i else Work_schedule j) r;
     Some (notify_event st i TASK_SCHEDULE_STARTED r)
   }"

definition task_terminate :: "nat \<Rightarrow> ('f, 'w) runner \<Rightarrow> ('f, 'w) runner option" where
  "task_terminate i r = do {
     _ \<leftarrow> at_idx (sch r) i;
     st \<leftarrow> at_idx (sch_states r) i;
     let j = ss_task_idx st;
     c \<leftarrow> at_idx (tsk r) j;
     _ \<leftarrow> at_idx (tsk_states r) j;
     let r = log_action (Signal_raise j) r;
     let r = (if tc_exec_type c = TASK_EXECUTOR_WORKQUEUE then log_action (Work_reschedule j 0) r else r);
     Some (notify_event st i TASK_SCHEDULE_TERMINATE_REQUEST r)
   }"

definition task_has_terminated :: "runner_kernel \<Rightarrow> nat \<Rightarrow> ('f, 'w) runner \<Rightarrow> (bool \<times> ('f, 'w) runner) option" where
  "task_has_terminated k j r = do {
     c \<leftarrow> at_idx (tsk r) j;
     d \<leftarrow> at_idx (tsk_states r) j;
     _ \<leftarrow> at_idx (sch r) (td_schedule_idx d);
     st \<leftarrow> at_idx (sch_states r) (td_schedule_idx d);
     Some (if (if tc_exec_type c = TASK_EXECUTOR_THREAD then \<not> rk_thread_joined k j else rk_work_busy k j) then (False, r)
           else (True, notify_event st (td_schedule_idx d) TASK_SCHEDULE_STOPPED r))
   }"

subsection \<open>Iteration\<close>

definition terminate_for_reload :: "nat \<Rightarrow> ('f, 'w) runner \<Rightarrow> ('f, 'w) runner option" where
  "terminate_for_reload i r = do {
     st \<leftarrow> at_idx (sch_states r) i;
     d \<leftarrow> at_idx (tsk_states r) (ss_task_idx st);
     if i = td_schedule_idx d \<and> td_running d then task_terminate i r else Some r
   }"

definition iterate_handle_task_reload :: "'f runner_env \<Rightarrow> ('f, 'w) runner \<Rightarrow> (bool \<times> ('f, 'w) runner) option" where
  "iterate_handle_task_reload e r = do {
     r \<leftarrow> (if FLAGS_TRIGGER_SCHEDULE_RELOAD \<in> runner_flags r then
             map_option (set_flag FLAGS_TASKS_TERMINATING)
               (ofold terminate_for_reload [0..<sch_num r] (clear_flag FLAGS_TRIGGER_SCHEDULE_RELOAD r))
           else Some r);
     if FLAGS_TASKS_TERMINATING \<in> runner_flags r then
       (if list_ex td_running (take (length (tsk r)) (tsk_states r)) then Some (True, r)
        else map_option (Pair False)
               (init_schedules (length (default_sch r)) False (reload_schedules e (clear_flag FLAGS_TASKS_TERMINATING r))))
     else Some (False, r)
   }"

definition collect_terminated :: "runner_kernel \<Rightarrow> nat \<Rightarrow> nat \<Rightarrow> ('f, 'w) runner \<Rightarrow> ('f, 'w) runner option" where
  "collect_terminated k uptime j r = do {
     d \<leftarrow> at_idx (tsk_states r) j;
     if \<not> td_running d then Some r
     else do {
       (terminated, r) \<leftarrow> task_has_terminated k j r;
       if \<not> terminated then Some r
       else do {
         st \<leftarrow> at_idx (sch_states r) (td_schedule_idx d);
         Some (r\<lparr>sch_states := (sch_states r)[td_schedule_idx d := st\<lparr>ss_last_terminate := uptime\<rparr>],
                 tsk_states := (tsk_states r)[j := d\<lparr>td_running := False\<rparr>]\<rparr>)
       }
     }
   }"

definition runtime_plus_1 :: "nat \<Rightarrow> ('f, 'w) runner \<Rightarrow> ('f, 'w) runner option" where
  "runtime_plus_1 i r = do {
     st \<leftarrow> at_idx (sch_states r) i;
     Some (r\<lparr>sch_states := (sch_states r)[i := st\<lparr>ss_runtime := u32 (ss_runtime st + 1)\<rparr>]\<rparr>)
   }"

definition evaluate_schedule ::
  "'f runner_env \<Rightarrow> nat set \<Rightarrow> nat \<Rightarrow> nat \<Rightarrow> nat \<Rightarrow> nat \<Rightarrow> ('f, 'w) runner \<Rightarrow> ('f, 'w) runner option" where
  "evaluate_schedule e app uptime gps_time battery_charge i r = do {
     s \<leftarrow> at_idx (sch r) i;
     st \<leftarrow> at_idx (sch_states r) i;
     if ss_task_idx st = 255 then Some r
     else do {
       d \<leftarrow> at_idx (tsk_states r) (ss_task_idx st);
       if td_skip d then Some r
       else if td_running d \<and> td_schedule_idx d \<noteq> i then Some r
       else if validity_masked s = TASK_VALID_PERMANENTLY_RUNS then
         Option.bind (if td_running d then Some r else task_start i uptime r) (runtime_plus_1 i)
       else if td_running d then do {
         r \<leftarrow> runtime_plus_1 i r;
         st \<leftarrow> at_idx (sch_states r) i;
         if task_schedule_should_terminate s st app uptime gps_time battery_charge then task_terminate i r else Some r
       }
       else do {
         linked \<leftarrow> (case ss_linked st of None \<Rightarrow> Some None | Some l \<Rightarrow> map_option Some (at_idx (sch_states r) l));
         transition \<leftarrow> task_schedule_should_start (re_assert e) s st linked app uptime gps_time battery_charge;
         if transition then task_start i uptime r else Some r
       }
     }
   }"

definition task_runner_iterate ::
  "'f runner_env \<Rightarrow> runner_kernel \<Rightarrow> nat set \<Rightarrow> nat \<Rightarrow> nat \<Rightarrow> nat \<Rightarrow> ('f, 'w) runner \<Rightarrow> ('f, 'w) runner option" where
  "task_runner_iterate e k app uptime gps_time battery_charge r = do {
     r \<leftarrow> ofold (collect_terminated k uptime) [0..<length (tsk r)] r;
     (waiting, r) \<leftarrow> iterate_handle_task_reload e r;
     if waiting then Some r
     else ofold (evaluate_schedule e app uptime gps_time battery_charge) [0..<sch_num r] r
   }"

subsection \<open>The stored form of a schedule\<close>

definition conditions_wf :: "state_conditions \<Rightarrow> bool" where
  "conditions_wf c \<longleftrightarrow> length (sc_states c) = 4 \<and> list_all (\<lambda>x. x < 256) (sc_states c)"

text \<open>The fields within their C types.\<close>

definition schedule_wf :: "task_schedule \<Rightarrow> bool" where
  "schedule_wf s \<longleftrightarrow> sc_task_id s < 256 \<and> sc_periodicity_type s < 256 \<and> sc_boot_lockout_minutes s < 256 \<and>
     sc_timeout_s s < 4294967296 \<and> sc_start_lower s < 256 \<and> sc_start_upper s < 256 \<and> sc_terminate_lower s < 256 \<and>
     sc_terminate_upper s < 256 \<and> length (sc_periodicity s) = 6 \<and> sc_states_start_timeout_2x_s s < 65536 \<and>
     conditions_wf (sc_states_start s) \<and> conditions_wf (sc_states_terminate s) \<and> length (sc_logging_args s) = 20"

lemma bytes_at_append [simp]:
  "length xs \<le> off \<Longrightarrow> bytes_at off n (xs @ ys) = bytes_at (off - length xs) n ys"
  "length xs = n \<Longrightarrow> bytes_at 0 n (xs @ ys) = xs" "length xs = n \<Longrightarrow> bytes_at 0 n xs = xs"
  by (simp_all add: bytes_at_def)

lemma bytes_at_Cons [simp]:
  "bytes_at (numeral w) n (x # xs) = bytes_at (pred_numeral w) n xs" "bytes_at (Suc k) n (x # xs) = bytes_at k n xs"
  by (simp_all add: bytes_at_def numeral_eq_Suc)

lemma length_conditions_bytes [simp]: "length (conditions_bytes c) = Suc (length (sc_states c))"
  by (simp add: conditions_bytes_def)

lemma conditions_of_bytes: "conditions_wf c \<Longrightarrow> conditions_of (conditions_bytes c) = c"
  by (cases c) (auto simp: conditions_wf_def conditions_of_def conditions_bytes_def bytes_at_def unat_of_nat list_all_iff
      intro: map_idI)

lemma length_schedule_bytes [simp]: "schedule_wf s \<Longrightarrow> length (task_schedule_bytes s) = sizeof_task_schedule"
  by (simp add: task_schedule_bytes_def schedule_wf_def conditions_wf_def sizeof_task_schedule_def)

lemma schedule_bytes_nonempty [simp]: "task_schedule_bytes s \<noteq> []"
  by (simp add: task_schedule_bytes_def)

lemma task_schedule_of_bytes:
  assumes "schedule_wf s"
  shows "task_schedule_of (task_schedule_bytes s) = s"
proof -
  have l: "length (conditions_bytes (sc_states_start s)) = 5" "length (conditions_bytes (sc_states_terminate s)) = 5"
    "length (sc_periodicity s) = 6" "length (sc_logging_args s) = 20"
    using assms by (simp_all add: schedule_wf_def conditions_wf_def)
  have c: "conditions_of (conditions_bytes (sc_states_start s)) = sc_states_start s"
    "conditions_of (conditions_bytes (sc_states_terminate s)) = sc_states_terminate s"
    using assms conditions_of_bytes by (simp_all add: schedule_wf_def)
  have v: "task_schedule_bytes s ! 1 = sc_validity s"
    by (simp add: task_schedule_bytes_def)
  show ?thesis unfolding task_schedule_of_def v using assms l c
    by (cases s) (simp add: task_schedule_bytes_def le_at_def schedule_wf_def del: put_le.simps length_conditions_bytes)
qed

subsection \<open>Loading in one pass\<close>

text \<open>What the stored branch gives for one index, and whether it counts for evaluation.\<close>

definition stored_schedule :: "'f runner_env \<Rightarrow> task_schedule list \<Rightarrow> ('f, 'w) runner_kv \<Rightarrow> nat \<Rightarrow> task_schedule option" where
  "stored_schedule e defaults kv i =
     (if i < length defaults \<and> sc_validity (defaults ! i) AND TASK_LOCKED \<noteq> 0 then Some (defaults ! i)
      else (case kv_store_read (re_kv e) (schedule_key i) sizeof_task_schedule kv of
              Inr (rc, bs) \<Rightarrow> if rc = sizeof_task_schedule then Some (task_schedule_of bs) else None
            | Inl _ \<Rightarrow> None))"

definition null_schedule :: task_schedule where
  "null_schedule = task_schedule_of (replicate sizeof_task_schedule 0)"

definition stored_or_null :: "'f runner_env \<Rightarrow> task_schedule list \<Rightarrow> ('f, 'w) runner_kv \<Rightarrow> nat \<Rightarrow> task_schedule" where
  "stored_or_null e defaults kv i = (case stored_schedule e defaults kv i of None \<Rightarrow> null_schedule | Some s \<Rightarrow> s)"

lemma load_stored_step:
  "load_stored e defaults kv i (out, num) =
     (out[i := stored_or_null e defaults kv i], if stored_schedule e defaults kv i = None then num else Suc i)"
  by (auto simp: load_stored_def stored_schedule_def stored_or_null_def null_schedule_def split: sum.split)

fun last_index :: "(nat \<Rightarrow> bool) \<Rightarrow> nat \<Rightarrow> nat" where
  "last_index p 0 = 0"
| "last_index p (Suc m) = (if p m then Suc m else last_index p m)"

lemma last_index_le: "last_index p m \<le> m" by (induction m) auto

lemma last_index_less: "last_index p m \<le> i \<Longrightarrow> i < m \<Longrightarrow> \<not> p i"
  by (induction m) (auto split: if_splits simp: less_Suc_eq)

lemma last_index_eq: "\<lbrakk>\<And>i. i < m \<Longrightarrow> p i = (i < n); n \<le> m\<rbrakk> \<Longrightarrow> last_index p m = n"
proof (induction m)
  case (Suc m)
  then show ?case by (cases "n = Suc m") auto
qed simp

lemma load_stored_fold:
  "m \<le> length out \<Longrightarrow> fold (load_stored e defaults kv) [0..<m] (out, 0) =
     (map (stored_or_null e defaults kv) [0..<m] @ drop m out, last_index (\<lambda>i. stored_schedule e defaults kv i \<noteq> None) m)"
proof (induction m)
  case (Suc m)
  have d: "drop m out = out ! m # drop (Suc m) out" using Suc.prems by (simp add: Cons_nth_drop_Suc)
  show ?case using Suc by (simp add: load_stored_step list_update_append d)
qed simp

lemma schedule_key_simps [simp]:
  "schedule_key i = schedule_key j \<longleftrightarrow> i = j" "schedule_key i \<noteq> 1000" "1000 \<noteq> schedule_key i"
  "schedule_key i - schedule_key j = i - j" "schedule_key i \<le> schedule_key j \<longleftrightarrow> i \<le> j"
  "schedule_key i - Suc (schedule_key j) = i - Suc j"
  by (simp_all add: schedule_key_def)

lemma kv_flag_reads [simp]:
  "kv_store_read ke k m (kv_set_flag b kv) = kv_store_read ke k m kv"
  "kv_store_read ke k m (kv_clear_flag b kv) = kv_store_read ke k m kv"
  by (simp_all add: kv_store_read_def kv_set_flag_def kv_clear_flag_def)

lemma kv_flag_stored [simp]:
  "stored_schedule e ds (kv_set_flag b kv) = stored_schedule e ds kv"
  "stored_schedule e ds (kv_clear_flag b kv) = stored_schedule e ds kv"
  "stored_or_null e ds (kv_set_flag b kv) = stored_or_null e ds kv"
  "stored_or_null e ds (kv_clear_flag b kv) = stored_or_null e ds kv"
  by (simp_all add: stored_schedule_def stored_or_null_def fun_eq_iff)

text \<open>The keys of the runner are part of the slot table.\<close>

definition runner_keys_ok :: "'f runner_env \<Rightarrow> bool" where
  "runner_keys_ok e \<longleftrightarrow> slots_wf (ke_slots (re_kv e)) \<and>
     kv_store_key_enabled (ke_slots (re_kv e)) (kv_builtin_id KV_KEY_TASK_SCHEDULES_DEFAULT_ID) \<and>
     (\<forall>i < re_range e. kv_store_key_enabled (ke_slots (re_kv e)) (schedule_key i))"

definition default_stored :: "'f runner_env \<Rightarrow> nat \<Rightarrow> ('f, 'w) runner_kv \<Rightarrow> bool" where
  "default_stored e schedules_id kv \<longleftrightarrow>
     kv_store_read (re_kv e) (kv_builtin_id KV_KEY_TASK_SCHEDULES_DEFAULT_ID) 4 kv = Inr (4, default_id_bytes schedules_id)"

lemma load_matching:
  assumes "default_stored e sid kv" "length out = re_range e"
  shows "\<exists>kv'. task_runner_schedules_load e sid ds out kv =
    (last_index (\<lambda>i. stored_schedule e ds kv i \<noteq> None) (re_range e), map (stored_or_null e ds kv) [0..<re_range e], kv')"
  using assms by (simp add: task_runner_schedules_load_def default_stored_def load_stored_fold)

text \<open>
  The calls to the store in one load: the writes of the defaults, the deletions behind them, and the write of the set
  identifier. The code ignores their results; these predicates say that the writes reported success, and that each
  deletion did, or had nothing to delete.
\<close>

fun default_writes_ok :: "'f runner_env \<Rightarrow> task_schedule list \<Rightarrow> nat \<Rightarrow> ('f, 'w) runner_kv \<Rightarrow> bool" where
  "default_writes_ok e [] i kv \<longleftrightarrow> True"
| "default_writes_ok e (d # ds) i kv \<longleftrightarrow>
     (case kv_store_write (re_kv e) (schedule_key i) (task_schedule_bytes d) kv of
        (rc, kv) \<Rightarrow> \<not> isl rc \<and> default_writes_ok e ds (Suc i) kv)"

fun deletes_ok :: "'f runner_env \<Rightarrow> nat list \<Rightarrow> ('f, 'w) runner_kv \<Rightarrow> bool" where
  "deletes_ok e [] kv \<longleftrightarrow> True"
| "deletes_ok e (i # is) kv \<longleftrightarrow>
     (case kv_store_delete (re_kv e) (schedule_key i) kv of
        (rc, kv') \<Rightarrow> (rc = Inr () \<or> kv_store_read (re_kv e) (schedule_key i) 0 kv = Inl ENOENT) \<and> deletes_ok e is kv')"

definition load_stores :: "'f runner_env \<Rightarrow> nat \<Rightarrow> task_schedule list \<Rightarrow> task_schedule list \<Rightarrow> ('f, 'w) runner_kv \<Rightarrow> bool" where
  "load_stores e sid ds out kv \<longleftrightarrow>
     (let kv0 = kv_set_flag FLAGS_TASKS_RELOADING kv;
          kv1 = fst (load_defaults e ds 0 (kv0, out, 0));
          kv2 = fold (\<lambda>i kv. snd (kv_store_delete (re_kv e) (schedule_key i) kv)) [length ds..<re_range e] kv1
      in default_writes_ok e ds 0 kv0 \<and> deletes_ok e [length ds..<re_range e] kv1 \<and>
         \<not> isl (fst (kv_store_write (re_kv e) (kv_builtin_id KV_KEY_TASK_SCHEDULES_DEFAULT_ID) (default_id_bytes sid) kv2)))"

lemma not_isl_Inr: "\<not> isl r \<longleftrightarrow> (\<exists>n. r = Inr n)"
  by (cases r) simp_all

context kv_backend
begin

lemma load_defaults_valid:
  assumes "ke_api (re_kv e) = api" "runner_keys_ok e" "list_all task_schedule_validate ds" "i + length ds \<le> re_range e"
    and "length out = re_range e" "ds \<noteq> [] \<or> n = i" "default_writes_ok e ds i kv"
  shows "\<exists>kv'. load_defaults e ds i (kv, out, n) = (kv', take i out @ ds @ drop (i + length ds) out, i + length ds) \<and>
    (\<forall>k m. kv_store_read (re_kv e) k m kv' =
      (if \<exists>j < length ds. k = schedule_key (i + j)
       then (let bs = task_schedule_bytes (ds ! (k - schedule_key i)) in Inr (length bs, take m bs))
       else kv_store_read (re_kv e) k m kv))"
  using assms(3-)
proof (induction ds arbitrary: i kv out n)
  case (Cons d ds)
  let ?kv = "snd (kv_store_write (re_kv e) (schedule_key i) (task_schedule_bytes d) kv)"
  have i: "i < re_range e" "kv_store_key_enabled (ke_slots (re_kv e)) (schedule_key i)" "slots_wf (ke_slots (re_kv e))"
    using Cons.prems assms(2) by (auto simp: runner_keys_ok_def)
  obtain rc where rc: "kv_store_write (re_kv e) (schedule_key i) (task_schedule_bytes d) kv = (Inr rc, ?kv)"
    and rest: "default_writes_ok e ds (Suc i) ?kv"
    using Cons.prems(5) by (auto simp: not_isl_Inr split: prod.splits)
  note w = read_after_write [OF assms(1) i(3) schedule_bytes_nonempty rc]
  obtain kv' where kv': "load_defaults e ds (Suc i) (?kv, out[i := d], Suc i) =
      (kv', take (Suc i) (out[i := d]) @ ds @ drop (Suc i + length ds) (out[i := d]), Suc i + length ds)"
    "\<forall>k m. kv_store_read (re_kv e) k m kv' =
      (if \<exists>j < length ds. k = schedule_key (Suc i + j)
       then (let bs = task_schedule_bytes (ds ! (k - schedule_key (Suc i))) in Inr (length bs, take m bs))
       else kv_store_read (re_kv e) k m ?kv)"
    using Cons.IH [of "Suc i" "out[i := d]" "Suc i" ?kv] Cons.prems rest by auto
  have out: "take (Suc i) (out[i := d]) = take i out @ [d]" using i Cons.prems by (simp add: take_Suc_conv_app_nth)
  have "kv_store_read (re_kv e) k m kv' =
      (if \<exists>j < Suc (length ds). k = schedule_key (i + j)
       then (let bs = task_schedule_bytes ((d # ds) ! (k - schedule_key i)) in Inr (length bs, take m bs))
       else kv_store_read (re_kv e) k m kv)" for k m
    unfolding kv'(2) [rule_format] by (auto simp: Let_def nth_Cons' less_Suc_eq_0_disj w)
  then show ?case using kv'(1) Cons.prems i(1) by (intro exI [of _ kv']) (simp add: out)
qed simp

lemma delete_rest:
  assumes "ke_api (re_kv e) = api" "runner_keys_ok e" "set js \<subseteq> {..<re_range e}"
    and "deletes_ok e js kv"
  shows "kv_store_read (re_kv e) k m (fold (\<lambda>i kv. snd (kv_store_delete (re_kv e) (schedule_key i) kv)) js kv) =
    (if k \<in> schedule_key ` set js then Inl ENOENT else kv_store_read (re_kv e) k m kv)"
  using assms(3,4)
proof (induction js arbitrary: kv)
  case (Cons i js)
  have "kv_store_key_enabled (ke_slots (re_kv e)) (schedule_key i)" "slots_wf (ke_slots (re_kv e))"
    using Cons.prems assms(2) by (auto simp: runner_keys_ok_def)
  note d = read_after_delete [OF assms(1) this(2,1)]
  obtain rc kv' where r: "kv_store_delete (re_kv e) (schedule_key i) kv = (rc, kv')"
    "rc = Inr () \<or> kv_store_read (re_kv e) (schedule_key i) 0 kv = Inl ENOENT" "deletes_ok e js kv'"
    using Cons.prems(2) by (auto split: prod.splits)
  show ?case using Cons.IH [of kv'] Cons.prems(1) r by (auto simp: d [OF r(1,2)])
qed simp

lemma load_first:
  assumes "ke_api (re_kv e) = api" "runner_keys_ok e" "list_all task_schedule_validate ds" "length ds \<le> re_range e"
    and "length out = re_range e" "\<not> default_stored e sid kv" "ds \<noteq> []"
    and "load_stores e sid ds out kv"
  shows "\<exists>kv'. task_runner_schedules_load e sid ds out kv = (length ds, ds @ drop (length ds) out, kv') \<and>
    default_stored e sid kv' \<and>
    (\<forall>i < re_range e. \<forall>m. kv_store_read (re_kv e) (schedule_key i) m kv' =
      (if i < length ds then Inr (length (task_schedule_bytes (ds ! i)), take m (task_schedule_bytes (ds ! i))) else Inl ENOENT))"
proof -
  let ?id = "kv_builtin_id KV_KEY_TASK_SCHEDULES_DEFAULT_ID"
  let ?kv0 = "kv_set_flag FLAGS_TASKS_RELOADING kv"
  obtain kv1 where kv1: "load_defaults e ds 0 (?kv0, out, 0) = (kv1, ds @ drop (length ds) out, length ds)"
    "\<forall>k m. kv_store_read (re_kv e) k m kv1 =
      (if \<exists>j < length ds. k = schedule_key j
       then (let bs = task_schedule_bytes (ds ! (k - schedule_key 0)) in Inr (length bs, take m bs))
       else kv_store_read (re_kv e) k m ?kv0)"
    using load_defaults_valid [OF assms(1-3), of 0 out 0 ?kv0] assms(4,5,8)
    by (auto simp: load_stores_def Let_def simp del: kv_flag_reads)
  define kv2 where "kv2 = fold (\<lambda>i kv. snd (kv_store_delete (re_kv e) (schedule_key i) kv)) [length ds..<re_range e] kv1"
  define kv3 where "kv3 = snd (kv_store_write (re_kv e) ?id (default_id_bytes sid) kv2)"
  have ok: "deletes_ok e [length ds..<re_range e] kv1"
    "\<not> isl (fst (kv_store_write (re_kv e) ?id (default_id_bytes sid) kv2))"
    using assms(8) kv1(1) by (simp_all add: load_stores_def Let_def kv2_def)
  have rd2: "kv_store_read (re_kv e) (schedule_key i) m kv2 =
    (if i < length ds then Inr (length (task_schedule_bytes (ds ! i)), take m (task_schedule_bytes (ds ! i))) else Inl ENOENT)"
    if "i < re_range e" for i m
    unfolding kv2_def using that kv1(2)
    by (subst delete_rest [OF assms(1,2) _ ok(1)]) (auto simp: Let_def)
  have en: "kv_store_key_enabled (ke_slots (re_kv e)) ?id" "slots_wf (ke_slots (re_kv e))"
    using assms(2) by (auto simp: runner_keys_ok_def)
  have len: "default_id_bytes sid \<noteq> []" "length (default_id_bytes sid) = 4"
    by (simp_all add: default_id_bytes_def flip: length_0_conv del: put_le.simps)
  obtain rc where "kv_store_write (re_kv e) ?id (default_id_bytes sid) kv2 = (Inr rc, kv3)"
    using ok(2) by (auto simp: kv3_def not_isl_Inr prod_eq_iff)
  note rd3 = read_after_write [OF assms(1) en(2) len(1) this]
  have "task_runner_schedules_load e sid ds out kv =
      (length ds, ds @ drop (length ds) out, kv_clear_flag FLAGS_TASKS_RELOADING kv3)"
    using assms(6) kv1(1) by (simp add: task_runner_schedules_load_def default_stored_def kv3_def kv2_def Let_def)
  moreover have "default_stored e sid (kv_clear_flag FLAGS_TASKS_RELOADING kv3)"
    using rd3 len by (simp add: default_stored_def)
  moreover have "kv_store_read (re_kv e) (schedule_key i) m (kv_clear_flag FLAGS_TASKS_RELOADING kv3) =
    kv_store_read (re_kv e) (schedule_key i) m kv2" for i m
    using rd3 by simp
  ultimately show ?thesis using rd2 by (intro exI [of _ "kv_clear_flag FLAGS_TASKS_RELOADING kv3"]) simp
qed

end

text \<open>
  C12. Schedules survive. Take a non-empty list of valid default schedules that has room in the slots, and a store
  whose set identifier differs. Loading installs the defaults; and if the calls to the store that this load makes
  report success (the code itself ignores their results), loading again, as on the next boot, gives the same
  schedules and the same number of them, whatever was in the array. After a schedule has been written to the store
  remotely with success, loading gives exactly that schedule at its index, unless the default there is locked, and
  the same as before at all others.
\<close>

theorem schedules_load_roundtrip:
  assumes "kv_backend (ke_api (re_kv e)) contents" "runner_keys_ok e"
    and "list_all task_schedule_validate ds" "list_all schedule_wf ds" "ds \<noteq> []" "length ds \<le> re_range e"
    and "\<not> default_stored e sid kv" "length out = re_range e" "length out' = re_range e" "load_stores e sid ds out kv"
    and "task_runner_schedules_load e sid ds out kv = (n, out1, kv1)"
  shows "n = length ds \<and> take n out1 = ds \<and>
    (\<exists>kv2. task_runner_schedules_load e sid ds out' kv1 = (n, ds @ replicate (re_range e - n) null_schedule, kv2)) \<and>
    (\<forall>i s rc kv'. i < re_range e \<longrightarrow> schedule_wf s \<longrightarrow>
      kv_store_write (re_kv e) (schedule_key i) (task_schedule_bytes s) kv1 = (Inr rc, kv') \<longrightarrow>
      (let (n2, out2, kv2) = task_runner_schedules_load e sid ds out' kv'
       in out2 = (ds @ replicate (re_range e - n) null_schedule)
            [i := (if i < n \<and> sc_validity (ds ! i) AND TASK_LOCKED \<noteq> 0 then ds ! i else s)]))"
proof -
  have bk: "kv_backend (ke_api (re_kv e)) contents" by fact
  have first: "n = length ds" "out1 = ds @ drop (length ds) out" "default_stored e sid kv1"
    "i < re_range e \<Longrightarrow> kv_store_read (re_kv e) (schedule_key i) m kv1 =
      (if i < length ds then Inr (length (task_schedule_bytes (ds ! i)), take m (task_schedule_bytes (ds ! i))) else Inl ENOENT)" for i m
    using kv_backend.load_first [OF bk refl assms(2,3,6,8,7,5,10)] assms(11) by auto
  have st: "stored_schedule e ds kv1 i = (if i < n then Some (ds ! i) else None)" if "i < re_range e" for i
    using that assms(4) by (simp add: stored_schedule_def first list_all_length task_schedule_of_bytes)
  have all: "map (stored_or_null e ds kv1) [0..<re_range e] = ds @ replicate (re_range e - n) null_schedule"
    using assms(6) by (intro nth_equalityI) (auto simp: stored_or_null_def st first(1) nth_append)
  have "last_index (\<lambda>i. stored_schedule e ds kv1 i \<noteq> None) (re_range e) = n"
    using st assms(6) first(1) by (intro last_index_eq) auto
  then have second: "\<exists>kv2. task_runner_schedules_load e sid ds out' kv1 = (n, ds @ replicate (re_range e - n) null_schedule, kv2)"
    using load_matching [OF first(3) assms(9), of ds] all by simp
  have upd: "(let (n2, out2, kv2) = task_runner_schedules_load e sid ds out' kv'
       in out2 = (ds @ replicate (re_range e - n) null_schedule)
            [i := (if i < n \<and> sc_validity (ds ! i) AND TASK_LOCKED \<noteq> 0 then ds ! i else s)])"
    if i: "i < re_range e" and s: "schedule_wf s"
      and w: "kv_store_write (re_kv e) (schedule_key i) (task_schedule_bytes s) kv1 = (Inr rc, kv')" for i s rc kv'
  proof -
    have en: "slots_wf (ke_slots (re_kv e))" using assms(2) by (simp add: runner_keys_ok_def)
    note rd = kv_backend.read_after_write [OF bk refl en schedule_bytes_nonempty w]
    have "default_stored e sid kv'" using first(3) by (simp add: default_stored_def rd)
    then obtain n2 kv2 where "task_runner_schedules_load e sid ds out' kv' = (n2, map (stored_or_null e ds kv') [0..<re_range e], kv2)"
      using load_matching [OF _ assms(9)] by blast
    moreover have "map (stored_or_null e ds kv') [0..<re_range e] = (map (stored_or_null e ds kv1) [0..<re_range e])
        [i := (if i < n \<and> sc_validity (ds ! i) AND TASK_LOCKED \<noteq> 0 then ds ! i else s)]"
      using s by (intro nth_equalityI)
        (auto simp: nth_list_update stored_or_null_def stored_schedule_def rd task_schedule_of_bytes first(1))
    ultimately show ?thesis by (simp add: all)
  qed
  show ?thesis using first(1,2) second upd by simp
qed

end
