(* ===== verification/Runner_Invariant.thy ===== *)
theory Runner_Invariant
  imports Task_Runner
begin

text \<open>
  The iteration of the task runner is correct: an invariant on the state arrays under which no access leaves its
  array, exact accounting of the tasks that are started, and the reload after a change in the key-value store.
\<close>

subsection \<open>The invariant of the runner\<close>

text \<open>
  The arrays have their sizes, every schedule under evaluation is either marked invalid or validated and refers
  to a task, links point into the array, and a running task was started by a schedule that refers to it.
\<close>

definition schedule_ok :: "('f, 'w) runner \<Rightarrow> nat \<Rightarrow> bool" where
  "schedule_ok r i \<longleftrightarrow>
     (ss_task_idx (sch_states r ! i) = 255 \<or>
      ss_task_idx (sch_states r ! i) < length (tsk r) \<and> task_schedule_validate (sch r ! i)) \<and>
     (\<forall>l. ss_linked (sch_states r ! i) = Some l \<longrightarrow> l < length (sch_states r))"

definition task_ok :: "('f, 'w) runner \<Rightarrow> nat \<Rightarrow> bool" where
  "task_ok r j \<longleftrightarrow> (td_running (tsk_states r ! j) \<longrightarrow>
     td_schedule_idx (tsk_states r ! j) < sch_num r \<and> ss_task_idx (sch_states r ! td_schedule_idx (tsk_states r ! j)) = j)"

definition runner_sizes :: "'f runner_env \<Rightarrow> ('f, 'w) runner \<Rightarrow> bool" where
  "runner_sizes e r \<longleftrightarrow> length (sch r) = re_range e \<and> length (sch_states r) = re_range e \<and> sch_num r \<le> re_range e \<and>
     re_range e < 256 \<and> length (tsk_states r) = length (tsk r) \<and> length (tsk r) \<le> 255 \<and> length (default_sch r) \<le> re_range e"

definition runner_inv :: "'f runner_env \<Rightarrow> ('f, 'w) runner \<Rightarrow> bool" where
  "runner_inv e r \<longleftrightarrow> runner_sizes e r \<and> (\<forall>i < sch_num r. schedule_ok r i) \<and> (\<forall>j < length (tsk r). task_ok r j)"

text \<open>What a step within an iteration leaves alone.\<close>

definition same_config :: "('f, 'w) runner \<Rightarrow> ('f, 'w) runner \<Rightarrow> bool" where
  "same_config r r' \<longleftrightarrow> sch r' = sch r \<and> default_sch r' = default_sch r \<and> sch_num r' = sch_num r \<and> tsk r' = tsk r \<and>
     runner_kv r' = runner_kv r \<and> schedule_cb_set r' = schedule_cb_set r"

lemma same_config_refl [simp]: "same_config r r" by (simp add: same_config_def)

lemma same_config_trans: "same_config r r' \<Longrightarrow> same_config r' r'' \<Longrightarrow> same_config r r''" by (simp add: same_config_def)

lemma same_config_flags: "same_config r r' \<Longrightarrow> runner_flags r' = runner_flags r" by (simp add: same_config_def runner_flags_def)

lemma at_idx_simp [simp]: "i < length xs \<Longrightarrow> at_idx xs i = Some (xs ! i)" by (simp add: at_idx_def)

lemma log_action_fields [simp]:
  "sch (log_action a r) = sch r" "default_sch (log_action a r) = default_sch r" "sch_states (log_action a r) = sch_states r"
  "sch_num (log_action a r) = sch_num r" "tsk (log_action a r) = tsk r" "tsk_states (log_action a r) = tsk_states r"
  "schedule_cb_set (log_action a r) = schedule_cb_set r" "runner_kv (log_action a r) = runner_kv r"
  "runner_log (log_action a r) = runner_log r @ [a]"
  by (simp_all add: log_action_def)

lemma notify_event_fields [simp]:
  "sch (notify_event st i ev r) = sch r" "default_sch (notify_event st i ev r) = default_sch r"
  "sch_states (notify_event st i ev r) = sch_states r" "sch_num (notify_event st i ev r) = sch_num r"
  "tsk (notify_event st i ev r) = tsk r" "tsk_states (notify_event st i ev r) = tsk_states r"
  "schedule_cb_set (notify_event st i ev r) = schedule_cb_set r" "runner_kv (notify_event st i ev r) = runner_kv r"
  by (simp_all add: notify_event_def split: option.split)

lemma ofold_total:
  assumes "\<And>x s. \<lbrakk>x \<in> set xs; P s\<rbrakk> \<Longrightarrow> \<exists>s'. f x s = Some s' \<and> P s'" "P s"
  shows "\<exists>s'. ofold f xs s = Some s' \<and> P s'"
  using assms
proof (induction xs arbitrary: s)
  case (Cons x xs)
  obtain s1 where "f x s = Some s1" "P s1" using Cons.prems by fastforce
  then show ?case using Cons by fastforce
qed simp

text \<open>Facts that only concern one entry of the state arrays carry over to an update there.\<close>

lemma runner_inv_update:
  assumes "runner_inv e r" "same_config r r'" "length (sch_states r') = length (sch_states r)"
    "length (tsk_states r') = length (tsk_states r)"
    and "\<And>i. i < sch_num r \<Longrightarrow> ss_task_idx (sch_states r' ! i) = ss_task_idx (sch_states r ! i) \<and>
      ss_linked (sch_states r' ! i) = ss_linked (sch_states r ! i)"
    and "\<And>j. \<lbrakk>j < length (tsk r); td_running (tsk_states r' ! j)\<rbrakk> \<Longrightarrow>
      td_schedule_idx (tsk_states r' ! j) < sch_num r \<and> ss_task_idx (sch_states r ! td_schedule_idx (tsk_states r' ! j)) = j"
  shows "runner_inv e r'"
  using assms by (auto simp: runner_inv_def same_config_def runner_sizes_def schedule_ok_def task_ok_def)

subsection \<open>Steps of an iteration\<close>

abbreviation running :: "('f, 'w) runner \<Rightarrow> nat \<Rightarrow> bool" where
  "running r j \<equiv> td_running (tsk_states r ! j)"

text \<open>The kernel still executes the task.\<close>

definition still_busy :: "runner_kernel \<Rightarrow> ('f, 'w) runner \<Rightarrow> nat \<Rightarrow> bool" where
  "still_busy k r j = (if tc_exec_type (tsk r ! j) = TASK_EXECUTOR_THREAD then \<not> rk_thread_joined k j else rk_work_busy k j)"

fun starts :: "nat \<Rightarrow> runner_action \<Rightarrow> bool" where
  "starts j (Thread_create j' i) \<longleftrightarrow> j' = j"
| "starts j (Work_schedule j') \<longleftrightarrow> j' = j"
| "starts j _ \<longleftrightarrow> False"

definition num_starts :: "nat \<Rightarrow> runner_action list \<Rightarrow> nat" where
  "num_starts j as = length (filter (starts j) as)"

lemma num_starts_append [simp]: "num_starts j (as @ bs) = num_starts j as + num_starts j bs" by (simp add: num_starts_def)
lemma num_starts_Nil [simp]: "num_starts j [] = 0" by (simp add: num_starts_def)

text \<open>
  The actions of a step: tasks that begin to run are started once, no other task is started, and no task stops
  running. A step of the collection loop, on the other hand, starts nothing.
\<close>

definition starting :: "('f, 'w) runner \<Rightarrow> ('f, 'w) runner \<Rightarrow> bool" where
  "starting r r' \<longleftrightarrow> same_config r r' \<and> (\<forall>j < length (tsk r). running r j \<longrightarrow> running r' j) \<and>
     (\<exists>as. runner_log r' = runner_log r @ as \<and>
       (\<forall>j < length (tsk r). num_starts j as = (if running r' j \<and> \<not> running r j then 1 else 0)))"

lemma starting_refl [simp]: "starting r r" by (simp add: starting_def)

lemma startingE:
  assumes "starting r r'"
  obtains as where "same_config r r'" "\<And>j. \<lbrakk>j < length (tsk r); running r j\<rbrakk> \<Longrightarrow> running r' j" "runner_log r' = runner_log r @ as"
    "\<And>j. j < length (tsk r) \<Longrightarrow> num_starts j as = (if running r' j \<and> \<not> running r j then 1 else 0)"
  using assms unfolding starting_def by blast

lemma starting_trans:
  assumes "starting r r'" "starting r' r''"
  shows "starting r r''"
proof -
  from assms(1) obtain as where a: "same_config r r'" "\<And>j. \<lbrakk>j < length (tsk r); running r j\<rbrakk> \<Longrightarrow> running r' j"
    "runner_log r' = runner_log r @ as"
    "\<And>j. j < length (tsk r) \<Longrightarrow> num_starts j as = (if running r' j \<and> \<not> running r j then 1 else 0)" by (erule startingE)
  from assms(2) obtain bs where b: "same_config r' r''" "\<And>j. \<lbrakk>j < length (tsk r'); running r' j\<rbrakk> \<Longrightarrow> running r'' j"
    "runner_log r'' = runner_log r' @ bs"
    "\<And>j. j < length (tsk r') \<Longrightarrow> num_starts j bs = (if running r'' j \<and> \<not> running r' j then 1 else 0)" by (erule startingE)
  have t: "tsk r' = tsk r" using a(1) by (simp add: same_config_def)
  have "num_starts j (as @ bs) = (if running r'' j \<and> \<not> running r j then 1 else 0)" if j: "j < length (tsk r)" for j
  proof -
    have "num_starts j as = (if running r' j \<and> \<not> running r j then 1 else 0)"
      "num_starts j bs = (if running r'' j \<and> \<not> running r' j then 1 else 0)"
      "running r j \<longrightarrow> running r' j" "running r' j \<longrightarrow> running r'' j"
      using a(2,4) b(2,4) j unfolding t by blast+
    then show ?thesis by (cases "running r j"; cases "running r' j") simp_all
  qed
  moreover have "running r'' j" if "j < length (tsk r)" "running r j" for j using that a(2) b(2) unfolding t by blast
  moreover have "runner_log r'' = runner_log r @ (as @ bs)" using a(3) b(3) by simp
  ultimately show ?thesis unfolding starting_def using same_config_trans [OF a(1) b(1)]
    by (intro conjI exI [of _ "as @ bs"]) simp_all
qed

lemma ofold_append: "ofold f (xs @ ys) s = Option.bind (ofold f xs s) (ofold f ys)"
  by (induction xs arbitrary: s) (auto split: Option.bind_split)

lemma ofold_rel:
  assumes "\<And>x s. \<lbrakk>x \<in> set xs; P s\<rbrakk> \<Longrightarrow> \<exists>s'. f x s = Some s' \<and> P s' \<and> R s s'" "P s"
    and refl: "\<And>s. R s s" and trans: "\<And>s s' s''. R s s' \<Longrightarrow> R s' s'' \<Longrightarrow> R s s''"
  shows "\<exists>s'. ofold f xs s = Some s' \<and> P s' \<and> R s s'"
  using assms(1,2)
proof (induction xs arbitrary: s)
  case Nil
  then show ?case using refl by simp
next
  case (Cons x xs)
  obtain s1 where s1: "f x s = Some s1" "P s1" "R s s1" using Cons.prems by fastforce
  obtain s2 where "ofold f xs s1 = Some s2" "P s2" "R s1 s2" using Cons.IH [of s1] Cons.prems(1) s1(2) by fastforce
  then show ?case using s1 trans by auto
qed

lemma notify_event_log:
  "runner_log (notify_event st i ev r) =
    runner_log r @ (case ss_event_cb st of None \<Rightarrow> [] | Some cb \<Rightarrow> [Event_cb cb i ev])"
  by (simp add: notify_event_def split: option.split)

lemma num_starts_events [simp]:
  "num_starts j (case c of None \<Rightarrow> [] | Some cb \<Rightarrow> [Event_cb cb i ev]) = 0"
  "num_starts j (Event_cb cb i ev # as) = num_starts j as" "num_starts j (Signal_init j' # as) = num_starts j as"
  "num_starts j (Signal_raise j' # as) = num_starts j as" "num_starts j (Work_reschedule j' t # as) = num_starts j as"
  "num_starts j (Thread_create j' i # as) = (if j' = j then 1 else 0) + num_starts j as"
  "num_starts j (Work_schedule j' # as) = (if j' = j then 1 else 0) + num_starts j as"
  by (simp_all add: num_starts_def split: option.split)

lemma task_start_step:
  assumes inv: "runner_inv e r" and i: "i < sch_num r" "ss_task_idx (sch_states r ! i) \<noteq> 255"
    and idle: "\<not> running r (ss_task_idx (sch_states r ! i))"
  shows "\<exists>r'. task_start i up r = Some r' \<and> runner_inv e r' \<and> starting r r'"
proof -
  let ?j = "ss_task_idx (sch_states r ! i)"
  have sz: "i < length (sch r)" "i < length (sch_states r)" "?j < length (tsk r)" "?j < length (tsk_states r)"
    using inv i by (auto simp: runner_inv_def runner_sizes_def schedule_ok_def)
  then obtain r' where r': "task_start i up r = Some r'" by (simp add: task_start_def Let_def)
  have f: "same_config r r'" "length (sch_states r') = length (sch_states r)" "length (tsk_states r') = length (tsk_states r)"
    "\<And>i'. i' < length (sch_states r) \<Longrightarrow> ss_task_idx (sch_states r' ! i') = ss_task_idx (sch_states r ! i') \<and>
      ss_linked (sch_states r' ! i') = ss_linked (sch_states r ! i')"
    "\<And>j. j < length (tsk_states r) \<Longrightarrow> running r' j = (running r j \<or> j = ?j)"
    "\<And>j. j < length (tsk_states r) \<Longrightarrow> td_schedule_idx (tsk_states r' ! j) = (if j = ?j then i else td_schedule_idx (tsk_states r ! j))"
    using r' sz by (auto simp: task_start_def Let_def same_config_def nth_list_update)
  have "runner_inv e r'"
    using inv i f by (intro runner_inv_update [OF inv]) (auto simp: runner_inv_def runner_sizes_def task_ok_def)
  moreover have "starting r r'"
  proof -
    obtain as where "runner_log r' = runner_log r @ as" "\<And>j. num_starts j as = (if j = ?j then 1 else 0)"
    proof (rule that)
      show "runner_log r' = runner_log r @ Signal_init ?j #
        (if tc_exec_type (tsk r ! ?j) = TASK_EXECUTOR_THREAD then Thread_create ?j i else Work_schedule ?j) #
        (case ss_event_cb (sch_states r ! i) of None \<Rightarrow> [] | Some cb \<Rightarrow> [Event_cb cb i TASK_SCHEDULE_STARTED])"
        using r' sz by (auto simp: task_start_def Let_def notify_event_log)
    qed simp
    moreover have "length (tsk r) = length (tsk_states r)" using inv by (simp add: runner_inv_def runner_sizes_def)
    ultimately show ?thesis unfolding starting_def using f(1,5) idle by (intro conjI exI [of _ as]) auto
  qed
  ultimately show ?thesis using r' by blast
qed

lemma quiet_step:
  assumes "runner_inv e r" "same_config r r'" "tsk_states r' = tsk_states r" "length (sch_states r') = length (sch_states r)"
    and "\<And>i. i < length (sch_states r) \<Longrightarrow> ss_task_idx (sch_states r' ! i) = ss_task_idx (sch_states r ! i) \<and>
      ss_linked (sch_states r' ! i) = ss_linked (sch_states r ! i)"
    and "runner_log r' = runner_log r @ as" "\<And>j. num_starts j as = 0"
  shows "runner_inv e r' \<and> starting r r'"
proof
  show "runner_inv e r'"
    using assms(1-5) by (intro runner_inv_update [OF assms(1)]) (auto simp: runner_inv_def runner_sizes_def task_ok_def)
  show "starting r r'" unfolding starting_def using assms(2,3,6,7) by (intro conjI exI [of _ as]) simp_all
qed

lemma inv_idx:
  assumes "runner_inv e r" "i < sch_num r"
  shows "i < length (sch r)" "i < length (sch_states r)" "length (tsk_states r) = length (tsk r)"
    "ss_task_idx (sch_states r ! i) \<noteq> 255 \<Longrightarrow> ss_task_idx (sch_states r ! i) < length (tsk r)"
    "ss_task_idx (sch_states r ! i) \<noteq> 255 \<Longrightarrow> task_schedule_validate (sch r ! i)"
  using assms by (auto simp: runner_inv_def runner_sizes_def schedule_ok_def)

lemma task_terminate_step:
  assumes inv: "runner_inv e r" and i: "i < sch_num r" "ss_task_idx (sch_states r ! i) \<noteq> 255"
  shows "\<exists>r' as. task_terminate i r = Some r' \<and> runner_inv e r' \<and> starting r r' \<and> tsk_states r' = tsk_states r \<and>
    sch_states r' = sch_states r \<and> runner_log r' = runner_log r @ as \<and> Signal_raise (ss_task_idx (sch_states r ! i)) \<in> set as \<and>
    (\<forall>j. num_starts j as = 0)"
proof -
  let ?j = "ss_task_idx (sch_states r ! i)"
  let ?as = "Signal_raise ?j # (if tc_exec_type (tsk r ! ?j) = TASK_EXECUTOR_WORKQUEUE then [Work_reschedule ?j 0] else []) @
    (case ss_event_cb (sch_states r ! i) of None \<Rightarrow> [] | Some cb \<Rightarrow> [Event_cb cb i TASK_SCHEDULE_TERMINATE_REQUEST])"
  note sz = inv_idx [OF inv i(1)]
  obtain r' where r': "task_terminate i r = Some r'" using sz i by (simp add: task_terminate_def Let_def)
  have f: "same_config r r'" "tsk_states r' = tsk_states r" "sch_states r' = sch_states r"
    using r' sz i by (auto simp: task_terminate_def Let_def same_config_def split: if_splits)
  have l: "runner_log r' = runner_log r @ ?as"
    using r' sz i by (auto simp: task_terminate_def Let_def notify_event_log)
  have "runner_inv e r' \<and> starting r r'" by (rule quiet_step [OF inv f(1,2) _ _ l]) (simp_all add: f)
  then show ?thesis using r' f l by (intro exI [of _ r'] exI [of _ ?as]) simp
qed

lemma runtime_step:
  assumes inv: "runner_inv e r" and i: "i < sch_num r"
  shows "\<exists>r'. runtime_plus_1 i r = Some r' \<and> runner_inv e r' \<and> starting r r' \<and> tsk_states r' = tsk_states r \<and>
    (\<forall>i. ss_task_idx (sch_states r' ! i) = ss_task_idx (sch_states r ! i))"
proof -
  note sz = inv_idx [OF inv i]
  let ?st = "sch_states r ! i"
  let ?r' = "r\<lparr>sch_states := (sch_states r)[i := ?st\<lparr>ss_runtime := u32 (ss_runtime ?st + 1)\<rparr>]\<rparr>"
  have e: "runtime_plus_1 i r = Some ?r'" using sz by (simp add: runtime_plus_1_def)
  have "runner_inv e ?r' \<and> starting r ?r'"
    by (rule quiet_step [OF inv, where as = "[]"]) (auto simp: same_config_def nth_list_update sz)
  moreover have "ss_task_idx (sch_states ?r' ! i') = ss_task_idx (sch_states r ! i')" for i'
    by (cases "i' = i") (simp_all add: sz)
  ultimately show ?thesis using e by simp
qed

lemma evaluate_step:
  assumes inv: "runner_inv e r" and i: "i < sch_num r"
  shows "\<exists>r'. evaluate_schedule e app up gps soc i r = Some r' \<and> runner_inv e r' \<and> starting r r'"
proof (cases "ss_task_idx (sch_states r ! i) = 255")
  case True
  then show ?thesis using inv_idx [OF inv i] inv starting_refl by (simp add: evaluate_schedule_def)
next
  case False
  let ?j = "ss_task_idx (sch_states r ! i)"
  note sz = inv_idx(1-3) [OF inv i] inv_idx(4,5) [OF inv i False]
  note start = task_start_step [OF inv i False]
  consider "td_skip (tsk_states r ! ?j) \<or> running r ?j \<and> td_schedule_idx (tsk_states r ! ?j) \<noteq> i"
    | "\<not> td_skip (tsk_states r ! ?j)" "running r ?j" "td_schedule_idx (tsk_states r ! ?j) = i"
    | "\<not> td_skip (tsk_states r ! ?j)" "\<not> running r ?j" by blast
  then show ?thesis
  proof cases
    case 1
    then show ?thesis using sz False inv starting_refl by (auto simp: evaluate_schedule_def)
  next
    case 2
    obtain r1 where r1: "runtime_plus_1 i r = Some r1" "runner_inv e r1" "starting r r1"
      "ss_task_idx (sch_states r1 ! i) = ?j" using runtime_step [OF inv i] by blast
    have n: "sch_num r1 = sch_num r" using r1(3) by (simp add: starting_def same_config_def)
    obtain r2 where r2: "task_terminate i r1 = Some r2" "runner_inv e r2" "starting r1 r2"
      using task_terminate_step [OF r1(2), of i] i False by (auto simp: n r1(4))
    have "i < length (sch_states r1)" using inv_idx(2) [OF r1(2)] i by (simp add: n)
    then show ?thesis using 2 sz False r1 r2 starting_trans [OF r1(3) r2(3)] by (simp add: evaluate_schedule_def)
  next
    case 3
    obtain r1 where r1: "task_start i up r = Some r1" "runner_inv e r1" "starting r r1" using start 3 by blast
    have n: "sch_num r1 = sch_num r" using r1(3) by (simp add: starting_def same_config_def)
    obtain r2 where r2: "runtime_plus_1 i r1 = Some r2" "runner_inv e r2" "starting r1 r2"
      using runtime_step [OF r1(2), of i] i by (auto simp: n)
    obtain linked where l: "(case ss_linked (sch_states r ! i) of None \<Rightarrow> Some None
        | Some l \<Rightarrow> map_option Some (at_idx (sch_states r) l)) = Some linked"
      using inv i by (cases "ss_linked (sch_states r ! i)") (auto simp: runner_inv_def schedule_ok_def)
    obtain b where b: "task_schedule_should_start (re_assert e) (sch r ! i) (sch_states r ! i) linked app up gps soc = Some b"
      using should_start_total [OF sz(5)] by blast
    show ?thesis
    proof (cases "validity_masked (sch r ! i) = TASK_VALID_PERMANENTLY_RUNS")
      case True
      then show ?thesis using 3 sz False r1 r2 starting_trans [OF r1(3) r2(3)] by (simp add: evaluate_schedule_def)
    next
      case nonperm: False
      then show ?thesis using 3 sz False r1 l b inv starting_refl by (simp add: evaluate_schedule_def)
    qed
  qed
qed

subsection \<open>Collecting finished tasks\<close>

definition collecting :: "runner_kernel \<Rightarrow> nat \<Rightarrow> ('f, 'w) runner \<Rightarrow> ('f, 'w) runner \<Rightarrow> bool" where
  "collecting k m r r' \<longleftrightarrow> same_config r r' \<and>
     (\<forall>j < length (tsk r). running r' j = (running r j \<and> (j < m \<longrightarrow> still_busy k r j))) \<and>
     (\<forall>i. ss_task_idx (sch_states r' ! i) = ss_task_idx (sch_states r ! i)) \<and>
     (\<exists>as. runner_log r' = runner_log r @ as \<and> (\<forall>j. num_starts j as = 0))"

lemma collect_step:
  assumes inv: "runner_inv e r" and j: "j < length (tsk r)"
  shows "\<exists>r'. collect_terminated k up j r = Some r' \<and> runner_inv e r' \<and> same_config r r' \<and>
    (\<forall>j' < length (tsk r). running r' j' = (running r j' \<and> (j' = j \<longrightarrow> still_busy k r j))) \<and>
    (\<forall>i. ss_task_idx (sch_states r' ! i) = ss_task_idx (sch_states r ! i)) \<and>
    (\<exists>as. runner_log r' = runner_log r @ as \<and> (\<forall>j. num_starts j as = 0))"
proof (cases "running r j \<and> \<not> still_busy k r j")
  case False
  have "collect_terminated k up j r = Some r"
    using inv j False inv_idx [OF inv, of "td_schedule_idx (tsk_states r ! j)"]
    by (auto simp: collect_terminated_def task_has_terminated_def still_busy_def runner_inv_def runner_sizes_def task_ok_def)
  then show ?thesis using inv False by (auto intro: exI [of _ "[]"])
next
  case True
  let ?i = "td_schedule_idx (tsk_states r ! j)"
  have i: "?i < sch_num r" using inv j True by (simp add: runner_inv_def task_ok_def)
  note sz = inv_idx(1-3) [OF inv i]
  let ?r1 = "notify_event (sch_states r ! ?i) ?i TASK_SCHEDULE_STOPPED r"
  let ?r' = "?r1\<lparr>sch_states := (sch_states r)[?i := (sch_states r ! ?i)\<lparr>ss_last_terminate := up\<rparr>],
    tsk_states := (tsk_states r)[j := (tsk_states r ! j)\<lparr>td_running := False\<rparr>]\<rparr>"
  have e: "collect_terminated k up j r = Some ?r'"
    using True j sz by (simp add: collect_terminated_def task_has_terminated_def still_busy_def)
  have c: "same_config r ?r'" by (simp add: same_config_def)
  have t: "ss_task_idx (sch_states ?r' ! i) = ss_task_idx (sch_states r ! i)"
    "ss_linked (sch_states ?r' ! i) = ss_linked (sch_states r ! i)" for i
    using sz by (cases "i = ?i"; simp)+
  have n: "running ?r' j' = (running r j' \<and> j' \<noteq> j)" "td_schedule_idx (tsk_states ?r' ! j') = td_schedule_idx (tsk_states r ! j')" for j'
    using sz j by (cases "j' = j"; simp)+
  have "runner_inv e ?r'"
    using inv c t n by (intro runner_inv_update [OF inv c]) (simp_all add: runner_inv_def task_ok_def)
  then show ?thesis using e c t(1) n(1) True by (auto simp: notify_event_log)
qed

lemma collect_all:
  assumes inv: "runner_inv e r" and m: "m \<le> length (tsk r)"
  shows "\<exists>r'. ofold (collect_terminated k up) [0..<m] r = Some r' \<and> runner_inv e r' \<and> collecting k m r r'"
  using m
proof (induction m)
  case 0
  then show ?case using inv by (auto simp: collecting_def intro: exI [of _ "[]"])
next
  case (Suc m)
  obtain r1 where r1: "ofold (collect_terminated k up) [0..<m] r = Some r1" "runner_inv e r1" "collecting k m r r1"
    using Suc by auto
  have c: "same_config r r1" "tsk r1 = tsk r" using r1(3) by (simp_all add: collecting_def same_config_def)
  then have b: "still_busy k r1 j = still_busy k r j" for j by (simp add: still_busy_def)
  obtain r2 where r2: "collect_terminated k up m r1 = Some r2" "runner_inv e r2" "same_config r1 r2"
    "\<forall>j < length (tsk r1). running r2 j = (running r1 j \<and> (j = m \<longrightarrow> still_busy k r1 m))"
    "\<forall>i. ss_task_idx (sch_states r2 ! i) = ss_task_idx (sch_states r1 ! i)"
    "\<exists>as. runner_log r2 = runner_log r1 @ as \<and> (\<forall>j. num_starts j as = 0)"
    using collect_step [where k = k and up = up and j = m, OF r1(2)] Suc.prems c by auto
  obtain as bs where l: "runner_log r1 = runner_log r @ as" "\<forall>j. num_starts j as = 0"
    "runner_log r2 = runner_log r1 @ bs" "\<forall>j. num_starts j bs = 0" using r1(3) r2(6) by (auto simp: collecting_def)
  have "collecting k (Suc m) r r2" unfolding collecting_def
  proof (intro conjI allI impI)
    show "same_config r r2" by (rule same_config_trans [OF c(1) r2(3)])
    show "running r2 j = (running r j \<and> (j < Suc m \<longrightarrow> still_busy k r j))" if "j < length (tsk r)" for j
      using that r2(4) r1(3) by (auto simp: c b collecting_def less_Suc_eq)
    show "ss_task_idx (sch_states r2 ! i) = ss_task_idx (sch_states r ! i)" for i
      using r2(5) r1(3) by (simp add: collecting_def)
    show "\<exists>as. runner_log r2 = runner_log r @ as \<and> (\<forall>j. num_starts j as = 0)"
      using l by (intro exI [of _ "as @ bs"]) simp
  qed
  then show ?case using r1 r2 by (simp add: ofold_append)
qed

subsection \<open>Reloading\<close>

lemma load_defaults_sizes:
  "load_defaults e ds i (kv, out, n) = (kv', out', n') \<Longrightarrow> n \<le> re_range e \<Longrightarrow> length out' = length out \<and> n' \<le> re_range e"
  by (induction ds arbitrary: i kv out n) (auto split: if_splits)

lemma load_sizes:
  assumes "task_runner_schedules_load e sid ds out kv = (n, out', kv')" "length out = re_range e"
  shows "length out' = re_range e \<and> n \<le> re_range e"
proof (cases "default_stored e sid kv")
  case True
  then show ?thesis using load_matching [OF True assms(2), of ds] assms(1) last_index_le by auto
next
  case False
  obtain kv1 out1 n1 where l: "load_defaults e ds 0 (kv_set_flag FLAGS_TASKS_RELOADING kv, out, 0) = (kv1, out1, n1)"
    by (metis prod_cases3)
  then show ?thesis using False assms load_defaults_sizes [OF l]
    by (auto simp: task_runner_schedules_load_def default_stored_def Let_def)
qed

lemma find_task_less: "find_task cs task_id j = Some j' \<Longrightarrow> j \<le> j' \<and> j' < j + length cs"
  by (induction cs arbitrary: j) (fastforce split: if_splits)+

lemma init_schedule_step:
  assumes "runner_sizes e r" "i < sch_num r" "n \<le> re_range e"
  shows "\<exists>st. init_schedule n rs i r = Some (r\<lparr>sch_states := (sch_states r)[i := st]\<rparr>) \<and>
    (ss_task_idx st = 255 \<or> ss_task_idx st < length (tsk r) \<and> task_schedule_validate (sch r ! i)) \<and>
    (\<forall>l. ss_linked st = Some l \<longrightarrow> l < re_range e)"
proof -
  have sz: "i < length (sch r)" "i < length (sch_states r)" "length (sch_states r) = re_range e"
    using assms by (auto simp: runner_sizes_def)
  obtain l where l: "schedule_link n (length (sch_states r)) (sch r ! i) = Some l" "\<forall>x. l = Some x \<longrightarrow> x < re_range e"
  proof -
    have "\<exists>l. schedule_link n (length (sch_states r)) (sch r ! i) = Some l \<and> (\<forall>x. l = Some x \<longrightarrow> x < re_range e)"
      using sz assms(3) by (auto simp: schedule_link_def)
    then show ?thesis using that by blast
  qed
  show ?thesis using sz l find_task_less [of "tsk r" "sc_task_id (sch r ! i)" 0]
    by (cases "find_task (tsk r) (sc_task_id (sch r ! i)) 0") (auto simp: init_schedule_def Let_def)
qed

lemma init_schedules_all:
  assumes sz: "runner_sizes e r" and n: "n \<le> re_range e" and m: "m \<le> sch_num r"
  shows "\<exists>sts. ofold (init_schedule n rs) [0..<m] r = Some (r\<lparr>sch_states := sts\<rparr>) \<and> length sts = re_range e \<and>
    (\<forall>i < m. (ss_task_idx (sts ! i) = 255 \<or> ss_task_idx (sts ! i) < length (tsk r) \<and> task_schedule_validate (sch r ! i)) \<and>
      (\<forall>l. ss_linked (sts ! i) = Some l \<longrightarrow> l < re_range e))"
  using m
proof (induction m)
  case 0
  then show ?case using sz by (intro exI [of _ "sch_states r"]) (simp add: runner_sizes_def)
next
  case (Suc m)
  then obtain sts where sts: "ofold (init_schedule n rs) [0..<m] r = Some (r\<lparr>sch_states := sts\<rparr>)" "length sts = re_range e"
    "\<forall>i < m. (ss_task_idx (sts ! i) = 255 \<or> ss_task_idx (sts ! i) < length (tsk r) \<and> task_schedule_validate (sch r ! i)) \<and>
      (\<forall>l. ss_linked (sts ! i) = Some l \<longrightarrow> l < re_range e)" by auto
  have "runner_sizes e (r\<lparr>sch_states := sts\<rparr>)" using sz sts(2) by (simp add: runner_sizes_def)
  from init_schedule_step [OF this, of m n rs] n Suc.prems
  obtain st where st: "init_schedule n rs m (r\<lparr>sch_states := sts\<rparr>) = Some (r\<lparr>sch_states := sts[m := st]\<rparr>)"
    "ss_task_idx st = 255 \<or> ss_task_idx st < length (tsk r) \<and> task_schedule_validate (sch r ! m)"
    "\<forall>l. ss_linked st = Some l \<longrightarrow> l < re_range e" by auto
  have "m < length sts" using sz sts(2) Suc.prems by (simp add: runner_sizes_def)
  then show ?case using sts st by (intro exI [of _ "sts[m := st]"]) (auto simp: ofold_append nth_list_update less_Suc_eq)
qed

lemma init_schedules_inv:
  assumes "runner_sizes e r" "n \<le> re_range e" "\<forall>j < length (tsk r). \<not> running r j"
  shows "\<exists>sts. init_schedules n rs r = Some (r\<lparr>sch_states := sts\<rparr>) \<and> runner_inv e (r\<lparr>sch_states := sts\<rparr>)"
  using init_schedules_all [OF assms(1,2) order_refl, of rs] assms
  by (auto simp: init_schedules_def runner_inv_def runner_sizes_def schedule_ok_def task_ok_def)

lemma reload_schedules_fields [simp]:
  "tsk (reload_schedules e r) = tsk r" "tsk_states (reload_schedules e r) = tsk_states r"
  "sch_states (reload_schedules e r) = sch_states r" "default_sch (reload_schedules e r) = default_sch r"
  "runner_log (reload_schedules e r) = runner_log r" "schedule_cb_set (reload_schedules e r) = schedule_cb_set r"
  by (simp_all add: reload_schedules_def split: prod.split)

lemma reload_sizes:
  assumes "length (sch r) = re_range e" "re_range e < 256" "length (sch_states r) = re_range e"
    "length (tsk_states r) = length (tsk r)" "length (tsk r) \<le> 255" "length (default_sch r) \<le> re_range e"
  shows "runner_sizes e (reload_schedules e r)"
proof -
  obtain n out kv where l: "task_runner_schedules_load e (re_schedules_id e) (default_sch r) (sch r) (runner_kv r) = (n, out, kv)"
    by (metis prod_cases3)
  then have "length out = re_range e" "n \<le> re_range e" using load_sizes [OF l assms(1)] by simp_all
  then show ?thesis using assms l by (simp add: runner_sizes_def reload_schedules_def)
qed

text \<open>The first loop of a reload: every running task is asked to terminate.\<close>

lemma terminate_all:
  assumes inv: "runner_inv e r" and valid: "\<forall>i < sch_num r. ss_task_idx (sch_states r ! i) \<noteq> 255" and m: "m \<le> sch_num r"
  shows "\<exists>r' as. ofold terminate_for_reload [0..<m] r = Some r' \<and> runner_inv e r' \<and> same_config r r' \<and>
    tsk_states r' = tsk_states r \<and> sch_states r' = sch_states r \<and> runner_log r' = runner_log r @ as \<and>
    (\<forall>j. num_starts j as = 0) \<and>
    (\<forall>j < length (tsk r). running r j \<and> td_schedule_idx (tsk_states r ! j) < m \<longrightarrow> Signal_raise j \<in> set as)"
  using m
proof (induction m)
  case 0
  then show ?case using inv by (auto intro: exI [of _ "[]"])
next
  case (Suc m)
  then obtain r1 as where r1: "ofold terminate_for_reload [0..<m] r = Some r1" "runner_inv e r1" "same_config r r1"
    "tsk_states r1 = tsk_states r" "sch_states r1 = sch_states r" "runner_log r1 = runner_log r @ as"
    "\<forall>j. num_starts j as = 0"
    "\<forall>j < length (tsk r). running r j \<and> td_schedule_idx (tsk_states r ! j) < m \<longrightarrow> Signal_raise j \<in> set as" by auto
  let ?j = "ss_task_idx (sch_states r ! m)"
  have m: "m < sch_num r" "m < sch_num r1" "?j \<noteq> 255" using Suc.prems r1(3) valid by (auto simp: same_config_def)
  note sz = inv_idx [OF r1(2) m(2), unfolded r1(5)]
  have only: "j = ?j" if "j < length (tsk r)" "running r j" "td_schedule_idx (tsk_states r ! j) = m" for j
    using that inv by (auto simp: runner_inv_def task_ok_def)
  show ?case
  proof (cases "m = td_schedule_idx (tsk_states r ! ?j) \<and> running r ?j")
    case False
    then have "terminate_for_reload m r1 = Some r1" using sz m r1 by (auto simp: terminate_for_reload_def)
    then show ?thesis using r1 only False by (intro exI [of _ r1] exI [of _ as]) (auto simp: ofold_append less_Suc_eq)
  next
    case True
    obtain r2 bs where r2: "task_terminate m r1 = Some r2" "runner_inv e r2" "starting r1 r2" "tsk_states r2 = tsk_states r1"
      "sch_states r2 = sch_states r1" "runner_log r2 = runner_log r1 @ bs" "Signal_raise ?j \<in> set bs"
      "\<forall>j. num_starts j bs = 0" using task_terminate_step [OF r1(2) m(2)] m(3) by (auto simp: r1(5))
    have "terminate_for_reload m r1 = Some r2" using sz m r1 r2 True by (simp add: terminate_for_reload_def)
    moreover have "same_config r r2" using r2(3) same_config_trans [OF r1(3)] by (simp add: starting_def)
    ultimately show ?thesis using r1 r2 only
      by (intro exI [of _ r2] exI [of _ "as @ bs"]) (auto simp: ofold_append less_Suc_eq)
  qed
qed

lemma runner_inv_kv [simp]: "runner_inv e (r\<lparr>runner_kv := kv\<rparr>) = runner_inv e r"
  by (simp add: runner_inv_def runner_sizes_def schedule_ok_def task_ok_def)

lemma flag_fields [simp]:
  "sch (set_flag b r) = sch r" "default_sch (set_flag b r) = default_sch r" "sch_states (set_flag b r) = sch_states r"
  "sch_num (set_flag b r) = sch_num r" "tsk (set_flag b r) = tsk r" "tsk_states (set_flag b r) = tsk_states r"
  "runner_log (set_flag b r) = runner_log r" "runner_inv e (set_flag b r) = runner_inv e r"
  "sch (clear_flag b r) = sch r" "default_sch (clear_flag b r) = default_sch r" "sch_states (clear_flag b r) = sch_states r"
  "sch_num (clear_flag b r) = sch_num r" "tsk (clear_flag b r) = tsk r" "tsk_states (clear_flag b r) = tsk_states r"
  "runner_log (clear_flag b r) = runner_log r" "runner_inv e (clear_flag b r) = runner_inv e r"
  "kv_fs (runner_kv (set_flag b r)) = kv_fs (runner_kv r)" "kv_fs (runner_kv (clear_flag b r)) = kv_fs (runner_kv r)"
  "runner_flags (set_flag b r) = insert b (runner_flags r)" "runner_flags (clear_flag b r) = runner_flags r - {b}"
  by (simp_all add: set_flag_def clear_flag_def kv_set_flag_def kv_clear_flag_def runner_flags_def)

lemma any_running: "length (tsk_states r) = length (tsk r) \<Longrightarrow>
    list_ex td_running (take (length (tsk r)) (tsk_states r)) \<longleftrightarrow> (\<exists>j < length (tsk r). running r j)"
  by (simp add: list_ex_length)

definition reload_pending :: "('f, 'w) runner \<Rightarrow> bool" where
  "reload_pending r \<longleftrightarrow> FLAGS_TRIGGER_SCHEDULE_RELOAD \<in> runner_flags r \<or> FLAGS_TASKS_TERMINATING \<in> runner_flags r"

text \<open>The state in which a reload that is not waiting for a task continues.\<close>

lemma reload_now:
  assumes inv: "runner_inv e r" and idle: "\<forall>j < length (tsk r). \<not> running r j"
  shows "\<exists>sts. init_schedules (length (default_sch r)) False (reload_schedules e r) =
      Some (reload_schedules e r\<lparr>sch_states := sts\<rparr>) \<and> runner_inv e (reload_schedules e r\<lparr>sch_states := sts\<rparr>)"
proof -
  have "runner_sizes e (reload_schedules e r)" using inv by (intro reload_sizes) (auto simp: runner_inv_def runner_sizes_def)
  then show ?thesis using init_schedules_inv [of e "reload_schedules e r" "length (default_sch r)" False] inv idle
    by (auto simp: runner_inv_def runner_sizes_def)
qed

lemma load_defaults_kv: "snd (load_defaults e ds i (kv, st)) = snd (load_defaults e ds i (kv', st))"
proof (induction ds arbitrary: i kv kv' st)
  case (Cons d ds)
  obtain out n where st: "st = (out, n)" by force
  show ?case using Cons.IH [of "Suc i" kv "(out, n)" kv'] Cons.IH [of "Suc i" _ "(out[i := d], Suc i)"] by (auto simp: st)
qed simp

text \<open>What is loaded only depends on the values in the store.\<close>

lemma reload_fs:
  assumes "length (sch r) = re_range e" "sch r0 = sch r" "default_sch r0 = default_sch r"
    "kv_fs (runner_kv r0) = kv_fs (runner_kv r)"
  shows "sch (reload_schedules e r0) = sch (reload_schedules e r) \<and> sch_num (reload_schedules e r0) = sch_num (reload_schedules e r)"
proof -
  let ?l = "\<lambda>kv. task_runner_schedules_load e (re_schedules_id e) (default_sch r) (sch r) kv"
  have rd: "kv_store_read ke k m (runner_kv r0) = kv_store_read ke k m (runner_kv r)" for ke k m
    using assms(4) by (simp add: kv_store_read_def)
  then have st: "stored_schedule e ds (runner_kv r0) = stored_schedule e ds (runner_kv r)" for ds
    by (simp add: stored_schedule_def fun_eq_iff)
  have "fst (?l (runner_kv r0)) = fst (?l (runner_kv r)) \<and> fst (snd (?l (runner_kv r0))) = fst (snd (?l (runner_kv r)))"
  proof (cases "default_stored e (re_schedules_id e) (runner_kv r)")
    case True
    then have "default_stored e (re_schedules_id e) (runner_kv r0)" by (simp add: default_stored_def rd)
    from load_matching [OF this assms(1), of "default_sch r"] load_matching [OF True assms(1), of "default_sch r"] st show ?thesis
      by (auto simp: stored_or_null_def [abs_def])
  next
    case False
    then show ?thesis
      using load_defaults_kv [of e "default_sch r" 0 "kv_set_flag FLAGS_TASKS_RELOADING (runner_kv r0)" "(sch r, 0)"
          "kv_set_flag FLAGS_TASKS_RELOADING (runner_kv r)"]
      by (auto simp: task_runner_schedules_load_def default_stored_def rd Let_def split: prod.splits)
  qed
  then show ?thesis using assms(2,3) by (auto simp: reload_schedules_def split: prod.splits)
qed

lemma handle_reload_step:
  assumes inv: "runner_inv e r"
    and valid: "FLAGS_TRIGGER_SCHEDULE_RELOAD \<in> runner_flags r \<Longrightarrow> \<forall>i < sch_num r. ss_task_idx (sch_states r ! i) \<noteq> 255"
  shows "\<exists>b r' as. iterate_handle_task_reload e r = Some (b, r') \<and> runner_inv e r' \<and> tsk r' = tsk r \<and>
    tsk_states r' = tsk_states r \<and> runner_log r' = runner_log r @ as \<and> (\<forall>j. num_starts j as = 0) \<and>
    (FLAGS_TRIGGER_SCHEDULE_RELOAD \<in> runner_flags r \<longrightarrow> (\<forall>j < length (tsk r). running r j \<longrightarrow> Signal_raise j \<in> set as)) \<and>
    b = (reload_pending r \<and> (\<exists>j < length (tsk r). running r j)) \<and>
    (reload_pending r \<and> \<not> b \<longrightarrow> sch r' = sch (reload_schedules e r) \<and> sch_num r' = sch_num (reload_schedules e r))"
  (is "\<exists>b r' as. ?Q b r' as")
proof -
  have "\<exists>r1 as. (if FLAGS_TRIGGER_SCHEDULE_RELOAD \<in> runner_flags r then
             map_option (set_flag FLAGS_TASKS_TERMINATING)
               (ofold terminate_for_reload [0..<sch_num r] (clear_flag FLAGS_TRIGGER_SCHEDULE_RELOAD r))
           else Some r) = Some r1 \<and> runner_inv e r1 \<and> tsk r1 = tsk r \<and> tsk_states r1 = tsk_states r \<and> sch r1 = sch r \<and>
     default_sch r1 = default_sch r \<and> kv_fs (runner_kv r1) = kv_fs (runner_kv r) \<and>
     runner_log r1 = runner_log r @ as \<and> (\<forall>j. num_starts j as = 0) \<and>
     (FLAGS_TRIGGER_SCHEDULE_RELOAD \<in> runner_flags r \<longrightarrow> (\<forall>j < length (tsk r). running r j \<longrightarrow> Signal_raise j \<in> set as)) \<and>
     (FLAGS_TASKS_TERMINATING \<in> runner_flags r1 \<longleftrightarrow> reload_pending r)"
  proof (cases "FLAGS_TRIGGER_SCHEDULE_RELOAD \<in> runner_flags r")
    case True
    let ?r = "clear_flag FLAGS_TRIGGER_SCHEDULE_RELOAD r"
    have "runner_inv e ?r" "\<forall>i < sch_num ?r. ss_task_idx (sch_states ?r ! i) \<noteq> 255" "sch_num r \<le> sch_num ?r"
      using inv valid True by simp_all
    from terminate_all [OF this] obtain r1 as where r1: "ofold terminate_for_reload [0..<sch_num r] ?r = Some r1" "runner_inv e r1"
      "same_config ?r r1" "tsk_states r1 = tsk_states r" "runner_log r1 = runner_log r @ as" "\<forall>j. num_starts j as = 0"
      "\<forall>j < length (tsk r). running r j \<and> td_schedule_idx (tsk_states r ! j) < sch_num r \<longrightarrow> Signal_raise j \<in> set as" by auto
    have "kv_fs (runner_kv r1) = kv_fs (runner_kv r)" using r1(3) by (simp add: same_config_def)
    moreover have "\<forall>j < length (tsk r). running r j \<longrightarrow> Signal_raise j \<in> set as"
      using r1(7) inv by (simp add: runner_inv_def task_ok_def)
    ultimately show ?thesis using True r1
      by (intro exI [of _ "set_flag FLAGS_TASKS_TERMINATING r1"] exI [of _ as])
        (simp add: same_config_def reload_pending_def)
  next
    case False
    then show ?thesis using inv by (auto simp: reload_pending_def intro: exI [of _ "[]"])
  qed
  then obtain r1 as where r1: "(if FLAGS_TRIGGER_SCHEDULE_RELOAD \<in> runner_flags r then
             map_option (set_flag FLAGS_TASKS_TERMINATING)
               (ofold terminate_for_reload [0..<sch_num r] (clear_flag FLAGS_TRIGGER_SCHEDULE_RELOAD r))
           else Some r) = Some r1" "runner_inv e r1" "tsk r1 = tsk r" "tsk_states r1 = tsk_states r" "sch r1 = sch r"
     "default_sch r1 = default_sch r" "kv_fs (runner_kv r1) = kv_fs (runner_kv r)"
     "runner_log r1 = runner_log r @ as" "\<forall>j. num_starts j as = 0"
     "FLAGS_TRIGGER_SCHEDULE_RELOAD \<in> runner_flags r \<longrightarrow> (\<forall>j < length (tsk r). running r j \<longrightarrow> Signal_raise j \<in> set as)"
     "FLAGS_TASKS_TERMINATING \<in> runner_flags r1 \<longleftrightarrow> reload_pending r" by blast
  have any: "list_ex td_running (take (length (tsk r)) (tsk_states r)) \<longleftrightarrow> (\<exists>j < length (tsk r). running r j)"
    using inv by (intro any_running) (simp add: runner_inv_def runner_sizes_def)
  let ?r0 = "clear_flag FLAGS_TASKS_TERMINATING r1"
  have fs: "sch (reload_schedules e ?r0) = sch (reload_schedules e r)" "sch_num (reload_schedules e ?r0) = sch_num (reload_schedules e r)"
    using reload_fs [of r e ?r0] r1(5-7) inv by (simp_all add: runner_inv_def runner_sizes_def)
  show ?thesis
  proof (cases "reload_pending r \<and> \<not> (\<exists>j < length (tsk r). running r j)")
    case True
    then obtain sts where "init_schedules (length (default_sch ?r0)) False (reload_schedules e ?r0) =
        Some (reload_schedules e ?r0\<lparr>sch_states := sts\<rparr>)" "runner_inv e (reload_schedules e ?r0\<lparr>sch_states := sts\<rparr>)"
      using reload_now [of e ?r0] r1 by auto
    then have "?Q False (reload_schedules e ?r0\<lparr>sch_states := sts\<rparr>) as"
      using True r1 any fs by (simp add: iterate_handle_task_reload_def)
    then show ?thesis by blast
  next
    case False
    then have "?Q (reload_pending r) r1 as" using r1 any by (auto simp: iterate_handle_task_reload_def)
    then show ?thesis by blast
  qed
qed

subsection \<open>Whole iterations\<close>

lemma evaluate_all:
  assumes "runner_inv e r"
  shows "\<exists>r'. ofold (evaluate_schedule e app up gps soc) [0..<sch_num r] r = Some r' \<and> runner_inv e r' \<and> starting r r'"
proof -
  have "\<exists>r'. ofold (evaluate_schedule e app up gps soc) [0..<sch_num r] r = Some r' \<and>
      (runner_inv e r' \<and> sch_num r' = sch_num r) \<and> starting r r'"
  proof (rule ofold_rel [where P = "\<lambda>r'. runner_inv e r' \<and> sch_num r' = sch_num r"])
    fix i s assume "i \<in> set [0..<sch_num r]" "runner_inv e s \<and> sch_num s = sch_num r"
    then obtain s' where "evaluate_schedule e app up gps soc i s = Some s'" "runner_inv e s'" "starting s s'"
      using evaluate_step [of e s i] by (metis atLeastLessThan_iff set_upt)
    then show "\<exists>s'. evaluate_schedule e app up gps soc i s = Some s' \<and> (runner_inv e s' \<and> sch_num s' = sch_num r) \<and> starting s s'"
      using \<open>runner_inv e s \<and> sch_num s = sch_num r\<close> by (auto simp: starting_def same_config_def)
  qed (use assms starting_trans in \<open>simp_all, blast\<close>)
  then show ?thesis by blast
qed

lemma iterate_step:
  assumes inv: "runner_inv e r"
    and valid: "FLAGS_TRIGGER_SCHEDULE_RELOAD \<in> runner_flags r \<Longrightarrow> \<forall>i < sch_num r. ss_task_idx (sch_states r ! i) \<noteq> 255"
  shows "\<exists>r' as. task_runner_iterate e k app up gps soc r = Some r' \<and> runner_inv e r' \<and> runner_log r' = runner_log r @ as \<and>
    tsk r' = tsk r \<and>
    (\<forall>j < length (tsk r). num_starts j as = (if running r' j \<and> \<not> (running r j \<and> still_busy k r j) then 1 else 0)) \<and>
    (FLAGS_TRIGGER_SCHEDULE_RELOAD \<in> runner_flags r \<longrightarrow>
      (\<forall>j < length (tsk r). running r j \<and> still_busy k r j \<longrightarrow> Signal_raise j \<in> set as)) \<and>
    (reload_pending r \<and> (\<exists>j < length (tsk r). running r j \<and> still_busy k r j) \<longrightarrow>
      (\<forall>j < length (tsk r). num_starts j as = 0)) \<and>
    (reload_pending r \<and> \<not> (\<exists>j < length (tsk r). running r j \<and> still_busy k r j) \<longrightarrow>
      sch r' = sch (reload_schedules e r) \<and> sch_num r' = sch_num (reload_schedules e r))"
  (is "\<exists>r' as. ?Q r' as")
proof -
  obtain r1 where r1: "ofold (collect_terminated k up) [0..<length (tsk r)] r = Some r1" "runner_inv e r1"
    "collecting k (length (tsk r)) r r1" using collect_all [OF inv order_refl] by blast
  then obtain as1 where c: "same_config r r1" "\<forall>j < length (tsk r). running r1 j = (running r j \<and> still_busy k r j)"
    "\<forall>i. ss_task_idx (sch_states r1 ! i) = ss_task_idx (sch_states r ! i)"
    "runner_log r1 = runner_log r @ as1" "\<forall>j. num_starts j as1 = 0" by (auto simp: collecting_def)
  have f1: "runner_flags r1 = runner_flags r" "reload_pending r1 = reload_pending r" "tsk r1 = tsk r" "sch_num r1 = sch_num r"
    "sch r1 = sch r" "default_sch r1 = default_sch r" "runner_kv r1 = runner_kv r"
    using c(1) by (auto simp: same_config_def runner_flags_def reload_pending_def)
  have l1: "sch (reload_schedules e r1) = sch (reload_schedules e r)" "sch_num (reload_schedules e r1) = sch_num (reload_schedules e r)"
    using reload_fs [of r e r1] f1 inv by (simp_all add: runner_inv_def runner_sizes_def)
  have v: "\<forall>i < sch_num r1. ss_task_idx (sch_states r1 ! i) \<noteq> 255" if "FLAGS_TRIGGER_SCHEDULE_RELOAD \<in> runner_flags r1"
    using valid c(3) f1 that by simp
  obtain b r2 as2 where r2: "iterate_handle_task_reload e r1 = Some (b, r2)" "runner_inv e r2" "tsk r2 = tsk r"
    "tsk_states r2 = tsk_states r1" "runner_log r2 = runner_log r1 @ as2" "\<forall>j. num_starts j as2 = 0"
    "FLAGS_TRIGGER_SCHEDULE_RELOAD \<in> runner_flags r \<longrightarrow> (\<forall>j < length (tsk r). running r1 j \<longrightarrow> Signal_raise j \<in> set as2)"
    "b = (reload_pending r \<and> (\<exists>j < length (tsk r). running r1 j))"
    "reload_pending r \<and> \<not> b \<longrightarrow> sch r2 = sch (reload_schedules e r1) \<and> sch_num r2 = sch_num (reload_schedules e r1)"
    using handle_reload_step [OF r1(2) v, unfolded f1] by blast
  show ?thesis
  proof (cases b)
    case True
    then have "task_runner_iterate e k app up gps soc r = Some r2" using r1 r2 by (simp add: task_runner_iterate_def)
    then have "?Q r2 (as1 @ as2)" using r2 c True l1 by auto
    then show ?thesis by blast
  next
    case False
    obtain r3 where r3: "ofold (evaluate_schedule e app up gps soc) [0..<sch_num r2] r2 = Some r3" "runner_inv e r3" "starting r2 r3"
      using evaluate_all [OF r2(2)] by blast
    then obtain as3 where s3: "same_config r2 r3" "runner_log r3 = runner_log r2 @ as3"
      "\<And>j. j < length (tsk r) \<Longrightarrow> running r2 j \<Longrightarrow> running r3 j"
      "\<And>j. j < length (tsk r) \<Longrightarrow> num_starts j as3 = (if running r3 j \<and> \<not> running r2 j then 1 else 0)"
      by (elim startingE) (auto simp: r2(3))
    have "iterate_handle_task_reload e r1 = Some (False, r2)" using r2(1) False by simp
    then have it: "task_runner_iterate e k app up gps soc r = Some r3" using r1(1) r3(1) by (simp add: task_runner_iterate_def)
    have "?Q r3 (as1 @ as2 @ as3)"
    proof (intro conjI allI impI)
      show "num_starts j (as1 @ as2 @ as3) = (if running r3 j \<and> \<not> (running r j \<and> still_busy k r j) then 1 else 0)"
        if "j < length (tsk r)" for j using that s3(4) c(2,5) r2(4,6) by simp
    qed (use it r2 r3 s3 c False l1 in \<open>auto simp: same_config_def\<close>)
    then show ?thesis by blast
  qed
qed

text \<open>With an invalid schedule in the array, the first loop of a reload leaves the array of tasks.\<close>

lemma ofold_None:
  assumes "x \<in> set xs" "\<And>s. P s \<Longrightarrow> f x s = None" "P s" "\<And>y s s'. \<lbrakk>P s; f y s = Some s'\<rbrakk> \<Longrightarrow> P s'"
  shows "ofold f xs s = None"
  using assms by (induction xs arbitrary: s) (auto split: Option.bind_split)

lemma terminate_for_reload_frame:
  assumes "terminate_for_reload i r = Some r'"
  shows "sch_states r' = sch_states r \<and> tsk_states r' = tsk_states r"
  using assms
  by (auto simp: terminate_for_reload_def task_terminate_def Let_def split: Option.bind_splits if_splits)

lemma reload_out_of_bounds:
  fixes r :: "('f, 'w) runner"
  assumes inv: "runner_inv e r" and t: "FLAGS_TRIGGER_SCHEDULE_RELOAD \<in> runner_flags r"
    and i: "i < sch_num r" "ss_task_idx (sch_states r ! i) = 255"
  shows "task_runner_iterate e k app up gps soc r = None"
proof -
  obtain r1 where r1: "ofold (collect_terminated k up) [0..<length (tsk r)] r = Some r1" "runner_inv e r1"
    "collecting k (length (tsk r)) r r1" using collect_all [OF inv order_refl] by blast
  then have f: "FLAGS_TRIGGER_SCHEDULE_RELOAD \<in> runner_flags r1" "i < sch_num r1" "ss_task_idx (sch_states r1 ! i) = 255"
    using t i same_config_flags [of r r1] by (auto simp: collecting_def same_config_def)
  have "ofold terminate_for_reload [0..<sch_num r1] (clear_flag FLAGS_TRIGGER_SCHEDULE_RELOAD r1) = None"
  proof (rule ofold_None [where x = i and P = "\<lambda>s. sch_states s = sch_states r1 \<and> tsk_states s = tsk_states r1"])
    fix s :: "('f, 'w) runner" assume "sch_states s = sch_states r1 \<and> tsk_states s = tsk_states r1"
    then show "terminate_for_reload i s = None"
      using f inv_idx(2,3) [OF r1(2) f(2)] r1(2)
      by (simp add: terminate_for_reload_def at_idx_def runner_inv_def runner_sizes_def)
  qed (use f in \<open>auto dest!: terminate_for_reload_frame\<close>)
  then show ?thesis using r1 f by (simp add: task_runner_iterate_def iterate_handle_task_reload_def)
qed

subsection \<open>Reachable states\<close>

text \<open>The arguments of \<open>task_runner_init\<close>: arrays of the declared sizes, and no more defaults than slots.\<close>

definition init_args_ok :: "'f runner_env \<Rightarrow> ('f, 'w) runner \<Rightarrow> task_schedule list \<Rightarrow> task_schedule_state list \<Rightarrow>
    task_config list \<Rightarrow> task_data list \<Rightarrow> bool" where
  "init_args_ok e r schedules states tasks datas \<longleftrightarrow> length (sch r) = re_range e \<and> re_range e < 256 \<and>
     length schedules \<le> re_range e \<and> length states = re_range e \<and> length datas = length tasks \<and> length tasks \<le> 255"

lemma init_task_step:
  assumes "i < length (tsk r)" "length (tsk_states r) = length (tsk r)"
  shows "\<exists>d as. init_task k i r = Some (r\<lparr>tsk_states := (tsk_states r)[i := d], runner_log := runner_log r @ as\<rparr>) \<and> \<not> td_running d"
  (is "\<exists>d as. ?P d as")
proof -
  let ?d = "(tsk_states r ! i)\<lparr>td_running := False, td_schedule_idx := 255, td_skip := (tc_flags (tsk r ! i) AND
    TASK_FLAG_ARG_IS_DEVICE \<noteq> 0 \<and> \<not> rk_device_ready k i \<or> td_skip (tsk_states r ! i))\<rparr>"
  have "?P ?d (if tc_exec_type (tsk r ! i) = TASK_EXECUTOR_WORKQUEUE then [Work_init i] else [])"
    using assms by (cases r) (simp add: init_task_def Let_def log_action_def)
  then show ?thesis by blast
qed

lemma init_tasks_all:
  assumes "length (tsk_states r) = length (tsk r)" "m \<le> length (tsk r)"
  shows "\<exists>ds as. ofold (init_task k) [0..<m] r = Some (r\<lparr>tsk_states := ds, runner_log := runner_log r @ as\<rparr>) \<and>
    length ds = length (tsk r) \<and> (\<forall>j < m. \<not> td_running (ds ! j))"
  using assms(2)
proof (induction m)
  case 0
  then show ?case using assms(1) by (intro exI [of _ "tsk_states r"] exI [of _ "[]"]) simp
next
  case (Suc m)
  then obtain ds as where ds: "ofold (init_task k) [0..<m] r = Some (r\<lparr>tsk_states := ds, runner_log := runner_log r @ as\<rparr>)"
    "length ds = length (tsk r)" "\<forall>j < m. \<not> td_running (ds ! j)" by auto
  obtain d bs where "init_task k m (r\<lparr>tsk_states := ds, runner_log := runner_log r @ as\<rparr>) =
      Some (r\<lparr>tsk_states := ds[m := d], runner_log := runner_log r @ as @ bs\<rparr>)" "\<not> td_running d"
    using init_task_step [of m "r\<lparr>tsk_states := ds, runner_log := runner_log r @ as\<rparr>" k] Suc.prems ds(2) by auto
  then show ?case using ds Suc.prems
    by (intro exI [of _ "ds[m := d]"] exI [of _ "as @ bs"]) (auto simp: ofold_append nth_list_update less_Suc_eq)
qed

lemma init_inv:
  assumes "init_args_ok e r schedules states tasks datas"
  shows "\<exists>r'. task_runner_init e k schedules states tasks datas r = Some r' \<and> runner_inv e r'"
proof -
  define r1 where "r1 = reload_schedules e (r\<lparr>sch_states := states, tsk := tasks, tsk_states := datas, default_sch := schedules\<rparr>)"
  define r2 where "r2 = (if schedule_cb_set r1 then r1 else r1\<lparr>schedule_cb_set := True,
    runner_kv := kv_store_register_callback (Some (kv_value_changed (re_range e))) (runner_kv r1)\<rparr>)"
  have "runner_sizes e r1" unfolding r1_def using assms by (intro reload_sizes) (simp_all add: init_args_ok_def)
  then have sz: "runner_sizes e r2" "default_sch r2 = schedules" by (simp_all add: r2_def r1_def runner_sizes_def)
  then obtain ds as where ds: "init_tasks k r2 = Some (r2\<lparr>tsk_states := ds, runner_log := runner_log r2 @ as\<rparr>)"
    "length ds = length (tsk r2)" "\<forall>j < length (tsk r2). \<not> td_running (ds ! j)"
    using init_tasks_all [of r2 "length (tsk r2)" k] by (auto simp: init_tasks_def runner_sizes_def)
  have "\<exists>sts. init_schedules (length schedules) True (r2\<lparr>tsk_states := ds, runner_log := runner_log r2 @ as\<rparr>) =
      Some (r2\<lparr>tsk_states := ds, runner_log := runner_log r2 @ as\<rparr>\<lparr>sch_states := sts\<rparr>) \<and>
      runner_inv e (r2\<lparr>tsk_states := ds, runner_log := runner_log r2 @ as\<rparr>\<lparr>sch_states := sts\<rparr>)"
    using ds sz by (intro init_schedules_inv) (auto simp: runner_sizes_def)
  moreover have "task_runner_init e k schedules states tasks datas r = Option.bind (init_tasks k r2) (init_schedules (length schedules) True)"
    by (simp add: task_runner_init_def Let_def r1_def r2_def)
  ultimately show ?thesis using ds by auto
qed

text \<open>
  The states the runner can be in: after initialisation, after iterations with any answers of the kernel and any
  application states, times and battery charge, after any change of the key-value store and its flags, and after
  the application has set the event callback of a schedule.
\<close>

inductive runner_reach :: "'f runner_env \<Rightarrow> ('f, 'w) runner \<Rightarrow> bool" for e where
  boot: "\<lbrakk>init_args_ok e r0 schedules states tasks datas; task_runner_init e k schedules states tasks datas r0 = Some r\<rbrakk>
    \<Longrightarrow> runner_reach e r"
| iterate: "\<lbrakk>runner_reach e r; task_runner_iterate e k app up gps soc r = Some r'\<rbrakk> \<Longrightarrow> runner_reach e r'"
| store: "runner_reach e r \<Longrightarrow> runner_reach e (r\<lparr>runner_kv := kv\<rparr>)"
| callback: "runner_reach e r \<Longrightarrow>
    runner_reach e (r\<lparr>sch_states := (sch_states r)[i := (sch_states r ! i)\<lparr>ss_event_cb := cb\<rparr>]\<rparr>)"

lemma runner_reach_inv: "runner_reach e r \<Longrightarrow> runner_inv e r"
proof (induction rule: runner_reach.induct)
  case (boot r0 schedules states tasks datas k r)
  then show ?case using init_inv [of e r0 schedules states tasks datas k] by auto
next
  case (iterate r k app up gps soc r')
  then have "FLAGS_TRIGGER_SCHEDULE_RELOAD \<in> runner_flags r \<Longrightarrow> \<forall>i < sch_num r. ss_task_idx (sch_states r ! i) \<noteq> 255"
    using reload_out_of_bounds by fastforce
  from iterate_step [OF iterate.IH this, of k app up gps soc] show ?case using iterate.hyps(2) by auto
next
  case (store r kv)
  then show ?case by simp
next
  case (callback r i cb)
  let ?r = "r\<lparr>sch_states := (sch_states r)[i := (sch_states r ! i)\<lparr>ss_event_cb := cb\<rparr>]\<rparr>"
  have "runner_inv e ?r \<and> starting r ?r"
    by (rule quiet_step [OF callback.IH, where as = "[]"])
      (cases "i < length (sch_states r)"; auto simp: same_config_def nth_list_update list_update_beyond)+
  then show ?case by simp
qed

text \<open>
  C7. Iterations are memory safe, with one exception. In every reachable state no array access of an iteration
  leaves its array and no evaluation divides by zero or overflows, and each running task was started by a schedule
  that refers to it, unless a reload has been triggered while an evaluated schedule is invalid: exactly then
  \<open>iterate_handle_task_reload\<close> indexes the array of tasks with the marker 255.
\<close>

theorem runner_memory_safe:
  assumes "runner_reach e r"
  shows "runner_inv e r \<and>
    (task_runner_iterate e k app up gps soc r = None \<longleftrightarrow>
      FLAGS_TRIGGER_SCHEDULE_RELOAD \<in> runner_flags r \<and> (\<exists>i < sch_num r. ss_task_idx (sch_states r ! i) = 255))"
proof -
  note inv = runner_reach_inv [OF assms]
  show ?thesis
  proof (cases "FLAGS_TRIGGER_SCHEDULE_RELOAD \<in> runner_flags r \<and> (\<exists>i < sch_num r. ss_task_idx (sch_states r ! i) = 255)")
    case True
    then show ?thesis using inv reload_out_of_bounds [OF inv] by blast
  next
    case False
    then show ?thesis using inv iterate_step [OF inv, of k app up gps soc] by fastforce
  qed
qed

text \<open>
  C3. Starts are exact. An iteration starts a task (creates its thread, or schedules its work item) exactly once
  if the task is running afterwards and was not already running before, and otherwise not at all; in particular
  no task is ever started while the kernel still executes it for another schedule.
\<close>

theorem runner_starts_exact:
  assumes "runner_reach e r" "task_runner_iterate e k app up gps soc r = Some r'"
  shows "\<exists>as. runner_log r' = runner_log r @ as \<and>
    (\<forall>j < length (tsk r). num_starts j as =
      (if td_running (tsk_states r' ! j) \<and> \<not> (td_running (tsk_states r ! j) \<and> still_busy k r j) then 1 else 0))"
proof -
  note inv = runner_reach_inv [OF assms(1)]
  have "FLAGS_TRIGGER_SCHEDULE_RELOAD \<in> runner_flags r \<Longrightarrow> \<forall>i < sch_num r. ss_task_idx (sch_states r ! i) \<noteq> 255"
    using reload_out_of_bounds [OF inv] assms(2) by fastforce
  from iterate_step [OF inv this, of k app up gps soc] obtain r2 as where
    "task_runner_iterate e k app up gps soc r = Some r2" "runner_log r2 = runner_log r @ as"
    "\<forall>j < length (tsk r). num_starts j as = (if running r2 j \<and> \<not> (running r j \<and> still_busy k r j) then 1 else 0)" by blast
  then show ?thesis using assms(2) by (intro exI [of _ as]) simp
qed

text \<open>
  C14. A changed schedule takes effect. Once a reload is triggered, the next iteration asks every task that is
  still executing to terminate. As long as one is, nothing is started; as soon as none is, the schedules evaluated
  are those loaded from the key-value store.
\<close>

theorem runner_reload:
  assumes "runner_reach e r" "task_runner_iterate e k app up gps soc r = Some r'" "reload_pending r"
  shows "\<exists>as. runner_log r' = runner_log r @ as \<and>
    (FLAGS_TRIGGER_SCHEDULE_RELOAD \<in> runner_flags r \<longrightarrow>
      (\<forall>j < length (tsk r). td_running (tsk_states r ! j) \<and> still_busy k r j \<longrightarrow> Signal_raise j \<in> set as)) \<and>
    (if \<exists>j < length (tsk r). td_running (tsk_states r ! j) \<and> still_busy k r j
     then \<forall>j < length (tsk r). num_starts j as = 0
     else (let (n, loaded, kv) = task_runner_schedules_load e (re_schedules_id e) (default_sch r) (sch r) (runner_kv r)
           in sch r' = loaded \<and> sch_num r' = n))"
proof -
  note inv = runner_reach_inv [OF assms(1)]
  have v: "FLAGS_TRIGGER_SCHEDULE_RELOAD \<in> runner_flags r \<Longrightarrow> \<forall>i < sch_num r. ss_task_idx (sch_states r ! i) \<noteq> 255"
    using reload_out_of_bounds [OF inv] assms(2) by fastforce
  obtain n out kv where l: "task_runner_schedules_load e (re_schedules_id e) (default_sch r) (sch r) (runner_kv r) = (n, out, kv)"
    by (metis prod_cases3)
  have "n < 256" using load_sizes [OF l] inv by (simp add: runner_inv_def runner_sizes_def)
  then have "sch (reload_schedules e r) = out" "sch_num (reload_schedules e r) = n"
    by (simp_all add: reload_schedules_def l)
  moreover obtain r2 as where "task_runner_iterate e k app up gps soc r = Some r2" "runner_log r2 = runner_log r @ as"
    "FLAGS_TRIGGER_SCHEDULE_RELOAD \<in> runner_flags r \<longrightarrow>
      (\<forall>j < length (tsk r). running r j \<and> still_busy k r j \<longrightarrow> Signal_raise j \<in> set as)"
    "reload_pending r \<and> (\<exists>j < length (tsk r). running r j \<and> still_busy k r j) \<longrightarrow> (\<forall>j < length (tsk r). num_starts j as = 0)"
    "reload_pending r \<and> \<not> (\<exists>j < length (tsk r). running r j \<and> still_busy k r j) \<longrightarrow>
      sch r2 = sch (reload_schedules e r) \<and> sch_num r2 = sch_num (reload_schedules e r)"
    using iterate_step [OF inv v, of k app up gps soc] by blast
  ultimately show ?thesis using assms(2,3) l by (intro exI [of _ as]) simp
qed

subsection \<open>An example\<close>

definition run_env :: "(nat \<rightharpoonup> byte list) runner_env" where
  "run_env = \<lparr>re_kv = \<lparr>ke_api = mem_kv_api, ke_crc32 = (\<lambda>bs. \<Sum>b\<leftarrow>bs. unat b),
       ke_slots = [\<lparr>sd_key = 1000, sd_range = 1, sd_flags = KV_FLAGS_REFLECT\<rparr>, \<lparr>sd_key = 1001, sd_range = 2, sd_flags = KV_FLAGS_REFLECT\<rparr>]\<rparr>,
     re_range = 2, re_schedules_id = 7, re_assert = False\<rparr>"

definition run_schedule :: task_schedule where
  "run_schedule = example_schedule\<lparr>sc_validity := 4, sc_periodicity_type := 0, sc_logging_args := replicate 20 0\<rparr>"

definition run_start :: "(nat \<rightharpoonup> byte list, unit) runner" where
  "run_start = \<lparr>sch = replicate 2 null_schedule, default_sch = [], sch_states = [], sch_num = 0, tsk = [], tsk_states = [],
     schedule_cb_set = False, runner_kv = \<lparr>kv_fs = (\<lambda>_. None), kv_cb_list = [], kv_cb_data = ({}, ()),
       value_crc_slots = [0, 0, 0], reflect_crc = 0\<rparr>, runner_log = []\<rparr>"

definition run_kernel :: runner_kernel where
  "run_kernel = \<lparr>rk_device_ready = (\<lambda>_. True), rk_thread_joined = (\<lambda>_. False), rk_work_busy = (\<lambda>_. True)\<rparr>"

definition run_states :: "task_schedule_state list" where
  "run_states = replicate 2 \<lparr>ss_linked = None, ss_event_cb = None, ss_last_run = 0, ss_runtime = 0, ss_last_terminate = 0, ss_task_idx = 0\<rparr>"

definition run_boot :: "(nat \<rightharpoonup> byte list, unit) runner option" where
  "run_boot = task_runner_init run_env run_kernel [run_schedule] run_states
     [\<lparr>tc_task_id = 10, tc_exec_type = TASK_EXECUTOR_THREAD, tc_flags = 0\<rparr>]
     [\<lparr>td_reschedule_counter = 0, td_schedule_idx = 0, td_running = False, td_skip = False\<rparr>] run_start"

lemma run_boot_reach: "\<exists>r. run_boot = Some r \<and> runner_reach run_env r"
proof -
  have a: "init_args_ok run_env run_start [run_schedule] run_states
      [\<lparr>tc_task_id = 10, tc_exec_type = TASK_EXECUTOR_THREAD, tc_flags = 0\<rparr>]
      [\<lparr>td_reschedule_counter = 0, td_schedule_idx = 0, td_running = False, td_skip = False\<rparr>]"
    by (simp add: init_args_ok_def run_env_def run_start_def run_states_def)
  then show ?thesis using init_inv [OF a, of run_kernel] boot [OF a] unfolding run_boot_def by blast
qed

lemma run_boot_values:
  "map_option (\<lambda>r. (runner_flags r, sch_num r, length (tsk r), map td_running (tsk_states r))) run_boot = Some ({}, 1, 1, [False])"
  "map_option (\<lambda>r. map td_running (tsk_states r)) (Option.bind run_boot (task_runner_iterate run_env run_kernel {} 60 0 50)) = Some [True]"
  by code_simp+

theorem runner_memory_safe_witness:
  "\<exists>r. run_boot = Some r \<and> runner_inv run_env r \<and> task_runner_iterate run_env run_kernel {} 60 0 50 r \<noteq> None"
proof -
  obtain r where r: "run_boot = Some r" "runner_reach run_env r" using run_boot_reach by blast
  then have "runner_flags r = {}" using run_boot_values(1) unfolding r(1) by simp
  then show ?thesis using r runner_memory_safe [OF r(2), of run_kernel "{}" 60 0 50] by auto
qed

theorem runner_starts_exact_witness:
  "\<exists>r r' as. run_boot = Some r \<and> task_runner_iterate run_env run_kernel {} 60 0 50 r = Some r' \<and>
     runner_log r' = runner_log r @ as \<and> num_starts 0 as = 1"
proof -
  obtain r where r: "run_boot = Some r" "runner_reach run_env r" using run_boot_reach by blast
  obtain r' where r': "task_runner_iterate run_env run_kernel {} 60 0 50 r = Some r'" "map td_running (tsk_states r') = [True]"
    using run_boot_values(2) unfolding r(1) by auto
  have "length (tsk r) = 1" "map td_running (tsk_states r) = [False]" using run_boot_values(1) unfolding r(1) by simp_all
  moreover from this r'(2) have "td_running (tsk_states r' ! 0)" "\<not> td_running (tsk_states r ! 0)"
    by (auto simp: map_eq_Cons_conv)
  ultimately show ?thesis using r r' runner_starts_exact [OF r(2) r'(1)] by auto
qed

theorem runner_reload_witness:
  "\<exists>(r :: (nat \<rightharpoonup> byte list, unit) runner) r'. runner_reach run_env r \<and> reload_pending r \<and> task_runner_iterate run_env run_kernel {} 60 0 50 r = Some r' \<and>
     sch r' = fst (snd (task_runner_schedules_load run_env 7 (default_sch r) (sch r) (runner_kv r)))"
proof -
  let ?set = "\<lambda>r. r\<lparr>runner_kv := kv_set_flag FLAGS_TRIGGER_SCHEDULE_RELOAD (runner_kv r)\<rparr>"
  obtain r0 where r0: "run_boot = Some r0" "runner_reach run_env r0" using run_boot_reach by blast
  let ?r = "?set r0"
  have reach: "runner_reach run_env ?r" by (rule store [OF r0(2)])
  have "Option.bind run_boot (\<lambda>r. task_runner_iterate run_env run_kernel {} 60 0 50 (?set r)) \<noteq> None" by code_simp
  then obtain r' where r': "task_runner_iterate run_env run_kernel {} 60 0 50 ?r = Some r'" unfolding r0(1) by auto
  have p: "reload_pending ?r" by (simp add: reload_pending_def runner_flags_def kv_set_flag_def)
  have idle: "length (tsk ?r) = 1" "\<not> td_running (tsk_states ?r ! 0)" using run_boot_values(1) unfolding r0(1) by (auto simp: map_eq_Cons_conv)
  from runner_reload [OF reach r' p] idle
  have "sch r' = fst (snd (task_runner_schedules_load run_env (re_schedules_id run_env) (default_sch ?r) (sch ?r) (runner_kv ?r)))"
    by (auto split: prod.splits)
  moreover have "re_schedules_id run_env = 7" by (simp add: run_env_def)
  ultimately show ?thesis using reach p r' by (intro exI [of _ ?r] exI [of _ r'] conjI) simp_all
qed

theorem schedules_load_roundtrip_witness:
  "\<exists>n out kv. task_runner_schedules_load run_env 7 [run_schedule] (sch run_start) (runner_kv run_start) = (n, out, kv) \<and>
     n = 1 \<and> take n out = [run_schedule] \<and>
     (\<exists>kv2. task_runner_schedules_load run_env 7 [run_schedule] (replicate 2 run_schedule) kv = (1, [run_schedule, null_schedule], kv2))"
proof -
  obtain n out kv where l: "task_runner_schedules_load run_env 7 [run_schedule] (sch run_start) (runner_kv run_start) = (n, out, kv)"
    by (metis prod_cases3)
  have keys: "runner_keys_ok run_env" by code_simp
  have bk: "kv_backend (ke_api (re_kv run_env)) (\<lambda>f. f)" using mem_kv.kv_backend_axioms by (simp add: run_env_def)
  have st: "load_stores run_env 7 [run_schedule] (sch run_start) (runner_kv run_start)" by code_simp
  have v: "list_all task_schedule_validate [run_schedule]" "list_all schedule_wf [run_schedule]"
    "\<not> default_stored run_env 7 (runner_kv run_start)" by code_simp+
  have len: "[run_schedule] \<noteq> []" "length [run_schedule] \<le> re_range run_env" "length (sch run_start) = re_range run_env"
    "length (replicate 2 run_schedule) = re_range run_env" "re_range run_env - 1 = Suc 0" by (simp_all add: run_start_def run_env_def)
  note t = schedules_load_roundtrip [OF bk keys v(1,2) len(1,2) v(3) len(3,4) st l]
  have n: "n = 1" using conjunct1 [OF t] by simp
  from t have "take n out = [run_schedule]"
    "\<exists>kv2. task_runner_schedules_load run_env 7 [run_schedule] (replicate 2 run_schedule) kv =
      (n, [run_schedule] @ replicate (re_range run_env - n) null_schedule, kv2)" by blast+
  then show ?thesis using n l len(5) by simp
qed

end
