(* ===== verification/Epoch_State.thy ===== *)
theory Epoch_State
  imports Epoch_Time App_States
begin

text \<open>
  The reference instant of epoch time, \<open>lib/time/epoch.c\<close>, and the classification of time sources in
  \<open>time/epoch.h\<close>. The clock arithmetic (\<open>timeutil_sync_*\<close>, tick conversions, the uptime) belongs to Zephyr and
  is a parameter; what is relied on is the locale \<open>time_sync\<close>.
\<close>

subsection \<open>Time sources\<close>

definition TIME_SOURCE_NONE :: byte where "TIME_SOURCE_NONE = 0"
definition TIME_SOURCE_GNSS :: byte where "TIME_SOURCE_GNSS = 1"
definition TIME_SOURCE_NTP :: byte where "TIME_SOURCE_NTP = 2"
definition TIME_SOURCE_RPC :: byte where "TIME_SOURCE_RPC = 3"
definition TIME_SOURCE_EPACKET :: byte where "TIME_SOURCE_EPACKET = 4"
definition TIME_SOURCE_INVALID :: byte where "TIME_SOURCE_INVALID = 5"
definition TIME_SOURCE_RECOVERED :: byte where "TIME_SOURCE_RECOVERED = 0x80"

lemmas time_source_defs = TIME_SOURCE_NONE_def TIME_SOURCE_GNSS_def TIME_SOURCE_NTP_def TIME_SOURCE_RPC_def
  TIME_SOURCE_EPACKET_def TIME_SOURCE_INVALID_def TIME_SOURCE_RECOVERED_def

definition epoch_time_source_base :: "byte \<Rightarrow> byte" where
  "epoch_time_source_base source = source AND NOT TIME_SOURCE_RECOVERED"

definition epoch_time_trusted_source :: "byte \<Rightarrow> bool \<Rightarrow> bool" where
  "epoch_time_trusted_source source recovered_ok =
     (let base = epoch_time_source_base source;
          recovered = (source AND TIME_SOURCE_RECOVERED \<noteq> 0);
          base_good = (TIME_SOURCE_NONE + 1 \<le> base \<and> base \<le> TIME_SOURCE_INVALID - 1)
      in base_good \<and> (\<not> recovered \<or> recovered_ok))"

definition epoch_time_precise_source :: "byte \<Rightarrow> bool" where
  "epoch_time_precise_source source =
     (let base = epoch_time_source_base source in base = TIME_SOURCE_GNSS \<or> base = TIME_SOURCE_NTP)"

subsection \<open>State\<close>

record sync_instant =
  si_local :: word64
  si_ref :: word64

text \<open>The synchronisation state: the base instant, and whether the skew is the 1.0 this file always sets.\<close>

record sync_state =
  sy_base :: sync_instant
  sy_skew_one :: bool

record sync_api =
  sa_ref_from_local :: "sync_state \<Rightarrow> word64 \<Rightarrow> word64 res"
  sa_local_from_ref :: "sync_state \<Rightarrow> word64 \<Rightarrow> word64 res"
  sa_set_skew_one :: "sync_state \<Rightarrow> sync_instant \<Rightarrow> unit res \<times> sync_state"
  sa_ticks_to_epoch_near64 :: "word64 \<Rightarrow> word64"
  sa_ticks_to_ms_floor64 :: "word64 \<Rightarrow> word64"

definition JAN_01_01_2020 :: word64 where "JAN_01_01_2020 = 1261872018 * 65536"

record 'v epoch_time_cb =
  ec_id :: nat
  ec_updated :: "(byte \<Rightarrow> sync_instant \<Rightarrow> sync_instant \<Rightarrow> 'v \<Rightarrow> 'v) option"

record ('v, 'w) epoch_state =
  infuse_sync_state :: sync_state
  infuse_time_source :: byte
  epoch_cb_list :: "'v epoch_time_cb list"
  epoch_cb_data :: 'v
  epoch_app :: "'w app_states"

definition default_sync :: sync_state where
  "default_sync = \<lparr>sy_base = \<lparr>si_local = 0, si_ref = JAN_01_01_2020\<rparr>, sy_skew_one = True\<rparr>"

subsection \<open>Operations\<close>

fun remove_epoch_cb :: "nat \<Rightarrow> 'v epoch_time_cb list \<Rightarrow> 'v epoch_time_cb list" where
  "remove_epoch_cb i [] = []"
| "remove_epoch_cb i (c # cs) = (if ec_id c = i then cs else c # remove_epoch_cb i cs)"

definition epoch_time_register_callback :: "'v epoch_time_cb \<Rightarrow> ('v, 'w) epoch_state \<Rightarrow> ('v, 'w) epoch_state" where
  "epoch_time_register_callback cb s = s\<lparr>epoch_cb_list := remove_epoch_cb (ec_id cb) (epoch_cb_list s) @ [cb]\<rparr>"

definition ticks_from_epoch_time :: "sync_api \<Rightarrow> word64 \<Rightarrow> ('v, 'w) epoch_state \<Rightarrow> word64" where
  "ticks_from_epoch_time api epoch_time s =
     (case sa_local_from_ref api (infuse_sync_state s) epoch_time of Inl _ \<Rightarrow> 0 | Inr local \<Rightarrow> local)"

text \<open>If the second conversion fails as well, \<open>civil\<close> is read uninitialised: \<open>None\<close>.\<close>

definition epoch_time_from_ticks :: "sync_api \<Rightarrow> word64 \<Rightarrow> ('v, 'w) epoch_state \<Rightarrow> word64 option \<times> ('v, 'w) epoch_state" where
  "epoch_time_from_ticks api ticks s =
     (case sa_ref_from_local api (infuse_sync_state s) ticks of
        Inr civil \<Rightarrow> (Some civil, s)
      | Inl _ \<Rightarrow>
          (let s = s\<lparr>infuse_sync_state := default_sync\<rparr>
           in (case sa_ref_from_local api (infuse_sync_state s) ticks of Inr civil \<Rightarrow> Some civil | Inl _ \<Rightarrow> None, s)))"

definition epoch_period_from_array_ticks :: "sync_api \<Rightarrow> word64 \<Rightarrow> nat \<Rightarrow> nat" where
  "epoch_period_from_array_ticks api array_ticks array_num =
     (if array_num < 2 then 0 else u32 (unat (sa_ticks_to_epoch_near64 api array_ticks) div (array_num - 1)))"

definition epoch_time_get_source :: "('v, 'w) epoch_state \<Rightarrow> byte" where
  "epoch_time_get_source s = infuse_time_source s"

definition notify_reference :: "byte \<Rightarrow> sync_instant \<Rightarrow> sync_instant \<Rightarrow> ('v, 'w) epoch_state \<Rightarrow> ('v, 'w) epoch_state" where
  "notify_reference source prev reference s =
     s\<lparr>epoch_cb_data := fold (\<lambda>cb v. case ec_updated cb of None \<Rightarrow> v | Some f \<Rightarrow> f source prev reference v)
                          (epoch_cb_list s) (epoch_cb_data s)\<rparr>"

definition epoch_time_set_reference ::
  "sync_api \<Rightarrow> byte \<Rightarrow> sync_instant \<Rightarrow> ('v, 'w) epoch_state \<Rightarrow> unit res \<times> ('v, 'w) epoch_state" where
  "epoch_time_set_reference api source reference s =
     (let prev = sy_base (infuse_sync_state s) in
      if si_ref reference = 0 then (Inl EINVAL, s)
      else
        (let (rc, sync) = sa_set_skew_one api (infuse_sync_state s) reference;
             s = s\<lparr>infuse_sync_state := sync, infuse_time_source := source\<rparr>;
             s = (if epoch_time_trusted_source source True
                  then s\<lparr>epoch_app := snd (infuse_state_set INFUSE_STATE_TIME_KNOWN (epoch_app s))\<rparr> else s)
         in (rc, notify_reference source prev reference s)))"

definition epoch_time_reference_age :: "sync_api \<Rightarrow> word64 \<Rightarrow> ('v, 'w) epoch_state \<Rightarrow> nat" where
  "epoch_time_reference_age api uptime_ticks s =
     (if \<not> epoch_time_trusted_source (infuse_time_source s) True then 4294967295
      else u32 (unat (sa_ticks_to_ms_floor64 api (uptime_ticks - si_local (sy_base (infuse_sync_state s)))) div 1000))"

text \<open>The difference of two \<open>uint64_t\<close> read as \<open>int64_t\<close>; \<open>None\<close> on signed overflow.\<close>

definition epoch_time_reference_shift ::
  "sync_api \<Rightarrow> word64 \<Rightarrow> sync_instant \<Rightarrow> sync_instant \<Rightarrow> int option res" where
  "epoch_time_reference_shift api now ref_a ref_b =
     (case sa_ref_from_local api \<lparr>sy_base = ref_a, sy_skew_one = True\<rparr> now of
        Inl _ \<Rightarrow> Inl EINVAL
      | Inr out_a \<Rightarrow>
          (case sa_ref_from_local api \<lparr>sy_base = ref_b, sy_skew_one = True\<rparr> now of
             Inl _ \<Rightarrow> Inl EINVAL
           | Inr out_b \<Rightarrow>
               (let d = sint out_b - sint out_a
                in Inr (if - (2 ^ 63) \<le> d \<and> d < 2 ^ 63 then Some d else None))))"

subsection \<open>Conversions are inverse\<close>

lemma unat_ucast_32_64: "unat (ucast (w :: word32) :: word64) = unat w"
  by (simp add: unsigned_ucast_eq take_bit_eq_mod mod_less order_less_trans [OF unat_word32_less])

lemma seconds_of_from: "unat s < 2 ^ 48 \<Longrightarrow> epoch_time_seconds (epoch_time_from s ss) = s"
  by (simp add: word_unat_eq_iff unat_epoch_time_seconds unat_epoch_time_from)

lemma subseconds_of_from: "unat s < 2 ^ 48 \<Longrightarrow> epoch_time_subseconds (epoch_time_from s ss) = ss"
  by (simp add: word_unat_eq_iff unat_epoch_time_subseconds unat_epoch_time_from)

lemma unat_ucast_64_32: "unat (ucast (w :: word64) :: word32) = unat w mod 4294967296"
  by (simp add: unsigned_ucast_eq unsigned_take_bit_eq) (simp add: take_bit_eq_mod)

lemma uint_word32_mod: "uint (u :: word32) mod 4294967296 = uint u"
  using uint_lt2p [of u] by (simp add: mod_pos_pos_trivial)

lemma mod_shift:
  assumes "m dvd M"
  shows "(x mod M + c) mod m = (x + c) mod (m :: int)"
proof -
  have "x mod M + c - (x + c) = - (M * (x div M))" by (simp add: minus_div_mult_eq_mod [symmetric])
  then show ?thesis using assms by (simp add: mod_eq_dvd_iff)
qed

lemmas unix_consts = GPS_UNIX_OFFSET_BASE_def GPS_UNIX_OFFSET_LEAP_def

lemma mod_shift2: "m dvd M \<Longrightarrow> (c + x mod M) mod m = (c + x) mod (m :: int)"
  using mod_shift [of m M x c] by (simp only: add.commute)

lemma unix_shift:
  "(ucast (ucast (u - of_nat GPS_UNIX_OFFSET_BASE + of_nat GPS_UNIX_OFFSET_LEAP) + of_nat GPS_UNIX_OFFSET_BASE -
     of_nat GPS_UNIX_OFFSET_LEAP :: word64) :: word32) = u" for u :: word32
proof -
  have "(315964782 + (uint u - 315964782) mod 4294967296) mod 4294967296 = (315964782 + (uint u - 315964782)) mod 4294967296"
    by (rule mod_shift2) simp
  then have e: "(315964782 + (uint u - 315964782) mod 4294967296) mod 4294967296 = uint u"
    using uint_word32_mod [of u] by simp
  have "(315964782 + (uint u - 315964782) mod 4294967296) mod 18446744073709551616 mod 4294967296 = uint u"
    by (subst mod_mod_cancel) (simp_all only: e, simp)
  then show ?thesis using e
    by (simp add: word_uint_eq_iff uint_word_ariths unsigned_ucast_eq take_bit_eq_mod unix_consts)
qed

lemma ucast_unix_shift:
  "(ucast (s + of_nat GPS_UNIX_OFFSET_BASE - of_nat GPS_UNIX_OFFSET_LEAP :: word64) :: word32) -
     of_nat GPS_UNIX_OFFSET_BASE + of_nat GPS_UNIX_OFFSET_LEAP = ucast s"
proof -
  have "((315964782 + uint s) mod 18446744073709551616 mod 4294967296 + (- 315964782)) mod 4294967296 =
      ((315964782 + uint s) mod 18446744073709551616 + (- 315964782)) mod 4294967296" by (rule mod_shift) simp
  also have "\<dots> = (315964782 + uint s + (- 315964782)) mod 4294967296" by (rule mod_shift) simp
  finally show ?thesis
    by (simp add: word_uint_eq_iff uint_word_ariths unsigned_ucast_eq take_bit_eq_mod unix_consts)
qed

text \<open>
  C30. The conversions between time formats are inverse to each other: every Unix time survives the way to epoch
  time and back, an epoch time of 32 bit seconds survives the way to Unix time and back, splitting and joining the
  parts of an epoch time is the identity, and GPS weeks and seconds count as they should for every input.
\<close>

theorem epoch_conversions:
  "unix_time_from_epoch (epoch_time_from_unix unix ss) = unix \<and> epoch_time_subseconds (epoch_time_from_unix unix ss) = ss \<and>
   (unat (epoch_time_seconds t) < 2 ^ 32 \<longrightarrow> epoch_time_from_unix (unix_time_from_epoch t) (epoch_time_subseconds t) = t) \<and>
   epoch_time_from (epoch_time_seconds t) (epoch_time_subseconds t) = t \<and>
   unat (epoch_time_seconds (epoch_time_from_gps week ws ss)) = 604800 * unat week + unat ws \<and>
   epoch_time_subseconds (epoch_time_from_gps week ws ss) = ss"
proof (intro conjI impI)
  let ?s = "ucast (unix - of_nat GPS_UNIX_OFFSET_BASE + of_nat GPS_UNIX_OFFSET_LEAP) :: word64"
  have s: "unat ?s < 2 ^ 48" unfolding unat_ucast_32_64
    using unat_word32_less [of "unix - of_nat GPS_UNIX_OFFSET_BASE + of_nat GPS_UNIX_OFFSET_LEAP"]
    by (simp del: unat_word32_less)
  show "unix_time_from_epoch (epoch_time_from_unix unix ss) = unix"
    by (simp add: unix_time_from_epoch_def epoch_time_from_unix_def seconds_of_from [OF s] unix_shift)
  show "epoch_time_subseconds (epoch_time_from_unix unix ss) = ss"
    by (simp add: epoch_time_from_unix_def subseconds_of_from [OF s])
  assume t: "unat (epoch_time_seconds t) < 2 ^ 32"
  have "(ucast (ucast (epoch_time_seconds t) :: word32) :: word64) = epoch_time_seconds t"
    using t by (simp add: word_unat_eq_iff unat_ucast_32_64 unat_ucast_64_32)
  then show "epoch_time_from_unix (unix_time_from_epoch t) (epoch_time_subseconds t) = t"
    by (simp add: epoch_time_from_unix_def unix_time_from_epoch_def ucast_unix_shift epoch_time_from_parts)
next
  show "epoch_time_from (epoch_time_seconds t) (epoch_time_subseconds t) = t" by (rule epoch_time_from_parts)
  let ?g = "of_nat SECONDS_PER_WEEK * ucast week + ucast ws :: word64"
  have w: "unat (ucast week :: word64) = unat week"
    by (simp add: unsigned_ucast_eq take_bit_eq_mod mod_less order_less_trans [OF unat_word16_less])
  have b: "604800 * unat week + unat ws < 2 ^ 48" using unat_word16_less [of week] unat_word32_less [of ws]
    by (simp del: unat_word16_less unat_word32_less)
  have g: "unat ?g = 604800 * unat week + unat ws"
    using b by (simp add: unat_word_ariths w unat_ucast_32_64 SECONDS_PER_WEEK_def)
  have g': "unat ?g < 2 ^ 48" using g b by simp
  show "unat (epoch_time_seconds (epoch_time_from_gps week ws ss)) = 604800 * unat week + unat ws"
    by (simp add: epoch_time_from_gps_def Let_def seconds_of_from [OF g'] g)
  show "epoch_time_subseconds (epoch_time_from_gps week ws ss) = ss"
    by (simp add: epoch_time_from_gps_def Let_def subseconds_of_from [OF g'])
qed

theorem epoch_conversions_witness:
  "unat (epoch_time_seconds 0x4B3697928000) < 2 ^ 32 \<and>
   epoch_time_from_unix (unix_time_from_epoch 0x4B3697928000) (epoch_time_subseconds 0x4B3697928000) = 0x4B3697928000"
proof -
  have "unat (epoch_time_seconds 0x4B3697928000) < 2 ^ 32" by (simp add: unat_epoch_time_seconds)
  then show ?thesis using epoch_conversions [of 0 0 "0x4B3697928000" 0 0] by blast
qed

subsection \<open>The reference instant\<close>

text \<open>
  What is relied on of Zephyr's clock synchronisation: setting the skew to one with a new base succeeds and installs
  that base, and at the base instant itself the two clocks are related exactly by it, as long as its reference time
  is not zero and fits a signed 64 bit integer (beyond that the conversion reports \<open>ERANGE\<close>).
\<close>

locale time_sync =
  fixes api :: sync_api
  assumes set_skew_law: "sa_set_skew_one api sync reference = (Inr (), \<lparr>sy_base = reference, sy_skew_one = True\<rparr>)"
    and base_law: "si_ref base \<noteq> 0 \<Longrightarrow> unat (si_ref base) < 2 ^ 63 \<Longrightarrow>
      sa_ref_from_local api \<lparr>sy_base = base, sy_skew_one = True\<rparr> (si_local base) = Inr (si_ref base)"
begin

lemma set_reference_ok:
  assumes "si_ref reference \<noteq> 0"
  shows "\<exists>s'. epoch_time_set_reference api source reference s = (Inr (), s') \<and>
    infuse_sync_state s' = \<lparr>sy_base = reference, sy_skew_one = True\<rparr> \<and> infuse_time_source s' = source \<and>
    epoch_cb_list s' = epoch_cb_list s \<and>
    epoch_app s' = (if epoch_time_trusted_source source True
      then snd (infuse_state_set INFUSE_STATE_TIME_KNOWN (epoch_app s)) else epoch_app s) \<and>
    epoch_cb_data s' = fold (\<lambda>cb v. case ec_updated cb of None \<Rightarrow> v | Some f \<Rightarrow> f source (sy_base (infuse_sync_state s)) reference v)
      (epoch_cb_list s) (epoch_cb_data s)"
  using assms by (auto simp: epoch_time_set_reference_def set_skew_law notify_reference_def Let_def)

lemma from_ticks_at_base:
  assumes "infuse_sync_state s = \<lparr>sy_base = base, sy_skew_one = True\<rparr>" "si_ref base \<noteq> 0"
    and "unat (si_ref base) < 2 ^ 63"
  shows "epoch_time_from_ticks api (si_local base) s = (Some (si_ref base), s)"
  using base_law [OF assms(2,3)] assms(1) by (simp add: epoch_time_from_ticks_def)

end

lemma state_set_known:
  "INFUSE_STATE_TIME_KNOWN \<in> application_states (snd (infuse_state_set INFUSE_STATE_TIME_KNOWN a))"
  by (simp add: infuse_state_set_def Let_def notify_set_def clear_timeout_state_def split: option.split)

text \<open>
  C18. Setting the time. A reference with time zero is refused with \<open>EINVAL\<close> and changes nothing. Any other
  becomes the reference: the source is remembered; if the epoch time of the reference is below 2 ^ 63, the local time
  of the reference converts to exactly that epoch time; every registered callback that has a handler is called once,
  in order of registration, with the source and the old and new references; and the application state
  \<open>TIME_KNOWN\<close> is set if the source is trusted, that is, one of the four real sources, recovered or not; for
  an untrusted source the application states stay as they are and the reference has no age.
\<close>

theorem epoch_set_reference_correct:
  assumes "time_sync api" "epoch_time_set_reference api source reference s = (rc, s')"
  shows "if si_ref reference = 0 then rc = Inl EINVAL \<and> s' = s
    else rc = Inr () \<and> epoch_time_get_source s' = source \<and>
      (unat (si_ref reference) < 2 ^ 63 \<longrightarrow>
        epoch_time_from_ticks api (si_local reference) s' = (Some (si_ref reference), s')) \<and>
      epoch_cb_data s' = fold (\<lambda>cb v. case ec_updated cb of None \<Rightarrow> v | Some f \<Rightarrow> f source (sy_base (infuse_sync_state s)) reference v)
        (epoch_cb_list s) (epoch_cb_data s) \<and>
      (if epoch_time_source_base source \<in> {TIME_SOURCE_GNSS, TIME_SOURCE_NTP, TIME_SOURCE_RPC, TIME_SOURCE_EPACKET}
       then infuse_state_get INFUSE_STATE_TIME_KNOWN (epoch_app s')
       else epoch_app s' = epoch_app s \<and> epoch_time_reference_age api now s' = 4294967295)"
proof (cases "si_ref reference = 0")
  case True
  then show ?thesis using assms(2) by (simp add: epoch_time_set_reference_def)
next
  case False
  have "(1 \<le> b \<and> b \<le> 4) = (b \<in> {1, 2, 3, 4})" for b :: byte
  proof -
    have "(1 \<le> b \<and> b \<le> 4) = (unat b \<in> {1, 2, 3, 4})" by (auto simp: word_le_nat_alt)
    then show ?thesis by (simp add: word_unat_eq_iff)
  qed
  then have trusted: "epoch_time_trusted_source source True \<longleftrightarrow>
      epoch_time_source_base source \<in> {TIME_SOURCE_GNSS, TIME_SOURCE_NTP, TIME_SOURCE_RPC, TIME_SOURCE_EPACKET}"
    by (simp add: epoch_time_trusted_source_def Let_def time_source_defs)
  obtain s1 where s1: "epoch_time_set_reference api source reference s = (Inr (), s1)"
    "infuse_sync_state s1 = \<lparr>sy_base = reference, sy_skew_one = True\<rparr>" "infuse_time_source s1 = source"
    "epoch_app s1 = (if epoch_time_trusted_source source True
      then snd (infuse_state_set INFUSE_STATE_TIME_KNOWN (epoch_app s)) else epoch_app s)"
    "epoch_cb_data s1 = fold (\<lambda>cb v. case ec_updated cb of None \<Rightarrow> v | Some f \<Rightarrow> f source (sy_base (infuse_sync_state s)) reference v)
      (epoch_cb_list s) (epoch_cb_data s)"
    using time_sync.set_reference_ok [OF assms(1) False, of source s] by blast
  then have eq: "rc = Inr ()" "s' = s1" using assms(2) by simp_all
  have "epoch_time_from_ticks api (si_local reference) s1 = (Some (si_ref reference), s1)" if "unat (si_ref reference) < 2 ^ 63"
    using that by (rule time_sync.from_ticks_at_base [OF assms(1) s1(2) False])
  then show ?thesis unfolding eq trusted [symmetric] using False s1
    by (simp add: state_set_known epoch_time_get_source_def infuse_state_get_def epoch_time_reference_age_def)
qed

text \<open>A clock of one tick per 1/65536 second keeps the promises.\<close>

definition unit_sync :: sync_api where
  "unit_sync = \<lparr>sa_ref_from_local = (\<lambda>st l. Inr (si_ref (sy_base st) + (l - si_local (sy_base st)))),
     sa_local_from_ref = (\<lambda>st r. Inr (si_local (sy_base st) + (r - si_ref (sy_base st)))),
     sa_set_skew_one = (\<lambda>st reference. (Inr (), \<lparr>sy_base = reference, sy_skew_one = True\<rparr>)),
     sa_ticks_to_epoch_near64 = (\<lambda>t. t), sa_ticks_to_ms_floor64 = (\<lambda>t. drop_bit 16 (t * 1000))\<rparr>"

interpretation unit_clock: time_sync unit_sync
  by unfold_locales (simp_all add: unit_sync_def)

definition demo_epoch :: "(byte list, unit) epoch_state" where
  "demo_epoch = \<lparr>infuse_sync_state = default_sync, infuse_time_source = TIME_SOURCE_NONE,
     epoch_cb_list = [\<lparr>ec_id = 0, ec_updated = Some (\<lambda>source prev new v. source # v)\<rparr>], epoch_cb_data = [],
     epoch_app = states_init 4 ()\<rparr>"

theorem epoch_set_reference_correct_witness:
  "case epoch_time_set_reference unit_sync TIME_SOURCE_NTP \<lparr>si_local = 500, si_ref = 0x4B3697920000\<rparr> demo_epoch of (rc, s') \<Rightarrow>
     rc = Inr () \<and> epoch_time_from_ticks unit_sync 500 s' = (Some 0x4B3697920000, s') \<and>
     epoch_cb_data s' = [TIME_SOURCE_NTP] \<and>
     infuse_state_get INFUSE_STATE_TIME_KNOWN (epoch_app s')"
proof -
  obtain rc s' where r: "epoch_time_set_reference unit_sync TIME_SOURCE_NTP \<lparr>si_local = 500, si_ref = 0x4B3697920000\<rparr> demo_epoch = (rc, s')"
    by force
  have "epoch_time_source_base TIME_SOURCE_NTP = TIME_SOURCE_NTP" by code_simp
  then show ?thesis unfolding r using epoch_set_reference_correct [OF unit_clock.time_sync_axioms r]
    by (simp add: demo_epoch_def)
qed

end
