(* ===== verification/Secure_Storage.thy ===== *)
theory Secure_Storage
  imports Kv_Store
begin

text \<open>
  Trusted storage, \<open>subsys/fs/secure_storage/secure_storage.c\<close>: the PSA internal trusted storage interface on the
  file system of the key-value store, each value encrypted and authenticated together with its size and flags.
  The cipher and the key derivation are services outside the repository and parameters; what is relied on is
  the locale \<open>aead\<close>. The configuration modelled stores in NVS. Reading or copying outside a buffer is \<open>None\<close>.
\<close>

subsection \<open>Data\<close>

datatype psa_status =
    PSA_SUCCESS | PSA_ERROR_INVALID_HANDLE | PSA_ERROR_INSUFFICIENT_STORAGE | PSA_ERROR_NOT_PERMITTED
  | PSA_ERROR_STORAGE_FAILURE | PSA_ERROR_HARDWARE_FAILURE | PSA_ERROR_DOES_NOT_EXIST | PSA_ERROR_DATA_CORRUPT
  | PSA_ERROR_INSUFFICIENT_DATA

definition PSA_KEY_ID_INFUSE_MIN :: nat where "PSA_KEY_ID_INFUSE_MIN = kv_builtin_id KV_KEY_SECURE_STORAGE_RESERVED"
definition PSA_KEY_ID_INFUSE_MAX :: nat where "PSA_KEY_ID_INFUSE_MAX = 30009"
definition PSA_STORAGE_FLAG_WRITE_ONCE :: nat where "PSA_STORAGE_FLAG_WRITE_ONCE = 1"
definition CHACHA_NONCE_SIZE :: nat where "CHACHA_NONCE_SIZE = 12"
definition CHACHA_TAG_SIZE :: nat where "CHACHA_TAG_SIZE = 16"
definition OVERHEAD :: nat where "OVERHEAD = 8 + CHACHA_NONCE_SIZE + CHACHA_TAG_SIZE"

record psa_storage_info =
  pi_size :: nat
  pi_flags :: nat

definition info_bytes :: "psa_storage_info \<Rightarrow> byte list" where
  "info_bytes info = put_le 4 (pi_size info) @ put_le 4 (pi_flags info)"

definition info_of :: "byte list \<Rightarrow> psa_storage_info" where
  "info_of bs = \<lparr>pi_size = le_at 0 4 bs, pi_flags = le_at 4 4 bs\<rparr>"

text \<open>The cipher with its key: nonce, additional data and text to text, \<open>None\<close> being a failure.\<close>

record aead_api =
  aead_encrypt :: "byte list \<Rightarrow> byte list \<Rightarrow> byte list \<Rightarrow> byte list option"
  aead_decrypt :: "byte list \<Rightarrow> byte list \<Rightarrow> byte list \<Rightarrow> byte list option"

record 'f ss_env =
  se_api :: "'f kv_fs_api"
  se_aead :: aead_api
  se_max :: nat

definition ss_id :: "'f ss_env \<Rightarrow> nat \<Rightarrow> nat" where
  "ss_id e uid = (fs_id_pre (se_api e) OR uid)"

definition uid_ok :: "nat \<Rightarrow> bool" where
  "uid_ok uid \<longleftrightarrow> PSA_KEY_ID_INFUSE_MIN \<le> uid \<and> uid \<le> PSA_KEY_ID_INFUSE_MAX"

text \<open>
  Reading the header into a local structure: what a value shorter than the header does not overwrite stays as it
  was on the stack, \<open>stack\<close>.
\<close>

definition read_info :: "'f ss_env \<Rightarrow> byte list \<Rightarrow> nat \<Rightarrow> 'f \<Rightarrow> (nat \<times> psa_storage_info) res" where
  "read_info e stack uid fs =
     (case fs_read (se_api e) fs (ss_id e uid) 8 of
        Inl err \<Rightarrow> Inl err
      | Inr (rc, bs) \<Rightarrow> Inr (rc, info_of (store_at 0 bs stack)))"

subsection \<open>Operations\<close>

definition psa_its_set :: "'f ss_env \<Rightarrow> byte list \<Rightarrow> byte list \<Rightarrow> nat \<Rightarrow> byte list \<Rightarrow> nat \<Rightarrow> 'f \<Rightarrow> psa_status \<times> 'f" where
  "psa_its_set e stack nonce uid data create_flags fs =
     (if \<not> uid_ok uid then (PSA_ERROR_INVALID_HANDLE, fs)
      else if length data > se_max e then (PSA_ERROR_INSUFFICIENT_STORAGE, fs)
      else if (case read_info e stack uid fs of
                 Inl _ \<Rightarrow> False
               | Inr (rc, info) \<Rightarrow> rc > 0 \<and> pi_flags info AND PSA_STORAGE_FLAG_WRITE_ONCE \<noteq> 0)
      then (PSA_ERROR_NOT_PERMITTED, fs)
      else
        (let info = \<lparr>pi_size = length data, pi_flags = create_flags\<rparr> in
         case aead_encrypt (se_aead e) nonce (info_bytes info) data of
           None \<Rightarrow> (PSA_ERROR_STORAGE_FAILURE, fs)
         | Some out \<Rightarrow>
             (let value = info_bytes info @ nonce @ out;
                  (rc, fs) = fs_write (se_api e) fs (ss_id e uid) value
              in (if rc = Inr (length value) then PSA_SUCCESS else PSA_ERROR_HARDWARE_FAILURE, fs))))"

definition psa_its_get :: "'f ss_env \<Rightarrow> nat \<Rightarrow> nat \<Rightarrow> nat \<Rightarrow> 'f \<Rightarrow> (psa_status \<times> byte list) option" where
  "psa_its_get e uid data_offset data_length fs =
     (if \<not> uid_ok uid then Some (PSA_ERROR_INVALID_HANDLE, [])
      else if data_length = 0 then Some (PSA_SUCCESS, [])
      else
        (case fs_read (se_api e) fs (ss_id e uid) (20 + se_max e + CHACHA_TAG_SIZE) of
           Inl err \<Rightarrow> Some (if err = ENOENT then PSA_ERROR_DOES_NOT_EXIST else PSA_ERROR_HARDWARE_FAILURE, [])
         | Inr (rc, data) \<Rightarrow>
             if rc \<le> OVERHEAD then Some (PSA_ERROR_DATA_CORRUPT, [])
             else
               (let data_len = rc - OVERHEAD in
                if pi_size (info_of data) \<noteq> data_len then Some (PSA_ERROR_DATA_CORRUPT, [])
                else if data_offset \<ge> data_len then Some (PSA_ERROR_INSUFFICIENT_DATA, [])
                else if data_len > se_max e then None
                else
                  (case aead_decrypt (se_aead e) (bytes_at 8 12 data) (take 8 data) (bytes_at 20 (data_len + CHACHA_TAG_SIZE) data) of
                     None \<Rightarrow> Some (PSA_ERROR_DATA_CORRUPT, [])
                   | Some decrypt_buf \<Rightarrow>
                       (let data_length =
                              (if u32 (data_offset + data_length) > length decrypt_buf
                               then length decrypt_buf - data_offset else data_length)
                        in if data_offset + data_length > se_max e then None
                           else Some (PSA_SUCCESS, bytes_at data_offset data_length decrypt_buf))))))"

definition psa_its_get_info :: "'f ss_env \<Rightarrow> byte list \<Rightarrow> nat \<Rightarrow> 'f \<Rightarrow> psa_status \<times> psa_storage_info option" where
  "psa_its_get_info e stack uid fs =
     (if \<not> uid_ok uid then (PSA_ERROR_INVALID_HANDLE, None)
      else
        (case read_info e stack uid fs of
           Inl err \<Rightarrow> (if err = ENOENT then PSA_ERROR_DOES_NOT_EXIST else PSA_ERROR_HARDWARE_FAILURE, None)
         | Inr (rc, info) \<Rightarrow>
             (if rc = u32 (8 + CHACHA_NONCE_SIZE + pi_size info + CHACHA_TAG_SIZE) then PSA_SUCCESS
              else PSA_ERROR_DATA_CORRUPT, Some info)))"

definition psa_its_remove :: "'f ss_env \<Rightarrow> byte list \<Rightarrow> nat \<Rightarrow> 'f \<Rightarrow> psa_status \<times> 'f" where
  "psa_its_remove e stack uid fs =
     (if \<not> uid_ok uid then (PSA_ERROR_INVALID_HANDLE, fs)
      else
        (case read_info e stack uid fs of
           Inl err \<Rightarrow> (if err = ENOENT then PSA_ERROR_DOES_NOT_EXIST else PSA_ERROR_HARDWARE_FAILURE, fs)
         | Inr (rc, info) \<Rightarrow>
             if pi_flags info AND PSA_STORAGE_FLAG_WRITE_ONCE \<noteq> 0 then (PSA_ERROR_NOT_PERMITTED, fs)
             else
               (let (rc, fs) = fs_delete (se_api e) fs (ss_id e uid)
                in (if rc = Inr () then PSA_SUCCESS else PSA_ERROR_HARDWARE_FAILURE, fs))))"

text \<open>The storage key is derived from the hardware key; \<open>None\<close> is \<open>PSA_KEY_ID_NULL\<close>.\<close>

definition secure_storage_init :: "(string \<Rightarrow> string \<Rightarrow> 'k option) \<Rightarrow> unit res \<times> 'k option" where
  "secure_storage_init derive =
     (let key = derive ''SS_SALT'' ''SECURE_STORAGE'' in (if key = None then Inl EINVAL else Inr (), key))"

subsection \<open>What is relied on of the cipher\<close>

text \<open>ChaCha20-Poly1305: the ciphertext has a tag of sixteen bytes, and decryption with the same inputs inverts.\<close>

locale aead =
  fixes cipher :: aead_api
  assumes encrypt_length: "aead_encrypt cipher nonce ad text = Some out \<Longrightarrow> length out = length text + CHACHA_TAG_SIZE"
    and decrypt_encrypt: "aead_encrypt cipher nonce ad text = Some out \<Longrightarrow> aead_decrypt cipher nonce ad out = Some text"

subsection \<open>Stored values\<close>

lemmas ss_size_defs = CHACHA_NONCE_SIZE_def CHACHA_TAG_SIZE_def OVERHEAD_def

lemma length_info_bytes [simp]: "length (info_bytes info) = 8" by (simp add: info_bytes_def del: put_le.simps)

lemma info_of_bytes:
  assumes "pi_size info < 4294967296" "pi_flags info < 4294967296"
  shows "info_of (info_bytes info @ rest) = info"
  using assms by (cases info) (simp add: info_of_def info_bytes_def le_at_def bytes_at_def del: put_le.simps)

text \<open>The value that a successful \<open>psa_its_set\<close> stores.\<close>

definition sealed :: "'f ss_env \<Rightarrow> byte list \<Rightarrow> byte list \<Rightarrow> nat \<Rightarrow> byte list \<Rightarrow> bool" where
  "sealed e nonce data flags value \<longleftrightarrow>
     (\<exists>out. aead_encrypt (se_aead e) nonce (info_bytes \<lparr>pi_size = length data, pi_flags = flags\<rparr>) data = Some out \<and>
            value = info_bytes \<lparr>pi_size = length data, pi_flags = flags\<rparr> @ nonce @ out)"

lemma ss_id_inj:
  assumes "kv_backend (se_api e) contents" "uid_ok u" "uid_ok u'" "ss_id e u = ss_id e u'"
  shows "u = u'"
  using kv_backend.kv_id_inj [OF assms(1), of "\<lparr>ke_api = se_api e, ke_crc32 = (\<lambda>_. 0), ke_slots = []\<rparr>" u u'] assms
  by (simp add: ss_id_def kv_id_def uid_ok_def PSA_KEY_ID_INFUSE_MAX_def)

lemma read_info_value:
  assumes "kv_backend (se_api e) contents"
  shows "read_info e stack uid fs = (case contents fs (ss_id e uid) of None \<Rightarrow> Inl ENOENT
    | Some v \<Rightarrow> Inr (length v, info_of (store_at 0 (take 8 v) stack)))"
  using kv_backend.read_law [OF assms] by (simp add: read_info_def split: option.split)

lemma read_info_long:
  assumes "8 \<le> length v"
  shows "info_of (store_at 0 (take 8 v) stack) = info_of v"
  using assms by (simp add: store_at_def info_of_def le_at_def bytes_at_def min_def drop_take)

lemma set_success:
  assumes api: "kv_backend (se_api e) contents" and "psa_its_set e stack nonce uid data flags fs = (PSA_SUCCESS, fs')"
  obtains val where "uid_ok uid" "length data \<le> se_max e" "sealed e nonce data flags val"
    "contents fs' = (contents fs)(ss_id e uid \<mapsto> val)"
proof -
  let ?info = "info_bytes \<lparr>pi_size = length data, pi_flags = flags\<rparr>"
  obtain out where out: "uid_ok uid" "length data \<le> se_max e" "aead_encrypt (se_aead e) nonce ?info data = Some out"
    and w: "fs_write (se_api e) fs (ss_id e uid) (?info @ nonce @ out) = (Inr (length (?info @ nonce @ out)), fs')"
    using assms(2) by (auto simp: psa_its_set_def Let_def split: if_splits option.splits prod.splits)
  have ne: "?info @ nonce @ out \<noteq> []" using length_info_bytes by (metis append_is_Nil_conv list.size(3) zero_neq_numeral)
  show ?thesis
    by (rule that [OF out(1,2), of "?info @ nonce @ out"])
      (use out kv_backend.write_ok [OF api ne w] in \<open>auto simp: sealed_def\<close>)
qed

lemma get_other:
  assumes api: "kv_backend (se_api e) contents" and "contents fs' = (contents fs)(ss_id e uid := x)" "uid_ok uid" "uid' \<noteq> uid"
  shows "psa_its_get e uid' off len fs' = psa_its_get e uid' off len fs"
proof (cases "uid_ok uid'")
  case True
  then have "contents fs' (ss_id e uid') = contents fs (ss_id e uid')" using ss_id_inj [OF api True assms(3)] assms(2,4) by auto
  then show ?thesis by (simp add: psa_its_get_def kv_backend.read_law [OF api])
qed (simp add: psa_its_get_def)

lemma get_sealed:
  assumes api: "kv_backend (se_api e) contents" and c: "aead (se_aead e)" and v: "contents fs (ss_id e uid) = Some value"
    and sealed: "sealed e nonce data flags value" and sz: "length data \<le> se_max e" "se_max e < 4294967296" "length nonce = 12"
    "flags < 4294967296" and uid: "uid_ok uid" and req: "off < length data" "0 < len" "off + len < 4294967296"
  shows "psa_its_get e uid off len fs = Some (PSA_SUCCESS, take len (drop off data))"
proof -
  let ?info = "\<lparr>pi_size = length data, pi_flags = flags\<rparr>"
  obtain out where enc: "aead_encrypt (se_aead e) nonce (info_bytes ?info) data = Some out"
    and val: "value = info_bytes ?info @ nonce @ out" using sealed by (auto simp: sealed_def)
  have lo: "length out = length data + 16" using aead.encrypt_length [OF c enc] by (simp add: ss_size_defs)
  have dec: "aead_decrypt (se_aead e) nonce (info_bytes ?info) out = Some data" by (rule aead.decrypt_encrypt [OF c enc])
  have lv: "length value = 36 + length data" using val lo sz by simp
  have rd: "fs_read (se_api e) fs (ss_id e uid) (20 + se_max e + CHACHA_TAG_SIZE) = Inr (length value, value)"
    using kv_backend.read_law [OF api] v lv sz by (simp add: ss_size_defs)
  have parts: "bytes_at 8 12 value = nonce" "take 8 value = info_bytes ?info" "bytes_at 20 (length data + 16) value = out"
    using val sz lo by (simp_all add: bytes_at_def)
  have info: "info_of value = ?info" unfolding val using sz by (intro info_of_bytes) simp_all
  have lim: "off + (if off + len > length data then length data - off else len) \<le> se_max e" using req sz by simp
  have cut: "bytes_at off (if off + len > length data then length data - off else len) data = take len (drop off data)"
    by (simp add: bytes_at_def)
  have "data \<noteq> []" using req by auto
  then show ?thesis using uid req rd info lv dec parts lim cut sz by (simp add: psa_its_get_def ss_size_defs Let_def)
qed

text \<open>
  C33. Trusted storage returns what was stored. After a successful \<open>psa_its_set\<close> of data that is not empty, every
  part of it that \<open>psa_its_get\<close> is asked for (with an offset and length whose sum fits 32 bits) is returned exactly,
  cut at the end of the data, \<open>psa_its_get_info\<close> returns its size and flags, and all other identifiers read as before.
\<close>

theorem its_set_get:
  assumes api: "kv_backend (se_api e) contents" and c: "aead (se_aead e)"
    and set: "psa_its_set e stack nonce uid data flags fs = (PSA_SUCCESS, fs')"
    and sz: "length nonce = 12" "flags < 4294967296" "se_max e < 4294967260"
    and req: "off < length data" "0 < len" "off + len < 4294967296"
  shows "psa_its_get e uid off len fs' = Some (PSA_SUCCESS, take len (drop off data)) \<and>
    psa_its_get_info e stack' uid fs' = (PSA_SUCCESS, Some \<lparr>pi_size = length data, pi_flags = flags\<rparr>) \<and>
    (\<forall>uid' o' l'. uid' \<noteq> uid \<longrightarrow> psa_its_get e uid' o' l' fs' = psa_its_get e uid' o' l' fs)"
proof -
  obtain val where val: "uid_ok uid" "length data \<le> se_max e" "sealed e nonce data flags val"
    "contents fs' = (contents fs)(ss_id e uid \<mapsto> val)" using set_success [OF api set] .
  let ?info = "\<lparr>pi_size = length data, pi_flags = flags\<rparr>"
  obtain out where out: "aead_encrypt (se_aead e) nonce (info_bytes ?info) data = Some out" "val = info_bytes ?info @ nonce @ out"
    using val(3) by (auto simp: sealed_def)
  have len: "length val = 36 + length data" using out aead.encrypt_length [OF c out(1)] sz by (simp add: ss_size_defs)
  have "info_of val = ?info" unfolding out(2) using sz val(2) by (intro info_of_bytes) simp_all
  then have "psa_its_get_info e stack' uid fs' = (PSA_SUCCESS, Some ?info)"
    using val sz len by (simp add: psa_its_get_info_def read_info_value [OF api] read_info_long ss_size_defs)
  moreover have "psa_its_get e uid off len fs' = Some (PSA_SUCCESS, take len (drop off data))"
    using val sz req by (intro get_sealed [OF api c _ val(3)]) simp_all
  ultimately show ?thesis using get_other [OF api val(4,1)] by blast
qed

subsection \<open>Values that are written once\<close>

datatype ss_op =
    Ss_set "byte list" "byte list" nat "byte list" nat
  | Ss_remove "byte list" nat

fun ss_apply :: "'f ss_env \<Rightarrow> ss_op \<Rightarrow> 'f \<Rightarrow> 'f" where
  "ss_apply e (Ss_set stack nonce uid data flags) fs = snd (psa_its_set e stack nonce uid data flags fs)"
| "ss_apply e (Ss_remove stack uid) fs = snd (psa_its_remove e stack uid fs)"

definition locked_value :: "byte list \<Rightarrow> bool" where
  "locked_value v \<longleftrightarrow> 8 \<le> length v \<and> pi_flags (info_of v) AND PSA_STORAGE_FLAG_WRITE_ONCE \<noteq> 0"

lemma locked_refused:
  assumes api: "kv_backend (se_api e) contents" and v: "contents fs (ss_id e uid) = Some v" "locked_value v" "uid_ok uid"
  shows "psa_its_set e stack nonce uid data flags fs =
      (if length data > se_max e then PSA_ERROR_INSUFFICIENT_STORAGE else PSA_ERROR_NOT_PERMITTED, fs)"
    and "psa_its_remove e stack uid fs = (PSA_ERROR_NOT_PERMITTED, fs)"
proof -
  have r: "read_info e stack uid fs = Inr (length v, info_of v)" "0 < length v"
    using v by (auto simp: read_info_value [OF api] read_info_long locked_value_def)
  show "psa_its_set e stack nonce uid data flags fs =
      (if length data > se_max e then PSA_ERROR_INSUFFICIENT_STORAGE else PSA_ERROR_NOT_PERMITTED, fs)"
    using r v by (simp add: psa_its_set_def locked_value_def)
  show "psa_its_remove e stack uid fs = (PSA_ERROR_NOT_PERMITTED, fs)"
    using r v by (simp add: psa_its_remove_def locked_value_def)
qed

lemma set_elsewhere:
  assumes api: "kv_backend (se_api e) contents"
  shows "uid_ok uid \<and> (\<exists>x. contents (snd (psa_its_set e stack nonce uid data flags fs)) = (contents fs)(ss_id e uid := x)) \<or>
    contents (snd (psa_its_set e stack nonce uid data flags fs)) = contents fs"
proof -
  let ?info = "info_bytes \<lparr>pi_size = length data, pi_flags = flags\<rparr>"
  have w: "(\<exists>x. contents f' = (contents fs)(ss_id e uid := x)) \<or> contents f' = contents fs"
    if "fs_write (se_api e) fs (ss_id e uid) (?info @ xs) = (rc, f')" for xs rc f'
  proof -
    have ne: "?info @ xs \<noteq> []" using length_info_bytes by (metis append_is_Nil_conv list.size(3) zero_neq_numeral)
    show ?thesis using kv_backend.write_ok [OF api ne] kv_backend.write_err [OF api] that by (cases rc) blast+
  qed
  show ?thesis using w by (auto simp: psa_its_set_def Let_def split: option.split prod.split)
qed

lemma remove_elsewhere:
  assumes api: "kv_backend (se_api e) contents"
  shows "uid_ok uid \<and> contents (snd (psa_its_remove e stack uid fs)) = (contents fs)(ss_id e uid := None) \<or>
    contents (snd (psa_its_remove e stack uid fs)) = contents fs"
proof -
  have "contents f' = (contents fs)(ss_id e uid := None) \<or> contents f' = contents fs"
    if "fs_delete (se_api e) fs (ss_id e uid) = (rc, f')" for rc f'
    using kv_backend.delete_ok [OF api] kv_backend.delete_err [OF api] that by (cases rc) blast+
  then show ?thesis by (auto simp: psa_its_remove_def Let_def split: sum.split prod.split)
qed

lemma ss_apply_locked:
  assumes api: "kv_backend (se_api e) contents" and v: "contents fs (ss_id e uid) = Some v" "locked_value v" "uid_ok uid"
  shows "contents (ss_apply e oper fs) (ss_id e uid) = Some v"
proof (cases oper)
  case (Ss_set stack nonce uid' data flags)
  show ?thesis
  proof (cases "uid' = uid")
    case False
    then show ?thesis using Ss_set v(1) set_elsewhere [OF api, of uid' stack nonce data flags fs] ss_id_inj [OF api v(3), of uid']
      by auto
  qed (use Ss_set v locked_refused [OF api v] in simp)
next
  case (Ss_remove stack uid')
  show ?thesis
  proof (cases "uid' = uid")
    case False
    then show ?thesis using Ss_remove v(1) remove_elsewhere [OF api, of uid' stack fs] ss_id_inj [OF api v(3), of uid'] by auto
  qed (use Ss_remove v locked_refused [OF api v] in simp)
qed

lemma ss_history_locked:
  assumes "kv_backend (se_api e) contents" "contents fs (ss_id e uid) = Some v" "locked_value v" "uid_ok uid"
  shows "contents (fold (ss_apply e) ops fs) (ss_id e uid) = Some v"
  using assms by (induction ops arbitrary: fs) (simp_all add: ss_apply_locked)

text \<open>
  C34. What is written once stays. After a successful \<open>psa_its_set\<close> with the flag \<open>WRITE_ONCE\<close>, no sequence of
  later calls, to this or other identifiers, changes what is read from it, and storing to it or removing it is refused.
\<close>

theorem its_write_once:
  assumes api: "kv_backend (se_api e) contents" and c: "aead (se_aead e)"
    and set: "psa_its_set e stack nonce uid data flags fs = (PSA_SUCCESS, fs')"
    and sz: "length nonce = 12" "flags < 4294967296" "se_max e < 4294967260"
    and once: "flags AND PSA_STORAGE_FLAG_WRITE_ONCE \<noteq> 0"
  shows "psa_its_get e uid off len (fold (ss_apply e) ops fs') = psa_its_get e uid off len fs' \<and>
    psa_its_remove e stack' uid (fold (ss_apply e) ops fs') = (PSA_ERROR_NOT_PERMITTED, fold (ss_apply e) ops fs') \<and>
    fst (psa_its_set e stack' nonce' uid data' flags' (fold (ss_apply e) ops fs')) \<noteq> PSA_SUCCESS"
proof -
  obtain val where val: "uid_ok uid" "length data \<le> se_max e" "sealed e nonce data flags val"
    "contents fs' = (contents fs)(ss_id e uid \<mapsto> val)" using set_success [OF api set] .
  then obtain out where out: "val = info_bytes \<lparr>pi_size = length data, pi_flags = flags\<rparr> @ nonce @ out" by (auto simp: sealed_def)
  have "info_of val = \<lparr>pi_size = length data, pi_flags = flags\<rparr>" unfolding out using sz val(2) by (intro info_of_bytes) simp_all
  then have locked: "locked_value val" using once out by (simp add: locked_value_def)
  have now: "contents fs' (ss_id e uid) = Some val" using val(4) by simp
  note later = ss_history_locked [OF api now locked val(1), of ops]
  have "psa_its_get e uid off len (fold (ss_apply e) ops fs') = psa_its_get e uid off len fs'"
    by (simp add: psa_its_get_def kv_backend.read_law [OF api] later now)
  then show ?thesis using locked_refused [OF api later locked val(1)] by simp
qed

subsection \<open>An example\<close>

text \<open>A cipher with the shape of ChaCha20-Poly1305: a keystream added to the text, and a tag over all inputs.\<close>

definition demo_tag :: "byte list \<Rightarrow> byte list \<Rightarrow> byte list \<Rightarrow> byte list" where
  "demo_tag nonce ad text = replicate 16 (sum_list nonce + 3 * sum_list ad + 5 * sum_list text)"

definition demo_cipher :: aead_api where
  "demo_cipher = \<lparr>
     aead_encrypt = (\<lambda>nonce ad text. Some (map (\<lambda>b. b XOR sum_list nonce) text @ demo_tag nonce ad text)),
     aead_decrypt = (\<lambda>nonce ad out.
       let text = map (\<lambda>b. b XOR sum_list nonce) (take (length out - 16) out)
       in if 16 \<le> length out \<and> drop (length out - 16) out = demo_tag nonce ad text then Some text else None)\<rparr>"

lemma demo_cipher_laws:
  assumes "aead_encrypt demo_cipher nonce ad text = Some out"
  shows "length out = length text + CHACHA_TAG_SIZE" "aead_decrypt demo_cipher nonce ad out = Some text"
proof -
  have x: "(\<lambda>b. b XOR k) \<circ> (\<lambda>b. b XOR k) = (\<lambda>b :: byte. b)" for k by (simp add: fun_eq_iff xor.assoc)
  have out: "out = map (\<lambda>b. b XOR sum_list nonce) text @ demo_tag nonce ad text" using assms by (simp add: demo_cipher_def)
  have t: "length (demo_tag nonce ad text) = 16" by (simp add: demo_tag_def)
  show "length out = length text + CHACHA_TAG_SIZE" by (simp add: out t CHACHA_TAG_SIZE_def)
  show "aead_decrypt demo_cipher nonce ad out = Some text" by (simp add: out t demo_cipher_def x)
qed

interpretation demo_aead: aead demo_cipher
  by unfold_locales (fact demo_cipher_laws)+

definition demo_ss :: "(nat \<rightharpoonup> byte list) ss_env" where
  "demo_ss = \<lparr>se_api = mem_kv_api, se_aead = demo_cipher, se_max = 100\<rparr>"

lemma demo_ss_laws: "kv_backend (se_api demo_ss) (\<lambda>f. f)" "aead (se_aead demo_ss)" "se_max demo_ss < 4294967260"
  using mem_kv.kv_backend_axioms demo_aead.aead_axioms by (simp_all add: demo_ss_def)

lemma demo_ss_set:
  "\<exists>fs. psa_its_set demo_ss (replicate 8 0) [1, 2, 3, 4, 5, 6, 7, 8, 9, 10, 11, 12] 30000 [7, 8, 9] 1 (\<lambda>_. None) = (PSA_SUCCESS, fs)"
proof -
  have "fst (psa_its_set demo_ss (replicate 8 0) [1, 2, 3, 4, 5, 6, 7, 8, 9, 10, 11, 12] 30000 [7, 8, 9] 1 (\<lambda>_. None)) = PSA_SUCCESS"
    by code_simp
  then show ?thesis by (metis prod.collapse)
qed

theorem its_set_get_witness:
  "\<exists>fs. psa_its_set demo_ss (replicate 8 0) [1, 2, 3, 4, 5, 6, 7, 8, 9, 10, 11, 12] 30000 [7, 8, 9] 1 (\<lambda>_. None) = (PSA_SUCCESS, fs) \<and>
     psa_its_get demo_ss 30000 1 50 fs = Some (PSA_SUCCESS, [8, 9])"
proof -
  obtain fs where fs: "psa_its_set demo_ss (replicate 8 0) [1, 2, 3, 4, 5, 6, 7, 8, 9, 10, 11, 12] 30000 [7, 8, 9] 1 (\<lambda>_. None) = (PSA_SUCCESS, fs)"
    using demo_ss_set by blast
  from its_set_get [OF demo_ss_laws(1,2) fs _ _ demo_ss_laws(3), of 1 50] fs show ?thesis by auto
qed

theorem its_write_once_witness:
  "\<exists>fs. psa_its_set demo_ss (replicate 8 0) [1, 2, 3, 4, 5, 6, 7, 8, 9, 10, 11, 12] 30000 [7, 8, 9] 1 (\<lambda>_. None) = (PSA_SUCCESS, fs) \<and>
     psa_its_get demo_ss 30000 0 3 (fold (ss_apply demo_ss) [Ss_remove [] 30000, Ss_set [] (replicate 12 0) 30000 [1] 0] fs) =
       psa_its_get demo_ss 30000 0 3 fs"
proof -
  obtain fs where fs: "psa_its_set demo_ss (replicate 8 0) [1, 2, 3, 4, 5, 6, 7, 8, 9, 10, 11, 12] 30000 [7, 8, 9] 1 (\<lambda>_. None) = (PSA_SUCCESS, fs)"
    using demo_ss_set by blast
  have "(1 :: nat) AND PSA_STORAGE_FLAG_WRITE_ONCE \<noteq> 0" by (simp add: PSA_STORAGE_FLAG_WRITE_ONCE_def)
  then have "psa_its_get demo_ss 30000 0 3 (fold (ss_apply demo_ss) [Ss_remove [] 30000, Ss_set [] (replicate 12 0) 30000 [1] 0] fs) =
      psa_its_get demo_ss 30000 0 3 fs"
    by (intro conjunct1 [OF its_write_once [OF demo_ss_laws(1,2) fs _ _ demo_ss_laws(3)]]) simp_all
  then show ?thesis using fs by blast
qed

end
