(* ===== verification/Data_Logger.thy ===== *)
theory Data_Logger
  imports Infuse_Base "HOL-Library.Monad_Syntax"
begin

text \<open>
  The data logger, \<open>subsys/data_logger/data_logger.c\<close>: blocks written in a ring of physical blocks with a wrap
  counter in each block, buffering in RAM, the commit thread, reads, erasing, and the recovery of the state at
  boot. The backend (\<open>struct data_logger_api\<close> of \<open>backends/common.h\<close>) and device power management are functions
  on the backend's state \<open>'b\<close>; callbacks are functions on data of their own, \<open>'c\<close>. A call through a null pointer,
  a division by zero and an access outside a buffer are \<open>None\<close>.
\<close>

subsection \<open>Data\<close>

text \<open>The callbacks; the block data of a failed write has its length.\<close>

record 'c data_logger_cb =
  cb_block_size_update :: "(nat \<Rightarrow> 'c \<Rightarrow> 'c) option"
  cb_write_success :: "(byte \<Rightarrow> 'c \<Rightarrow> 'c) option"
  cb_write_failure :: "(byte \<Rightarrow> byte list \<Rightarrow> errno \<Rightarrow> 'c \<Rightarrow> 'c) option"

text \<open>Operations that a backend may leave out are options. The data of a write has its length.\<close>

record ('b, 'c) data_logger_api =
  api_write :: "nat \<Rightarrow> byte \<Rightarrow> byte list \<Rightarrow> 'b \<Rightarrow> unit res \<times> 'b"
  api_write_burst :: "(nat \<Rightarrow> nat \<Rightarrow> byte list \<Rightarrow> 'b \<Rightarrow> unit res \<times> 'b) option"
  api_read :: "(nat \<Rightarrow> nat \<Rightarrow> nat \<Rightarrow> 'b \<Rightarrow> byte list res \<times> 'b) option"
  api_erase :: "(nat \<Rightarrow> nat \<Rightarrow> 'b \<Rightarrow> unit res \<times> 'b) option"
  api_reset :: "(nat \<Rightarrow> (nat \<Rightarrow> 'c \<Rightarrow> 'c) \<Rightarrow> 'b \<Rightarrow> 'c \<Rightarrow> unit res \<times> 'b \<times> 'c) option"
  api_search_hint :: "('b \<Rightarrow> (nat \<times> nat) res \<times> 'b) option"

record data_logger_common_config =
  ram_buf_null :: bool
  ram_buf_len :: nat
  block_write_align :: nat
  requires_full_block_write :: bool
  queued_writes :: bool

text \<open>The device: its backend, its configuration, the power management of Zephyr, and the build options.\<close>

record ('b, 'c) dl_env =
  de_api :: "('b, 'c) data_logger_api"
  de_config :: data_logger_common_config
  de_pm_get :: "'b \<Rightarrow> unit res \<times> 'b"
  de_pm_put :: "'b \<Rightarrow> 'b"
  CONFIG_RAM_BUFFER :: bool
  CONFIG_BURST_WRITES :: bool
  CONFIG_OFFLOAD_WRITES :: bool
  CONFIG_OFFLOAD_MAX_BLOCK_SIZE :: nat

text \<open>
  A queued buffer: the data with the length of \<open>struct net_buf\<close> (the rest of the buffer is only read after it
  is overwritten, and starts as zeros here) and the fields of \<open>struct net_buf_ctx\<close>.
\<close>

datatype dl_request = Dl_write byte "byte list" nat | Dl_flush

record ('b, 'c) data_logger_common_data =
  callbacks :: "'c data_logger_cb list"
  bytes_logged :: nat
  logical_blocks :: nat
  physical_blocks :: nat
  boot_block :: nat
  current_block :: nat
  earliest_block :: nat
  erase_size :: nat
  block_size :: nat
  erase_val :: byte
  dl_flags :: byte
  ram_buf_offset :: nat
  ram_buf_data :: "byte list"
  block_commit_fifo :: "dl_request list"
  cb_data :: 'c
  backend :: 'b

record data_logger_state =
  ls_bytes_logged :: nat
  ls_logical_blocks :: nat
  ls_physical_blocks :: nat
  ls_boot_block :: nat
  ls_current_block :: nat
  ls_earliest_block :: nat
  ls_erase_unit :: nat
  ls_block_size :: nat
  ls_block_overhead :: nat
  ls_requires_full_block_write :: bool

definition DATA_LOGGER_FLAGS_ERASING :: byte where "DATA_LOGGER_FLAGS_ERASING = 1"

definition is_persistent_logger :: "('b, 'c) dl_env \<Rightarrow> bool" where
  "is_persistent_logger e \<longleftrightarrow> api_read (de_api e) \<noteq> None"

definition data_logger_get_state :: "('b, 'c) dl_env \<Rightarrow> ('b, 'c) data_logger_common_data \<Rightarrow> data_logger_state" where
  "data_logger_get_state e d =
     \<lparr>ls_bytes_logged = bytes_logged d, ls_logical_blocks = logical_blocks d, ls_physical_blocks = physical_blocks d,
      ls_boot_block = boot_block d, ls_current_block = current_block d, ls_earliest_block = earliest_block d,
      ls_erase_unit = erase_size d, ls_block_size = block_size d,
      ls_block_overhead = (if is_persistent_logger e then 2 else 0),
      ls_requires_full_block_write = requires_full_block_write (de_config e)\<rparr>"

subsection \<open>Writing one block\<close>

definition handle_block_write_success ::
    "byte \<Rightarrow> ('b, 'c) data_logger_common_data \<Rightarrow> ('b, 'c) data_logger_common_data" where
  "handle_block_write_success ty d =
     d\<lparr>cb_data := fold (\<lambda>cb. case cb_write_success cb of None \<Rightarrow> (\<lambda>w. w) | Some f \<Rightarrow> f ty) (callbacks d) (cb_data d)\<rparr>"

definition handle_block_write_fail ::
    "byte \<Rightarrow> byte list \<Rightarrow> nat \<Rightarrow> errno \<Rightarrow> ('b, 'c) data_logger_common_data \<Rightarrow> ('b, 'c) data_logger_common_data" where
  "handle_block_write_fail ty block block_len reason d =
     d\<lparr>cb_data := fold (\<lambda>cb. case cb_write_failure cb of None \<Rightarrow> (\<lambda>w. w) | Some f \<Rightarrow> f ty (take block_len block) reason)
        (callbacks d) (cb_data d)\<rparr>"

text \<open>Erasing the next chunk, when it is due. The earliest block is restored when the erase fails.\<close>

definition erase_next_chunk ::
    "('b, 'c) dl_env \<Rightarrow> ('b, 'c) data_logger_common_data \<Rightarrow> (unit res \<times> ('b, 'c) data_logger_common_data) option" where
  "erase_next_chunk e d =
     (let erase_blocks = u16 (erase_size d div block_size d);
          phy_block = current_block d mod physical_blocks d
      in if physical_blocks d \<le> current_block d then
           if erase_blocks = 0 then None
           else if current_block d mod erase_blocks = 0 then
             do {
               erase \<leftarrow> api_erase (de_api e);
               let earliest = u32 (earliest_block d + erase_blocks);
               let (rc, b) = erase phy_block erase_blocks (backend d);
               let d = d\<lparr>earliest_block := earliest, backend := b\<rparr>;
               Some (case rc of
                   Inl err \<Rightarrow> (Inl err, d\<lparr>earliest_block := u32 (earliest + 4294967296 - erase_blocks)\<rparr>)
                 | Inr _ \<Rightarrow> (Inr (), d))
             }
           else Some (Inr (), d)
         else Some (Inr (), d))"

text \<open>The header of a block, stored over its first two bytes.\<close>

definition block_wrap_of :: "('b, 'c) data_logger_common_data \<Rightarrow> byte" where
  "block_wrap_of d = word_of_nat (current_block d div physical_blocks d + 1)"

definition block_header ::
    "('b, 'c) dl_env \<Rightarrow> byte \<Rightarrow> byte list \<Rightarrow> ('b, 'c) data_logger_common_data \<Rightarrow> byte list option" where
  "block_header e ty block d =
     (if \<not> is_persistent_logger e then Some block
      else if length block < 2 then None
      else Some (store_at 0 [block_wrap_of d, ty] block))"

definition block_written ::
    "byte \<Rightarrow> nat \<Rightarrow> ('b, 'c) data_logger_common_data \<Rightarrow> ('b, 'c) data_logger_common_data" where
  "block_written ty block_len d =
     handle_block_write_success ty
       (d\<lparr>bytes_logged := (bytes_logged d + block_len) mod 2 ^ 64, current_block := u32 (current_block d + 1)\<rparr>)"

text \<open>The backend's functions return zero or a negative error; a result is an error or nothing.\<close>

definition do_block_write ::
    "('b, 'c) dl_env \<Rightarrow> byte \<Rightarrow> byte list \<Rightarrow> nat \<Rightarrow> ('b, 'c) data_logger_common_data \<Rightarrow>
     (unit res \<times> byte list \<times> ('b, 'c) data_logger_common_data) option" where
  "do_block_write e ty block block_len d =
     (if block_size d = 0 \<or> physical_blocks d = 0 then None
      else
        let phy_block = current_block d mod physical_blocks d;
            (rc, b) = de_pm_get e (backend d);
            d = d\<lparr>backend := b\<rparr>
        in case rc of
            Inl err \<Rightarrow> Some (Inl err, block, handle_block_write_fail ty block block_len err d)
          | Inr _ \<Rightarrow>
              do {
                (rc, d) \<leftarrow> erase_next_chunk e d;
                case rc of
                  Inl err \<Rightarrow>
                    (let d = d\<lparr>backend := de_pm_put e (backend d)\<rparr>
                     in Some (Inl err, block, handle_block_write_fail ty block block_len err d))
                | Inr _ \<Rightarrow>
                    do {
                      block \<leftarrow> block_header e ty block d;
                      if length block < block_len then None
                      else
                        let (rc, b) = api_write (de_api e) phy_block ty (take block_len block) (backend d);
                            d = d\<lparr>backend := de_pm_put e b\<rparr>
                        in Some (case rc of
                             Inl err \<Rightarrow> (Inl err, block, handle_block_write_fail ty block block_len err d)
                           | Inr _ \<Rightarrow> (Inr (), block, block_written ty block_len d))
                    }
              })"

subsection \<open>Buffering in RAM\<close>

definition do_ram_buffer_flush_burst ::
    "('b, 'c) dl_env \<Rightarrow> ('b, 'c) data_logger_common_data \<Rightarrow> (unit res \<times> ('b, 'c) data_logger_common_data) option" where
  "do_ram_buffer_flush_burst e d =
     (if block_size d = 0 then None
      else
        let pending = u32 (ram_buf_offset d div block_size d);
            (rc, b) = de_pm_get e (backend d);
            d = d\<lparr>backend := b\<rparr>
        in case rc of
            Inl err \<Rightarrow> Some (Inl err, d\<lparr>ram_buf_offset := 0\<rparr>)
          | Inr _ \<Rightarrow>
              do {
                write_burst \<leftarrow> api_write_burst (de_api e);
                let (rc, b) = write_burst (current_block d) pending (take (pending * block_size d) (ram_buf_data d)) (backend d);
                let d = d\<lparr>backend := de_pm_put e b, ram_buf_offset := 0\<rparr>;
                Some (rc,
                  if rc = Inl ENOMEM then d
                  else d\<lparr>bytes_logged := (bytes_logged d + u32 (pending * block_size d)) mod 2 ^ 64,
                         current_block := u32 (current_block d + pending)\<rparr>)
              })"

definition do_block_write_ram_buffer_burst ::
    "('b, 'c) dl_env \<Rightarrow> byte \<Rightarrow> byte list \<Rightarrow> nat \<Rightarrow> ('b, 'c) data_logger_common_data \<Rightarrow>
     (unit res \<times> byte list \<times> ('b, 'c) data_logger_common_data) option" where
  "do_block_write_ram_buffer_burst e ty block block_len d =
     (if length block < 2 \<or> physical_blocks d = 0 \<or> block_size d = 0 then None
      else
        let block = store_at 0 [block_wrap_of d, ty] block
        in if length block < block_len \<or> length (ram_buf_data d) < ram_buf_offset d + block_len then None
           else
             let d = d\<lparr>ram_buf_data := store_at (ram_buf_offset d) (take block_len block) (ram_buf_data d),
                       ram_buf_offset := ram_buf_offset d + block_len\<rparr>;
                 pending = u32 (ram_buf_offset d div block_size d)
             in if ram_buf_offset d \<noteq> ram_buf_len (de_config e) \<and> u32 (current_block d + pending) \<noteq> logical_blocks d
                then Some (Inr (), block, d)
                else do {
                  (rc, d) \<leftarrow> do_ram_buffer_flush_burst e d;
                  Some (rc, block, d)
                })"

text \<open>
  The loop of \<open>do_ram_buffer_flush_single\<close>: a stored block has a three byte header, its type and its length. The
  header of the logger is written over the block in the buffer. The end of the loop, \<open>ram_buf_offset\<close>, does not
  change in it.
\<close>

function flush_single_loop ::
    "('b, 'c) dl_env \<Rightarrow> nat \<Rightarrow> nat \<Rightarrow> ('b, 'c) data_logger_common_data \<Rightarrow> ('b, 'c) data_logger_common_data option" where
  "flush_single_loop e offset stop d =
     (if stop \<le> offset then Some d
      else if length (ram_buf_data d) < offset + 3 then None
      else
        let ty = ram_buf_data d ! offset;
            block_len = le_at (offset + 1) 2 (ram_buf_data d);
            start = offset + 3
        in case do_block_write e ty (drop start (ram_buf_data d)) block_len d of
             None \<Rightarrow> None
           | Some (_, block, d) \<Rightarrow>
               flush_single_loop e (start + block_len) stop (d\<lparr>ram_buf_data := take start (ram_buf_data d) @ block\<rparr>))"
  by pat_completeness auto
termination by (relation "measure (\<lambda>(e, offset, stop, d). stop - offset)") auto

declare flush_single_loop.simps [simp del]

definition do_ram_buffer_flush_single ::
    "('b, 'c) dl_env \<Rightarrow> ('b, 'c) data_logger_common_data \<Rightarrow> ('b, 'c) data_logger_common_data option" where
  "do_ram_buffer_flush_single e d =
     do {
       d \<leftarrow> flush_single_loop e 0 (ram_buf_offset d) d;
       Some (d\<lparr>ram_buf_offset := 0\<rparr>)
     }"

definition do_block_write_ram_buffer_single ::
    "('b, 'c) dl_env \<Rightarrow> byte \<Rightarrow> byte list \<Rightarrow> nat \<Rightarrow> ('b, 'c) data_logger_common_data \<Rightarrow>
     (unit res \<times> byte list \<times> ('b, 'c) data_logger_common_data) option" where
  "do_block_write_ram_buffer_single e ty block block_len d =
     (let space = u32 (ram_buf_len (de_config e) + 4294967296 - ram_buf_offset d)
      in if 3 + block_len < space then
           let header = ty # put_le 2 block_len
           in if length block < block_len \<or> length (ram_buf_data d) < ram_buf_offset d + 3 + block_len then None
              else Some (Inr (), block,
                d\<lparr>ram_buf_data := store_at (ram_buf_offset d + 3) (take block_len block)
                     (store_at (ram_buf_offset d) header (ram_buf_data d)),
                  ram_buf_offset := ram_buf_offset d + 3 + block_len\<rparr>)
         else do {
           d \<leftarrow> if ram_buf_offset d = 0 then Some d else do_ram_buffer_flush_single e d;
           do_block_write e ty block block_len d
         })"

definition do_block_write_ram_buffer ::
    "('b, 'c) dl_env \<Rightarrow> byte \<Rightarrow> byte list \<Rightarrow> nat \<Rightarrow> ('b, 'c) data_logger_common_data \<Rightarrow>
     (unit res \<times> byte list \<times> ('b, 'c) data_logger_common_data) option" where
  "do_block_write_ram_buffer e ty block block_len d =
     (if CONFIG_BURST_WRITES e \<and> api_write_burst (de_api e) \<noteq> None then do_block_write_ram_buffer_burst e ty block block_len d
      else do_block_write_ram_buffer_single e ty block block_len d)"

definition do_ram_buffer_flush ::
    "('b, 'c) dl_env \<Rightarrow> ('b, 'c) data_logger_common_data \<Rightarrow> (unit res \<times> ('b, 'c) data_logger_common_data) option" where
  "do_ram_buffer_flush e d =
     (if ram_buf_offset d = 0 then Some (Inr (), d)
      else if CONFIG_BURST_WRITES e \<and> api_write_burst (de_api e) \<noteq> None then do_ram_buffer_flush_burst e d
      else do {
        d \<leftarrow> do_ram_buffer_flush_single e d;
        Some (Inr (), d)
      })"

subsection \<open>The write interface\<close>

text \<open>Padding to the alignment of the backend, behind the block in the caller's buffer.\<close>

definition write_align ::
    "('b, 'c) dl_env \<Rightarrow> byte list \<Rightarrow> nat \<Rightarrow> ('b, 'c) data_logger_common_data \<Rightarrow> (byte list \<times> nat) option" where
  "write_align e block block_len d =
     (let align = block_write_align (de_config e); unaligned = u8 (block_len mod align); padding = align - unaligned
      in if \<not> requires_full_block_write (de_config e) \<and> 1 < align \<and> 0 < unaligned then
           if length block < block_len + padding then None
           else Some (store_at block_len (replicate padding (erase_val d)) block, u16 (block_len + padding))
         else Some (block, block_len))"

definition handle_block_write ::
    "('b, 'c) dl_env \<Rightarrow> byte \<Rightarrow> byte list \<Rightarrow> nat \<Rightarrow> ('b, 'c) data_logger_common_data \<Rightarrow>
     (unit res \<times> byte list \<times> ('b, 'c) data_logger_common_data) option" where
  "handle_block_write e ty block block_len d =
     do {
       (block, block_len) \<leftarrow> write_align e block block_len d;
       if CONFIG_RAM_BUFFER e \<and> ram_buf_len (de_config e) \<noteq> 0 then do_block_write_ram_buffer e ty block block_len d
       else do_block_write e ty block block_len d
     }"

text \<open>One turn of \<open>logger_commit_thread_fn\<close>; an empty queue is a timeout of the wait.\<close>

definition logger_commit_step ::
    "('b, 'c) dl_env \<Rightarrow> ('b, 'c) data_logger_common_data \<Rightarrow> ('b, 'c) data_logger_common_data option" where
  "logger_commit_step e d =
     (case block_commit_fifo d of
        [] \<Rightarrow> Some d
      | req # rest \<Rightarrow>
          (let d = d\<lparr>block_commit_fifo := rest\<rparr>
           in case req of
               Dl_flush \<Rightarrow> do { (rc, d) \<leftarrow> do_ram_buffer_flush e d; Some d }
             | Dl_write ty buf len \<Rightarrow> do { (rc, buf, d) \<leftarrow> handle_block_write e ty buf len d; Some d }))"

definition queue_block_write ::
    "('b, 'c) dl_env \<Rightarrow> byte \<Rightarrow> byte list \<Rightarrow> nat \<Rightarrow> ('b, 'c) data_logger_common_data \<Rightarrow>
     (unit res \<times> byte list \<times> ('b, 'c) data_logger_common_data) option" where
  "queue_block_write e ty block block_len d =
     (if length block < block_len \<or> CONFIG_OFFLOAD_MAX_BLOCK_SIZE e < block_len then None
      else Some (Inr (), block, d\<lparr>block_commit_fifo := block_commit_fifo d @
             [Dl_write ty (take block_len block @ replicate (CONFIG_OFFLOAD_MAX_BLOCK_SIZE e - block_len) 0) block_len]\<rparr>))"

definition data_logger_block_write ::
    "('b, 'c) dl_env \<Rightarrow> byte \<Rightarrow> byte list \<Rightarrow> nat \<Rightarrow> ('b, 'c) data_logger_common_data \<Rightarrow>
     (unit res \<times> byte list \<times> ('b, 'c) data_logger_common_data) option" where
  "data_logger_block_write e ty block block_len d =
     (if block_size d < block_len then
        let rc = if block_size d = 0 then ENOTCONN else EINVAL
        in Some (Inl rc, block, handle_block_write_fail ty block block_len rc d)
      else if logical_blocks d \<le> current_block d then
        Some (Inl ENOMEM, block, handle_block_write_fail ty block block_len ENOMEM d)
      else if dl_flags d AND DATA_LOGGER_FLAGS_ERASING \<noteq> 0 then Some (Inr (), block, d)
      else if CONFIG_OFFLOAD_WRITES e \<and> \<not> queued_writes (de_config e) then queue_block_write e ty block block_len d
      else handle_block_write e ty block block_len d)"

definition data_logger_flush ::
    "('b, 'c) dl_env \<Rightarrow> ('b, 'c) data_logger_common_data \<Rightarrow> (unit res \<times> ('b, 'c) data_logger_common_data) option" where
  "data_logger_flush e d =
     (if \<not> CONFIG_RAM_BUFFER e \<or> ram_buf_null (de_config e) then Some (Inr (), d)
      else if CONFIG_OFFLOAD_WRITES e then Some (Inr (), d\<lparr>block_commit_fifo := block_commit_fifo d @ [Dl_flush]\<rparr>)
      else do_ram_buffer_flush e d)"


subsection \<open>Reading and erasing\<close>

text \<open>
  The C expression \<open>(block_offset + block_len - 1) / block_size\<close> is computed in \<open>int\<close>, so that an empty read at
  offset zero divides \<open>-1\<close>, rounding towards zero.
\<close>

definition extra_blocks_accessed :: "nat \<Rightarrow> nat \<Rightarrow> nat \<Rightarrow> nat" where
  "extra_blocks_accessed block_offset block_len bsize =
     (if block_offset + block_len = 0 then (if bsize = 1 then 4294967295 else 0)
      else (block_offset + block_len - 1) div bsize)"

text \<open>Splitting a read at the end of the physical blocks: the bytes before it and the bytes after it.\<close>

definition wrap_split :: "nat \<Rightarrow> nat \<Rightarrow> nat \<Rightarrow> nat \<Rightarrow> nat \<Rightarrow> nat \<Rightarrow> nat \<times> nat" where
  "wrap_split physical bsize phy_block end_phy block_offset block_len =
     (if end_phy < phy_block then
        let bytes_to_wrap = u32 (u32 ((physical - phy_block) * bsize) + 4294967296 - block_offset);
            second_read = u32 (block_len + 4294967296 - bytes_to_wrap)
        in (u16 (block_len + 4294967296 - second_read), second_read)
      else (block_len, 0))"

definition data_logger_block_read ::
    "('b, 'c) dl_env \<Rightarrow> nat \<Rightarrow> nat \<Rightarrow> nat \<Rightarrow> ('b, 'c) data_logger_common_data \<Rightarrow>
     (byte list res \<times> ('b, 'c) data_logger_common_data) option" where
  "data_logger_block_read e block_idx block_offset block_len d =
     (if block_size d = 0 \<or> physical_blocks d = 0 then None
      else
        let end_logical = u32 (block_idx + extra_blocks_accessed block_offset block_len (block_size d));
            phy_block = block_idx mod physical_blocks d;
            end_phy = end_logical mod physical_blocks d
        in case api_read (de_api e) of
             None \<Rightarrow> Some (Inl ENOTSUP, d)
           | Some read \<Rightarrow>
               if dl_flags d AND DATA_LOGGER_FLAGS_ERASING \<noteq> 0 then Some (Inl EBUSY, d)
               else if block_idx < earliest_block d \<or> current_block d \<le> end_logical \<or> block_size d \<le> block_offset
               then Some (Inl ENOENT, d)
               else
                 let (first, second) = wrap_split (physical_blocks d) (block_size d) phy_block end_phy block_offset block_len;
                     (rc, b) = de_pm_get e (backend d)
                 in case rc of
                      Inl err \<Rightarrow> Some (Inl err, d\<lparr>backend := b\<rparr>)
                    | Inr _ \<Rightarrow>
                        (case read phy_block block_offset first b of
                           (Inl err, b) \<Rightarrow> Some (Inl err, d\<lparr>backend := de_pm_put e b\<rparr>)
                         | (Inr bytes, b) \<Rightarrow>
                             if second = 0 then Some (Inr bytes, d\<lparr>backend := de_pm_put e b\<rparr>)
                             else
                               (case read 0 0 (u16 second) b of
                                  (Inl err, b) \<Rightarrow> Some (Inl err, d\<lparr>backend := de_pm_put e b\<rparr>)
                                | (Inr rest, b) \<Rightarrow> Some (Inr (bytes @ rest), d\<lparr>backend := de_pm_put e b\<rparr>))))"

definition data_logger_erase ::
    "('b, 'c) dl_env \<Rightarrow> bool \<Rightarrow> (nat \<Rightarrow> 'c \<Rightarrow> 'c) \<Rightarrow> ('b, 'c) data_logger_common_data \<Rightarrow>
     unit res \<times> ('b, 'c) data_logger_common_data" where
  "data_logger_erase e erase_all erase_progress d =
     (case api_reset (de_api e) of
        None \<Rightarrow> (Inl ENOTSUP, d)
      | Some reset \<Rightarrow>
          if \<not> is_persistent_logger e then (Inl ENOTSUP, d)
          else
            let (rc, b) = de_pm_get e (backend d); d = d\<lparr>backend := b\<rparr>
            in case rc of
                 Inl err \<Rightarrow> (Inl err, d)
               | Inr _ \<Rightarrow>
                   let block_hint = if erase_all then physical_blocks d else min (current_block d) (physical_blocks d);
                       d = d\<lparr>dl_flags := dl_flags d OR DATA_LOGGER_FLAGS_ERASING\<rparr>;
                       (rc, b, w) = reset block_hint erase_progress (backend d) (cb_data d);
                       d = d\<lparr>backend := b, cb_data := w\<rparr>;
                       d = (if rc = Inr () then d\<lparr>current_block := 0, earliest_block := 0, boot_block := 0\<rparr> else d);
                       d = d\<lparr>backend := de_pm_put e (backend d)\<rparr>
                   in (rc, d\<lparr>dl_flags := dl_flags d AND NOT DATA_LOGGER_FLAGS_ERASING\<rparr>))"

subsection \<open>Recovery of the state at boot\<close>

text \<open>
  The binary search for the last block with a wrap counter. Counters are 32 bits wide and the subtraction wraps, so
  the loop need not end for every backend: \<open>None\<close> is also the result of a search that does not end.
\<close>

partial_function (option) block_search ::
    "(nat \<Rightarrow> nat \<Rightarrow> nat \<Rightarrow> 'b \<Rightarrow> byte list res \<times> 'b) \<Rightarrow> byte \<Rightarrow> nat \<Rightarrow> nat \<Rightarrow> nat \<Rightarrow> 'b \<Rightarrow> (nat res \<times> 'b) option" where
  "block_search read counter low high found b =
     (if high < low then Some (Inr found, b)
      else
        let mid = u32 (low + high) div 2
        in case read mid 0 2 b of (rc, b) \<Rightarrow>
             (case rc of
                Inl err \<Rightarrow> Some (Inl err, b)
              | Inr temp \<Rightarrow>
                  if temp ! 0 = counter then block_search read counter (u32 (mid + 1)) high mid b
                  else block_search read counter low (u32 (mid + 4294967295)) found b))"

declare block_search.simps [code]

text \<open>The search for the first block with data, from the physical block \<open>phy\<close>; at most \<open>max_search\<close> blocks are read.\<close>

fun earliest_search ::
    "(nat \<Rightarrow> nat \<Rightarrow> nat \<Rightarrow> 'b \<Rightarrow> byte list res \<times> 'b) \<Rightarrow> nat \<Rightarrow> nat \<Rightarrow> ('b, 'c) data_logger_common_data \<Rightarrow>
     unit res \<times> ('b, 'c) data_logger_common_data" where
  "earliest_search read 0 phy d = (Inl EINVAL, d)"
| "earliest_search read (Suc max_search) phy d =
     (case read phy 0 2 (backend d) of (rc, b) \<Rightarrow>
        (case rc of
           Inl err \<Rightarrow> (Inl err, d\<lparr>backend := b\<rparr>)
         | Inr temp \<Rightarrow>
             let d = d\<lparr>backend := b\<rparr>
             in if temp ! 0 \<noteq> 0x00 \<and> temp ! 0 \<noteq> 0xFF then (Inr (), d)
                else
                  let d = d\<lparr>earliest_block := u32 (earliest_block d + 1)\<rparr>
                  in if phy + 1 = physical_blocks d then (Inr (), d)
                     else earliest_search read max_search (phy + 1) d))"

definition search_range :: "('b, 'c) dl_env \<Rightarrow> ('b, 'c) data_logger_common_data \<Rightarrow> (nat \<times> nat) \<times> 'b" where
  "search_range e d =
     (let whole = (0, u32 (physical_blocks d + 4294967295))
      in case api_search_hint (de_api e) of
           None \<Rightarrow> (whole, backend d)
         | Some hint \<Rightarrow>
             (case hint (backend d) of (rc, b) \<Rightarrow>
                (case rc of Inl _ \<Rightarrow> (whole, b) | Inr lh \<Rightarrow> (lh, b))))"

definition current_block_search ::
    "('b, 'c) dl_env \<Rightarrow> byte \<Rightarrow> ('b, 'c) data_logger_common_data \<Rightarrow> (unit res \<times> ('b, 'c) data_logger_common_data) option" where
  "current_block_search e counter d =
     do {
       read \<leftarrow> api_read (de_api e);
       let ((low, high), b) = search_range e d;
       (rc, b) \<leftarrow> block_search read counter low high low b;
       let d = d\<lparr>backend := b\<rparr>;
       case rc of
         Inl err \<Rightarrow> Some (Inl err, d)
       | Inr found \<Rightarrow>
           (let d = d\<lparr>current_block := u32 ((unat counter + 4294967295) * physical_blocks d + found + 1)\<rparr>
            in if counter = 1 then Some (Inr (), d\<lparr>earliest_block := 0\<rparr>)
               else if physical_blocks d = 0 \<or> block_size d = 0 then None
               else
                 let d = d\<lparr>earliest_block := u32 (current_block d + 4294967296 - physical_blocks d)\<rparr>;
                     max_search = u32 (2 * (erase_size d div block_size d))
                 in Some (earliest_search read max_search (earliest_block d mod physical_blocks d) d))
     }"

definition erased_wrap :: "byte \<Rightarrow> bool" where
  "erased_wrap w \<longleftrightarrow> w = 0x00 \<or> w = 0xFF"

text \<open>The decision of \<open>data_logger_common_init\<close> on the first and the last physical block.\<close>

definition recover_state ::
    "('b, 'c) dl_env \<Rightarrow> byte \<Rightarrow> byte \<Rightarrow> ('b, 'c) data_logger_common_data \<Rightarrow> (unit res \<times> ('b, 'c) data_logger_common_data) option" where
  "recover_state e first lst d =
     (if block_size d = 0 then None
      else
        let erase_blocks = u16 (erase_size d div block_size d)
        in if first = lst then
             if erased_wrap first then Some (Inr (), d\<lparr>current_block := 0\<rparr>)
             else
               let d = d\<lparr>current_block := u32 (unat first * physical_blocks d)\<rparr>
               in Some (Inr (), d\<lparr>earliest_block := u32 (current_block d + 4294967296 - physical_blocks d)\<rparr>)
           else if erased_wrap first then
             let d = d\<lparr>current_block := u32 (unat lst * physical_blocks d)\<rparr>
             in Some (Inr (), d\<lparr>earliest_block := u32 (current_block d + 4294967296 - physical_blocks d + erase_blocks)\<rparr>)
           else current_block_search e first d)"

definition data_logger_common_init ::
    "('b, 'c) dl_env \<Rightarrow> ('b, 'c) data_logger_common_data \<Rightarrow> (unit res \<times> ('b, 'c) data_logger_common_data) option" where
  "data_logger_common_init e d =
     (let d = d\<lparr>callbacks := [], bytes_logged := 0, boot_block := 0, current_block := 0, earliest_block := 0, dl_flags := 0\<rparr>
      in case api_read (de_api e) of
           None \<Rightarrow> Some (Inr (), d)
         | Some read \<Rightarrow>
             (case read 0 0 2 (backend d) of (rc, b) \<Rightarrow>
               let d = d\<lparr>backend := b\<rparr>
               in case rc of
                 Inl err \<Rightarrow> Some (Inl err, d)
               | Inr first \<Rightarrow>
                   (case read (u32 (physical_blocks d + 4294967295)) 0 2 (backend d) of (rc, b) \<Rightarrow>
                     let d = d\<lparr>backend := b\<rparr>
                     in case rc of
                       Inl err \<Rightarrow> Some (Inl err, d)
                     | Inr lst \<Rightarrow>
                         do {
                           (rc, d) \<leftarrow> recover_state e (first ! 0) (lst ! 0) d;
                           case rc of
                             Inl err \<Rightarrow> Some (Inl err, d)
                           | Inr _ \<Rightarrow> Some (Inr (), d\<lparr>boot_block := current_block d\<rparr>)
                         })))"

subsection \<open>Callbacks\<close>

definition data_logger_register_cb ::
    "'c data_logger_cb \<Rightarrow> ('b, 'c) data_logger_common_data \<Rightarrow> ('b, 'c) data_logger_common_data" where
  "data_logger_register_cb cb d = d\<lparr>callbacks := callbacks d @ [cb]\<rparr>"

definition data_logger_common_block_size_changed ::
    "nat \<Rightarrow> ('b, 'c) data_logger_common_data \<Rightarrow> ('b, 'c) data_logger_common_data" where
  "data_logger_common_block_size_changed bsize d =
     d\<lparr>block_size := bsize,
       cb_data := fold (\<lambda>cb. case cb_block_size_update cb of None \<Rightarrow> (\<lambda>w. w) | Some f \<Rightarrow> f bsize) (callbacks d) (cb_data d)\<rparr>"

definition data_logger_set_erase_state ::
    "bool \<Rightarrow> ('b, 'c) data_logger_common_data \<Rightarrow> ('b, 'c) data_logger_common_data" where
  "data_logger_set_erase_state enabled d =
     d\<lparr>dl_flags := (if enabled then dl_flags d OR DATA_LOGGER_FLAGS_ERASING
                    else dl_flags d AND NOT DATA_LOGGER_FLAGS_ERASING)\<rparr>"

end
