(* ===== verification/Logger_Contents.thy ===== *)
theory Logger_Contents
  imports Data_Logger
begin

text \<open>
  What the storage of a persistent data logger holds. The storage is a function from addresses to bytes, divided
  into physical blocks; \<open>contents_inv\<close> relates it to the list of the blocks logged so far, the last ones of which
  are kept in the ring. The interface to a backend is the locale \<open>block_backend\<close>; in it the operations of
  \<open>Data_Logger\<close> are shown to keep the relation, reads to return the blocks logged, and the recovery at boot to find
  the state that the device had.
\<close>

type_synonym storage = "nat \<Rightarrow> byte"

subsection \<open>Rings of blocks\<close>

definition store_bytes :: "nat \<Rightarrow> byte list \<Rightarrow> storage \<Rightarrow> storage" where
  "store_bytes off data m = (\<lambda>a. if off \<le> a \<and> a < off + length data then data ! (a - off) else m a)"

definition fill_bytes :: "nat \<Rightarrow> nat \<Rightarrow> byte \<Rightarrow> storage \<Rightarrow> storage" where
  "fill_bytes off n v m = (\<lambda>a. if off \<le> a \<and> a < off + n then v else m a)"

definition pad_block :: "nat \<Rightarrow> byte \<Rightarrow> byte list \<Rightarrow> byte list" where
  "pad_block bs ev block = block @ replicate (bs - length block) ev"

definition slot_holds :: "nat \<Rightarrow> storage \<Rightarrow> nat \<Rightarrow> byte list \<Rightarrow> bool" where
  "slot_holds bs m p data \<longleftrightarrow> (\<forall>i < bs. m (p * bs + i) = data ! i)"

definition slot_erased :: "nat \<Rightarrow> byte \<Rightarrow> storage \<Rightarrow> nat \<Rightarrow> bool" where
  "slot_erased bs ev m p \<longleftrightarrow> (\<forall>i < bs. m (p * bs + i) = ev)"

text \<open>A block with the header for its logical index.\<close>

definition block_ok :: "nat \<Rightarrow> nat \<Rightarrow> nat \<Rightarrow> byte list \<Rightarrow> bool" where
  "block_ok P bs j block \<longleftrightarrow> 2 \<le> length block \<and> length block \<le> bs \<and> block ! 0 = word_of_nat (j div P + 1)"

text \<open>
  The blocks logged are \<open>L\<close>. Slots up to the logical index \<open>K\<close>, a multiple of the erase unit, have been prepared:
  those not yet written are erased, and the last blocks before them are still there.
\<close>

definition contents_inv :: "nat \<Rightarrow> nat \<Rightarrow> nat \<Rightarrow> byte \<Rightarrow> storage \<Rightarrow> byte list list \<Rightarrow> nat \<Rightarrow> bool" where
  "contents_inv P bs eb ev m L K \<longleftrightarrow>
     eb dvd K \<and> (if length L < P then K = P else length L \<le> K \<and> K \<le> length L + eb) \<and>
     (\<forall>j. length L \<le> j \<and> j < K \<longrightarrow> slot_erased bs ev m (j mod P)) \<and>
     (\<forall>j. K - P \<le> j \<and> j < length L \<longrightarrow> slot_holds bs m (j mod P) (pad_block bs ev (L ! j))) \<and>
     (\<forall>j < length L. block_ok P bs j (L ! j))"

lemma length_pad_block [simp]: "length block \<le> bs \<Longrightarrow> length (pad_block bs ev block) = bs"
  by (simp add: pad_block_def)

lemma slot_in_range:
  assumes "p * bs \<le> p' * bs + i" "p' * bs + i < (p + n) * (bs :: nat)" "i < bs"
  shows "p \<le> p' \<and> p' < p + n"
proof -
  have "p * bs < (p' + 1) * bs" using assms by simp
  moreover have "p' * bs < (p + n) * bs" using assms(2) by linarith
  ultimately show ?thesis by (simp only: mult_less_cancel2) linarith
qed

lemma ring_slot_unique:
  assumes "j mod P = j' mod P" "j < j' + P" "j' < j + (P :: nat)"
  shows "j = j'"
proof (rule ccontr)
  assume ne: "j \<noteq> j'"
  have "P dvd (max j j' - min j j')"
    using assms(1) by (cases "j \<le> j'") (simp_all add: max_def min_def mod_eq_dvd_iff_nat [symmetric])
  moreover have "0 < max j j' - min j j'" "max j j' - min j j' < P" using ne assms(2,3) by linarith+
  ultimately show False using nat_dvd_not_less by blast
qed

lemma slot_store_other:
  assumes "p \<noteq> p'" "length data \<le> bs"
  shows "slot_holds bs (store_bytes (p * bs) data m) p' x = slot_holds bs m p' x"
    and "slot_erased bs ev (store_bytes (p * bs) data m) p' = slot_erased bs ev m p'"
proof -
  have "store_bytes (p * bs) data m (p' * bs + i) = m (p' * bs + i)" if "i < bs" for i
  proof -
    have "\<not> (p * bs \<le> p' * bs + i \<and> p' * bs + i < p * bs + length data)"
      using slot_in_range [of p bs p' i 1] that assms by fastforce
    then show ?thesis by (simp only: store_bytes_def if_False)
  qed
  then show "slot_holds bs (store_bytes (p * bs) data m) p' x = slot_holds bs m p' x"
    and "slot_erased bs ev (store_bytes (p * bs) data m) p' = slot_erased bs ev m p'"
    by (simp_all add: slot_holds_def slot_erased_def)
qed

lemma slot_store_same:
  assumes "slot_erased bs ev m p" "length data \<le> bs"
  shows "slot_holds bs (store_bytes (p * bs) data m) p (pad_block bs ev data)"
  using assms by (auto simp: slot_holds_def slot_erased_def store_bytes_def pad_block_def nth_append)

lemma slot_fill:
  shows "slot_erased bs ev m p' \<or> p \<le> p' \<and> p' < p + n \<Longrightarrow> slot_erased bs ev (fill_bytes (p * bs) (n * bs) ev m) p'"
    and "\<not> (p \<le> p' \<and> p' < p + n) \<Longrightarrow> slot_holds bs m p' x \<Longrightarrow> slot_holds bs (fill_bytes (p * bs) (n * bs) ev m) p' x"
proof -
  have inside: "p' * bs + i < p * bs + n * bs" if "p' < p + n" "i < bs" for i
  proof -
    have "(p' + 1) * bs \<le> (p + n) * bs" using that(1) by (intro mult_le_mono1) simp
    then show ?thesis using that(2) by (simp add: add_mult_distrib)
  qed
  show "slot_erased bs ev (fill_bytes (p * bs) (n * bs) ev m) p'" if "slot_erased bs ev m p' \<or> p \<le> p' \<and> p' < p + n"
    using that inside by (auto simp: slot_erased_def fill_bytes_def trans_le_add1)
  show "slot_holds bs (fill_bytes (p * bs) (n * bs) ev m) p' x" if "\<not> (p \<le> p' \<and> p' < p + n)" "slot_holds bs m p' x"
    using that slot_in_range [of p bs p' _ n] by (auto simp: slot_holds_def fill_bytes_def add_mult_distrib)
qed

lemma contents_empty:
  assumes "eb dvd P" "\<And>p. p < P \<Longrightarrow> slot_erased bs ev m p"
  shows "contents_inv P bs eb ev m [] P"
  using assms by (auto simp: contents_inv_def)

lemma contents_frontier:
  assumes "contents_inv P bs eb ev m L K" "eb \<le> P"
  shows "length L \<le> K" "K \<le> length L + P" "P \<le> K"
  using assms by (auto simp: contents_inv_def split: if_splits)

lemma contents_store:
  assumes inv: "contents_inv P bs eb ev m L K" and n: "length L < K" and eb: "eb \<le> P"
    and ok: "block_ok P bs (length L) block"
  shows "contents_inv P bs eb ev (store_bytes ((length L mod P) * bs) block m) (L @ [block]) K"
proof -
  let ?n = "length L" and ?m = "store_bytes ((length L mod P) * bs) block m"
  have bl: "length block \<le> bs" using ok by (simp add: block_ok_def)
  have K: "eb dvd K" "if ?n < P then K = P else ?n \<le> K \<and> K \<le> ?n + eb" using inv by (simp_all add: contents_inv_def)
  have other: "?n mod P \<noteq> j mod P" if "K - P \<le> j" "j < K" "j \<noteq> ?n" for j
    using ring_slot_unique [of ?n P j] that n contents_frontier [OF inv eb] by linarith
  have live: "slot_holds bs ?m (j mod P) (pad_block bs ev ((L @ [block]) ! j))" if j: "K - P \<le> j" "j < Suc ?n" for j
  proof (cases "j = ?n")
    case True
    have "slot_erased bs ev m (?n mod P)" using inv n by (simp add: contents_inv_def)
    then show ?thesis using True bl by (simp add: slot_store_same)
  next
    case False
    then have "slot_holds bs m (j mod P) (pad_block bs ev (L ! j))" using inv j by (simp add: contents_inv_def)
    then show ?thesis using False j other [of j] n bl by (simp add: slot_store_other nth_append)
  qed
  have erased: "slot_erased bs ev ?m (j mod P)" if "Suc ?n \<le> j" "j < K" for j
  proof -
    have "slot_erased bs ev m (j mod P)" using inv that by (simp add: contents_inv_def)
    moreover have "?n mod P \<noteq> j mod P" using other [of j] that contents_frontier [OF inv eb] by linarith
    ultimately show ?thesis using bl by (simp add: slot_store_other)
  qed
  have "block_ok P bs j ((L @ [block]) ! j)" if "j < Suc ?n" for j
    using that ok inv by (cases "j = ?n") (simp_all add: contents_inv_def nth_append)
  moreover have "if Suc ?n < P then K = P else Suc ?n \<le> K \<and> K \<le> Suc ?n + eb"
    using K(2) n by (auto split: if_splits)
  ultimately show ?thesis using K(1) live erased by (simp add: contents_inv_def split: if_splits)
qed

lemma chunk_in_range:
  assumes "eb dvd P" "eb dvd n" "0 < P"
  shows "n mod P + eb \<le> (P :: nat)"
proof -
  have "eb dvd P - n mod P" using assms by (simp add: dvd_diff_nat dvd_mod)
  moreover have "0 < P - n mod P" using assms(3) by simp
  ultimately have "eb \<le> P - n mod P" by (rule dvd_imp_le)
  then show ?thesis using assms(3) by (simp add: le_diff_conv2)
qed

lemma chunk_slot:
  assumes "n mod P + eb \<le> (P :: nat)" "t < eb"
  shows "(n + t) mod P = n mod P + t"
  using assms by (metis add_less_cancel_left mod_add_left_eq mod_less order_less_le_trans)

lemma contents_erase:
  assumes inv: "contents_inv P bs eb ev m L K" and n: "P \<le> length L" "eb dvd length L"
    and geo: "0 < eb" "eb \<le> P" "eb dvd P"
  shows "contents_inv P bs eb ev (fill_bytes ((length L mod P) * bs) (eb * bs) ev m) L (length L + eb)"
proof -
  let ?n = "length L" and ?m = "fill_bytes ((length L mod P) * bs) (eb * bs) ev m"
  have range: "?n mod P + eb \<le> P" using chunk_in_range [OF geo(3) n(2)] geo by linarith
  have erased: "slot_erased bs ev ?m (j mod P)" if j: "?n \<le> j" "j < ?n + eb" for j
  proof -
    have "j mod P = ?n mod P + (j - ?n)" using chunk_slot [OF range, of "j - ?n"] j by simp
    then show ?thesis using j by (intro slot_fill(1) disjI2 conjI) linarith+
  qed
  have live: "slot_holds bs ?m (j mod P) (pad_block bs ev (L ! j))" if j: "?n + eb - P \<le> j" "j < ?n" for j
  proof (rule slot_fill(2))
    have "K \<le> ?n + eb" using inv n(1) by (simp add: contents_inv_def)
    then have "K - P \<le> j" using j by linarith
    then show "slot_holds bs m (j mod P) (pad_block bs ev (L ! j))" using inv j by (simp add: contents_inv_def)
    show "\<not> (?n mod P \<le> j mod P \<and> j mod P < ?n mod P + eb)"
    proof
      assume a: "?n mod P \<le> j mod P \<and> j mod P < ?n mod P + eb"
      let ?t = "j mod P - ?n mod P"
      have t: "?t < eb" "?n mod P + ?t = j mod P" using a by linarith+
      have "(?n + ?t) mod P = j mod P" using chunk_slot [OF range t(1)] t(2) by (simp only:)
      then have "?n + ?t = j" using ring_slot_unique [of "?n + ?t" P j] a j geo by linarith
      then show False using j by simp
    qed
  qed
  show ?thesis using inv n erased live by (simp add: contents_inv_def)
qed


subsection \<open>Reading from a ring\<close>

lemma ring_byte:
  assumes inv: "contents_inv P bs eb ev m L K" and "K - P \<le> x div bs" "x div bs < length L" "0 < bs"
  shows "m (x mod (P * bs)) = pad_block bs ev (L ! (x div bs)) ! (x mod bs)"
proof -
  have "x mod (P * bs) = (x div bs mod P) * bs + x mod bs"
    by (metis mod_mult2_eq mult.commute)
  moreover have "slot_holds bs m (x div bs mod P) (pad_block bs ev (L ! (x div bs)))"
    using inv assms(2,3) by (simp add: contents_inv_def)
  ultimately show ?thesis using assms(4) by (simp add: slot_holds_def)
qed

lemma concat_chunk_nth:
  assumes "\<And>c. c \<in> set xs \<Longrightarrow> length c = bs" "x < length xs * bs"
  shows "concat xs ! x = xs ! (x div bs) ! (x mod bs)"
  using assms
proof (induction xs arbitrary: x)
  case (Cons c xs)
  then have c: "length c = bs" "0 < bs" by (auto intro: gr0I)
  show ?case
  proof (cases "x < bs")
    case False
    then have "concat xs ! (x - bs) = xs ! ((x - bs) div bs) ! ((x - bs) mod bs)" using Cons by (intro Cons.IH) auto
    moreover have "x div bs = Suc ((x - bs) div bs)" "x mod bs = (x - bs) mod bs"
      using False c(2) by (simp_all add: le_div_geq le_mod_geq)
    ultimately show ?thesis using False c by (simp add: nth_append)
  qed (simp add: nth_append c)
qed simp

lemma length_concat_chunks:
  assumes "\<And>c. c \<in> set xs \<Longrightarrow> length c = bs"
  shows "length (concat xs) = length xs * bs"
  using assms by (induction xs) auto

text \<open>The bytes of logged blocks, one after another.\<close>

definition log_stream :: "nat \<Rightarrow> byte \<Rightarrow> byte list list \<Rightarrow> byte list" where
  "log_stream bs ev L = concat (map (pad_block bs ev) L)"

lemma ring_read:
  assumes inv: "contents_inv P bs eb ev m L K" and j: "K - P \<le> j"
    and upto: "j * bs + off + len \<le> length L * bs" and bs: "0 < bs"
  shows "map (\<lambda>k. m ((j * bs + off + k) mod (P * bs))) [0..<len] = bytes_at (j * bs + off) len (log_stream bs ev L)"
proof (rule nth_equalityI)
  have ok: "\<And>c. c \<in> set L \<Longrightarrow> length c \<le> bs"
    using inv by (metis contents_inv_def block_ok_def in_set_conv_nth)
  then have chunks: "\<And>c. c \<in> set (map (pad_block bs ev) L) \<Longrightarrow> length c = bs" by auto
  have len: "length (log_stream bs ev L) = length L * bs"
    using length_concat_chunks [of "map (pad_block bs ev) L" bs] chunks by (simp add: log_stream_def)
  show "length (map (\<lambda>k. m ((j * bs + off + k) mod (P * bs))) [0..<len]) = length (bytes_at (j * bs + off) len (log_stream bs ev L))"
    using upto len by (simp add: bytes_at_def)
  fix k
  assume "k < length (map (\<lambda>k. m ((j * bs + off + k) mod (P * bs))) [0..<len])"
  then have k: "k < len" by simp
  let ?x = "j * bs + off + k"
  have x: "?x < length L * bs" using upto k by linarith
  then have "?x div bs < length L" by (simp add: less_mult_imp_div_less)
  moreover have "j \<le> ?x div bs" using bs by (metis add.assoc div_le_mono le_add1 nonzero_mult_div_cancel_right not_gr0)
  ultimately have "m (?x mod (P * bs)) = map (pad_block bs ev) L ! (?x div bs) ! (?x mod bs)"
    using ring_byte [OF inv, of ?x] j bs by simp
  also have "\<dots> = log_stream bs ev L ! ?x"
    using concat_chunk_nth [of "map (pad_block bs ev) L" bs ?x] chunks x by (simp add: log_stream_def)
  finally show "map (\<lambda>k. m ((j * bs + off + k) mod (P * bs))) [0..<len] ! k = bytes_at (j * bs + off) len (log_stream bs ev L) ! k"
    using k upto len by (simp add: bytes_at_def)
qed

text \<open>A read that is split at the end of the physical blocks reads consecutive bytes of the ring.\<close>

lemma split_read:
  assumes "a < P * (bs :: nat)" "first + second = len"
    and "second = 0 \<and> a + len \<le> P * bs \<or> first = P * bs - a \<and> second \<le> P * bs"
  shows "map m [a..<a + first] @ map m [0..<second] = map (\<lambda>k. m ((a + k) mod (P * bs))) [0..<len]"
proof (rule nth_equalityI)
  fix k
  assume "k < length (map m [a..<a + first] @ map m [0..<second])"
  then have k: "k < len" using assms(2) by simp
  show "(map m [a..<a + first] @ map m [0..<second]) ! k = map (\<lambda>k. m ((a + k) mod (P * bs))) [0..<len] ! k"
  proof (cases "k < first")
    case True
    then have "a + k < P * bs" using assms k by auto
    then show ?thesis using True k by (simp add: nth_append)
  next
    case False
    then have "P * bs \<le> a + k" "a + k - P * bs = k - first" "k - first < P * bs" using assms k by auto
    then have "(a + k) mod (P * bs) = k - first" by (simp add: le_mod_geq)
    then show ?thesis using False k assms(2) by (simp add: nth_append)
  qed
qed (use assms(2) in simp)

lemma u32_sub: "b \<le> a \<Longrightarrow> a < 4294967296 \<Longrightarrow> u32 (a + 4294967296 - b) = a - b"
proof -
  assume "b \<le> a" "a < 4294967296"
  moreover from this have "a + 4294967296 - b = (a - b) + 4294967296" by simp
  ultimately show ?thesis by (simp only: u32_def mod_add_self2) simp
qed

lemma u16_sub: "b \<le> a \<Longrightarrow> a < 65536 \<Longrightarrow> u16 (a + 4294967296 - b) = a - b"
proof -
  assume "b \<le> a" "a < 65536"
  moreover from this have "a + 4294967296 - b = (a - b) + 65536 * 65536" by simp
  ultimately show ?thesis by (simp only: u16_def mod_mult_self2) simp
qed

lemma wrap_split_exact:
  assumes "phy < P" "off < (bs :: nat)" "0 < len" "len < 65536" "P * bs < 4294967296"
    and extra: "extra = (off + len - 1) div bs" "extra < P"
  shows "\<exists>first second. wrap_split P bs phy ((phy + extra) mod P) off len = (first, second) \<and>
    first + second = len \<and>
    (second = 0 \<and> phy * bs + off + len \<le> P * bs \<or> first = P * bs - (phy * bs + off) \<and> second \<le> P * bs)"
proof (cases "phy + extra < P")
  case True
  have "off + len - 1 < (extra + 1) * bs" using extra(1) assms(2) by (metis Suc_eq_plus1 dividend_less_times_div less_nat_zero_code mult.commute mult_Suc_right not_gr_zero)
  then have "phy * bs + off + len \<le> (phy + extra + 1) * bs" using assms(3) by (simp add: add_mult_distrib)
  also have "\<dots> \<le> P * bs" using True by (intro mult_le_mono1) simp
  finally show ?thesis using True by (simp add: wrap_split_def)
next
  case False
  have sz: "(P - phy) * bs \<le> P * bs" "(P - phy) * bs = P * bs - phy * bs" by (simp_all add: diff_mult_distrib)
  have "(phy + extra) mod P < phy" using False extra(2) assms(1) by (simp add: le_mod_geq)
  moreover have "(P - phy) * bs \<le> off + len - 1"
  proof -
    have "(P - phy) * bs \<le> extra * bs" using False by (intro mult_le_mono1) simp
    also have "\<dots> \<le> off + len - 1" using extra(1) by simp
    finally show ?thesis .
  qed
  moreover have "bs \<le> (P - phy) * bs" using mult_le_mono1 [of 1 "P - phy" bs] assms(1) by (simp add: Suc_leI)
  moreover have "extra * bs \<le> P * bs" using extra(2) by (intro mult_le_mono1) simp
  moreover have "off + len - 1 < extra * bs + bs" using extra(1) assms(2) by (metis add.commute bot_nat_0.not_eq_extremum dividend_less_div_times less_nat_zero_code)
  ultimately have B: "(phy + extra) mod P < phy" "off \<le> (P - phy) * bs" "(P - phy) * bs < 4294967296"
      "(P - phy) * bs - off \<le> len" "len - ((P - phy) * bs - off) \<le> P * bs"
    using assms(2,3,5) sz by linarith+
  have "wrap_split P bs phy ((phy + extra) mod P) off len = ((P - phy) * bs - off, len - ((P - phy) * bs - off))"
  proof -
    define X where "X = (P - phy) * bs"
    have "u32 (u32 X + 4294967296 - off) = X - off" using B(2,3) u32_sub [of off X] by (simp add: X_def)
    moreover have "u32 (len + 4294967296 - (X - off)) = len - (X - off)" using B(4) assms(4) by (intro u32_sub) (simp_all add: X_def)
    moreover have "u16 (len + 4294967296 - (len - (X - off))) = X - off"
      using u16_sub [of "len - (X - off)" len] B(4) assms(4) by (simp add: X_def)
    ultimately show ?thesis using B(1) unfolding wrap_split_def Let_def X_def [symmetric] by (simp only: if_True)
  qed
  moreover have "(P - phy) * bs - off = P * bs - (phy * bs + off)" using sz by simp
  ultimately show ?thesis using B(4,5) by simp
qed

end
