(* ===== verification/Logger_Backend.thy ===== *)
theory Logger_Backend
  imports Logger_Contents
begin

text \<open>
  The operations of the data logger over a persistent backend. The locale \<open>block_backend\<close> has the documented
  behaviour of the backend functions of \<open>backends/common.h\<close> and of device power management; \<open>dl_inv\<close> relates the
  state of the logger to the blocks logged. Writing, reading, erasing and the recovery at boot are shown to keep or
  to establish it.
\<close>

subsection \<open>The interface\<close>

definition dl_match :: "nat \<Rightarrow> nat \<Rightarrow> nat \<Rightarrow> byte \<Rightarrow> ('b, 'c) data_logger_common_data \<Rightarrow> bool" where
  "dl_match P bs eb ev d \<longleftrightarrow>
     physical_blocks d = P \<and> block_size d = bs \<and> erase_size d = eb * bs \<and> erase_val d = ev \<and> logical_blocks d \<le> 254 * P"

definition dl_inv ::
    "nat \<Rightarrow> nat \<Rightarrow> nat \<Rightarrow> byte \<Rightarrow> ('b \<Rightarrow> storage) \<Rightarrow> byte list list \<Rightarrow> ('b, 'c) data_logger_common_data \<Rightarrow> bool" where
  "dl_inv P bs eb ev mem L d \<longleftrightarrow>
     dl_match P bs eb ev d \<and> current_block d = length L \<and> length L \<le> logical_blocks d \<and>
     (\<exists>K. contents_inv P bs eb ev (mem (backend d)) L K \<and> K \<le> earliest_block d + P)"

lemma handle_block_write_frame [simp]:
  "current_block (handle_block_write_success ty d) = current_block d"
  "earliest_block (handle_block_write_success ty d) = earliest_block d"
  "physical_blocks (handle_block_write_success ty d) = physical_blocks d"
  "logical_blocks (handle_block_write_success ty d) = logical_blocks d"
  "block_size (handle_block_write_success ty d) = block_size d"
  "erase_size (handle_block_write_success ty d) = erase_size d"
  "erase_val (handle_block_write_success ty d) = erase_val d"
  "dl_flags (handle_block_write_success ty d) = dl_flags d"
  "backend (handle_block_write_success ty d) = backend d"
  "current_block (handle_block_write_fail ty block n err d) = current_block d"
  "earliest_block (handle_block_write_fail ty block n err d) = earliest_block d"
  "physical_blocks (handle_block_write_fail ty block n err d) = physical_blocks d"
  "logical_blocks (handle_block_write_fail ty block n err d) = logical_blocks d"
  "block_size (handle_block_write_fail ty block n err d) = block_size d"
  "erase_size (handle_block_write_fail ty block n err d) = erase_size d"
  "erase_val (handle_block_write_fail ty block n err d) = erase_val d"
  "dl_flags (handle_block_write_fail ty block n err d) = dl_flags d"
  "backend (handle_block_write_fail ty block n err d) = backend d"
  by (simp_all add: handle_block_write_success_def handle_block_write_fail_def)

lemma block_written_frame [simp]:
  "current_block (block_written ty n d) = u32 (current_block d + 1)"
  "earliest_block (block_written ty n d) = earliest_block d"
  "physical_blocks (block_written ty n d) = physical_blocks d"
  "logical_blocks (block_written ty n d) = logical_blocks d"
  "block_size (block_written ty n d) = block_size d"
  "erase_size (block_written ty n d) = erase_size d"
  "erase_val (block_written ty n d) = erase_val d"
  "dl_flags (block_written ty n d) = dl_flags d"
  "backend (block_written ty n d) = backend d"
  by (simp_all add: block_written_def)

text \<open>
  A logger that writes blocks directly: without a buffer in RAM and a commit queue. The block logged for the first
  \<open>n\<close> bytes of a buffer has the header over the first two and is padded to the alignment of the backend.
\<close>

definition plain_logger :: "('b, 'c) dl_env \<Rightarrow> nat \<Rightarrow> bool" where
  "plain_logger e bs \<longleftrightarrow>
     (CONFIG_RAM_BUFFER e \<longrightarrow> ram_buf_len (de_config e) = 0) \<and> (CONFIG_OFFLOAD_WRITES e \<longrightarrow> queued_writes (de_config e)) \<and>
     block_write_align (de_config e) dvd bs \<and> block_write_align (de_config e) < 256"

definition logged_len :: "('b, 'c) dl_env \<Rightarrow> nat \<Rightarrow> nat" where
  "logged_len e n =
     (let align = block_write_align (de_config e)
      in if \<not> requires_full_block_write (de_config e) \<and> 1 < align \<and> 0 < n mod align then n + (align - n mod align) else n)"

definition logged_block :: "('b, 'c) dl_env \<Rightarrow> nat \<Rightarrow> byte \<Rightarrow> nat \<Rightarrow> byte \<Rightarrow> byte list \<Rightarrow> nat \<Rightarrow> byte list" where
  "logged_block e P ev j ty block n =
     word_of_nat (j div P + 1) # ty # bytes_at 2 (n - 2) block @ replicate (logged_len e n - n) ev"

lemma logged_len_le:
  assumes "plain_logger e bs" "n \<le> bs" "0 < bs"
  shows "n \<le> logged_len e n" "logged_len e n \<le> bs"
proof -
  let ?a = "block_write_align (de_config e)"
  show "n \<le> logged_len e n" unfolding logged_len_def Let_def by (rule if_split [THEN iffD2]) (blast intro: le_add1)
  have "n + (?a - n mod ?a) \<le> bs" if "0 < n mod ?a" "1 < ?a"
  proof -
    obtain k where k: "bs = ?a * k" using assms(1) by (auto simp: plain_logger_def)
    have n: "n = ?a * (n div ?a) + n mod ?a" by simp
    have "n div ?a < k"
    proof (rule ccontr)
      assume "\<not> n div ?a < k"
      then have "?a * k \<le> ?a * (n div ?a)" by simp
      then show False using n k assms(2) that(1) by linarith
    qed
    then have "?a * (n div ?a + 1) \<le> bs" unfolding k by (intro mult_le_mono2) simp
    moreover have "n mod ?a < ?a" using that(2) by simp
    moreover have "?a * (n div ?a + 1) = ?a * (n div ?a) + ?a" by simp
    ultimately show ?thesis using n by linarith
  qed
  then show "logged_len e n \<le> bs" using assms(2) by (simp add: logged_len_def Let_def)
qed

lemma write_align_exact:
  assumes "plain_logger e bs" "n \<le> bs" "bs \<le> length block" "0 < bs" "bs < 65536"
  shows "write_align e block n d = Some (store_at n (replicate (logged_len e n - n) (erase_val d)) block, logged_len e n)"
proof -
  let ?a = "block_write_align (de_config e)"
  have l: "n \<le> logged_len e n" "logged_len e n \<le> bs" using logged_len_le [OF assms(1,2,4)] .
  have "?a < 256" using assms(1) by (simp add: plain_logger_def)
  then have "u8 (n mod ?a) = n mod ?a" if "1 < ?a"
    using that mod_less_divisor [of ?a n] by (intro u8_id) linarith
  moreover have "store_at n [] block = block" by (simp add: store_at_def)
  ultimately show ?thesis using l assms(3,5)
    by (auto simp: write_align_def logged_len_def Let_def split: if_splits)
qed

lemma bytes_at_padded:
  assumes "2 \<le> n" "n + k \<le> length block"
  shows "bytes_at 2 (n + k - 2) (store_at n (replicate k v) block) = bytes_at 2 (n - 2) block @ replicate k v"
proof -
  have "store_at n (replicate k v) block = take n block @ replicate k v @ drop (n + k) block" by (simp add: store_at_def)
  moreover have "drop 2 (take n block @ replicate k v @ drop (n + k) block) = take (n - 2) (drop 2 block) @ replicate k v @ drop (n + k) block"
    using assms by (simp add: drop_take)
  moreover have "length (take (n - 2) (drop 2 block) @ replicate k v) = n + k - 2" using assms by simp
  ultimately show ?thesis by (simp add: bytes_at_def)
qed

locale block_backend =
  fixes e :: "('b, 'c) dl_env" and mem :: "'b \<Rightarrow> storage" and P bs eb :: nat and ev :: byte
  assumes geometry: "2 \<le> bs" "bs < 65536" "0 < eb" "eb < 65536" "eb < P" "eb dvd P" "P * bs < 4294967296" "255 * P < 4294967296"
    and erased_value: "erased_wrap ev"
    and pm_get_mem: "de_pm_get e b = (rc, b') \<Longrightarrow> mem b' = mem b"
    and pm_put_mem: "mem (de_pm_put e b) = mem b"
    and readable: "api_read (de_api e) \<noteq> None"
    and read_mem: "api_read (de_api e) = Some rd \<Longrightarrow> rd p off n b = (res, b') \<Longrightarrow> mem b' = mem b"
    and read_data: "api_read (de_api e) = Some rd \<Longrightarrow> rd p off n b = (Inr bytes, b') \<Longrightarrow> p * bs + off + n \<le> P * bs \<Longrightarrow>
        bytes = map (mem b) [p * bs + off..<p * bs + off + n]"
    and write_data: "api_write (de_api e) p ty data b = (Inr (), b') \<Longrightarrow> p < P \<Longrightarrow> length data \<le> bs \<Longrightarrow>
        slot_erased bs ev (mem b) p \<Longrightarrow> mem b' = store_bytes (p * bs) data (mem b)"
    and erasable: "api_erase (de_api e) \<noteq> None"
    and erase_data: "api_erase (de_api e) = Some er \<Longrightarrow> er p n b = (Inr (), b') \<Longrightarrow> p + n \<le> P \<Longrightarrow>
        mem b' = fill_bytes (p * bs) (n * bs) ev (mem b)"
    and reset_data: "api_reset (de_api e) = Some rs \<Longrightarrow> rs hint progress b w = (Inr (), b', w') \<Longrightarrow> hint \<le> P \<Longrightarrow>
        (\<forall>a < hint * bs. mem b' a = ev) \<and> (\<forall>a. mem b' a = mem b a \<or> mem b' a = ev)"
    and no_hint: "api_search_hint (de_api e) = None"
begin

lemma positive: "0 < P" "0 < bs" "eb \<le> P"
  using geometry by simp_all

lemma persistent [simp]: "is_persistent_logger e"
  using readable by (simp add: is_persistent_logger_def)

lemma erase_unit:
  assumes "dl_match P bs eb ev d"
  shows "u16 (erase_size d div block_size d) = eb" "erase_size d div block_size d = eb"
  using assms geometry positive by (simp_all add: dl_match_def)

lemma invariant_frontier:
  assumes "contents_inv P bs eb ev m L K" "P \<le> length L \<longrightarrow> \<not> eb dvd length L"
  shows "length L < K"
proof (rule ccontr)
  assume "\<not> length L < K"
  then have "K = length L" using contents_frontier [OF assms(1) positive(3)] by simp
  then show False using assms contents_frontier [OF assms(1) positive(3)] by (auto simp: contents_inv_def)
qed

lemma erase_next_chunk_inv:
  assumes inv: "dl_inv P bs eb ev mem L d" and room: "earliest_block d + eb < 4294967296"
  obtains rc ea b where
    "erase_next_chunk e d = Some (rc, d\<lparr>earliest_block := ea, backend := b\<rparr>)"
    "ea = earliest_block d \<or> ea = earliest_block d + eb"
    "rc = Inr () \<longrightarrow> (\<exists>K. contents_inv P bs eb ev (mem b) L K \<and> length L < K \<and> K \<le> ea + P)"
proof -
  obtain K where K: "contents_inv P bs eb ev (mem (backend d)) L K" "K \<le> earliest_block d + P"
    using inv by (auto simp: dl_inv_def)
  have m: "dl_match P bs eb ev d" "physical_blocks d = P" "current_block d = length L"
    using inv by (simp_all add: dl_inv_def dl_match_def)
  obtain er where er: "api_erase (de_api e) = Some er" using erasable by blast
  show ?thesis
  proof (cases "P \<le> length L \<and> eb dvd length L")
    case True
    obtain rc b where eb: "er (length L mod P) eb (backend d) = (rc, b)" by fastforce
    show ?thesis
    proof (cases rc)
      case (Inl err)
      have "u32 (earliest_block d + eb + 4294967296 - eb) = earliest_block d" using room by (simp add: u32_def)
      then show ?thesis using that [of "Inl err" b "earliest_block d"] True Inl eb er m room erase_unit(1) [OF m(1)] geometry
        by (simp add: erase_next_chunk_def Let_def mod_eq_0_iff_dvd)
    next
      case (Inr u)
      have "mem b = fill_bytes ((length L mod P) * bs) (eb * bs) ev (mem (backend d))"
        using erase_data [OF er, of "length L mod P" eb "backend d" b] eb Inr chunk_in_range [of eb P "length L"] True geometry by simp
      then have "contents_inv P bs eb ev (mem b) L (length L + eb)"
        using contents_erase [OF K(1)] True geometry by simp
      moreover have "length L + eb \<le> earliest_block d + eb + P"
        using K contents_frontier [OF K(1) positive(3)] by linarith
      ultimately have "\<exists>K. contents_inv P bs eb ev (mem b) L K \<and> length L < K \<and> K \<le> earliest_block d + eb + P"
        using geometry(3) by (intro exI [of _ "length L + eb"]) simp
      moreover have "erase_next_chunk e d = Some (Inr (), d\<lparr>earliest_block := earliest_block d + eb, backend := b\<rparr>)"
        using True Inr eb er m room erase_unit(1) [OF m(1)] geometry
        by (simp add: erase_next_chunk_def Let_def mod_eq_0_iff_dvd)
      ultimately show ?thesis using that by blast
    qed
  next
    case False
    then have "length L < K" using invariant_frontier [OF K(1)] by blast
    moreover have "erase_next_chunk e d = Some (Inr (), d)"
      using False m erase_unit(1) [OF m(1)] geometry by (auto simp: erase_next_chunk_def Let_def mod_eq_0_iff_dvd)
    ultimately show ?thesis using that [of "Inr ()" "backend d" "earliest_block d"] K by auto
  qed
qed

text \<open>
  Writing a block of at least a header. The block that is logged is the one given, with the header in place.
\<close>

lemma do_block_write_inv:
  assumes inv: "dl_inv P bs eb ev mem L d" and room: "earliest_block d + eb < 4294967296"
    and len: "2 \<le> n" "n \<le> bs" "n \<le> length block" and space: "length L < logical_blocks d"
  obtains rc block' d' where
    "do_block_write e ty block n d = Some (rc, block', d')"
    "rc = Inr () \<longrightarrow> dl_inv P bs eb ev mem (L @ [word_of_nat (length L div P + 1) # ty # bytes_at 2 (n - 2) block]) d'"
    "(\<exists>err. rc = Inl err) \<longrightarrow> dl_match P bs eb ev d' \<and> current_block d' = length L \<and> logical_blocks d' = logical_blocks d \<and>
       (earliest_block d' = earliest_block d \<or> earliest_block d' = earliest_block d + eb)"
    "dl_flags d' = dl_flags d"
proof -
  have m: "dl_match P bs eb ev d" "block_size d = bs" "physical_blocks d = P" "current_block d = length L"
    using inv by (simp_all add: dl_inv_def dl_match_def)
  obtain rc b where pm: "de_pm_get e (backend d) = (rc, b)" by fastforce
  let ?d = "d\<lparr>backend := b\<rparr>"
  have inv1: "dl_inv P bs eb ev mem L ?d"
    using inv pm_get_mem [OF pm] by (simp add: dl_inv_def dl_match_def)
  have room1: "earliest_block ?d + eb < 4294967296" using room by simp
  obtain rc2 ea b2 where er: "erase_next_chunk e ?d = Some (rc2, ?d\<lparr>earliest_block := ea, backend := b2\<rparr>)"
    "ea = earliest_block ?d \<or> ea = earliest_block ?d + eb"
    "rc2 = Inr () \<longrightarrow> (\<exists>K. contents_inv P bs eb ev (mem b2) L K \<and> length L < K \<and> K \<le> ea + P)"
    using erase_next_chunk_inv [OF inv1 room1] .
  let ?hdr = "word_of_nat (length L div P + 1) # ty # drop 2 block"
  have hdr: "block_header e ty block (?d\<lparr>earliest_block := ea, backend := b2\<rparr>) = Some ?hdr"
    using len m by (simp add: block_header_def block_wrap_of_def store_at_def numeral_2_eq_2)
  obtain rc3 b3 where wr: "api_write (de_api e) (length L mod P) ty (take n ?hdr) b2 = (rc3, b3)" by fastforce
  consider (pm) err where "rc = Inl err" | (er) err where "rc = Inr ()" "rc2 = Inl err"
    | (wr) err where "rc = Inr ()" "rc2 = Inr ()" "rc3 = Inl err" | (ok) "rc = Inr ()" "rc2 = Inr ()" "rc3 = Inr ()"
    by (cases rc; cases rc2; cases rc3) auto
  then show ?thesis
  proof cases
    case pm
    then have run: "do_block_write e ty block n d = Some (Inl err, block, handle_block_write_fail ty block n err ?d)"
      using m positive \<open>de_pm_get e (backend d) = (rc, b)\<close> by (simp add: do_block_write_def)
    show ?thesis by (rule that [OF run]) (use m in \<open>auto simp: dl_match_def\<close>)
  next
    case er
    then have run: "do_block_write e ty block n d = Some (Inl err, block,
        handle_block_write_fail ty block n err (?d\<lparr>earliest_block := ea, backend := de_pm_put e b2\<rparr>))"
      using m positive pm \<open>erase_next_chunk e ?d = _\<close> by (simp add: do_block_write_def)
    show ?thesis by (rule that [OF run]) (use m \<open>ea = _ \<or> _\<close> in \<open>auto simp: dl_match_def\<close>)
  next
    case wr
    then have run: "do_block_write e ty block n d = Some (Inl err, ?hdr,
        handle_block_write_fail ty ?hdr n err (?d\<lparr>earliest_block := ea, backend := de_pm_put e b3\<rparr>))"
      using m positive pm len er(1) hdr \<open>api_write _ _ _ _ _ = _\<close> by (simp add: do_block_write_def)
    show ?thesis by (rule that [OF run]) (use m er(2) in \<open>auto simp: dl_match_def\<close>)
  next
    case ok
    let ?d' = "block_written ty n (?d\<lparr>earliest_block := ea, backend := de_pm_put e b3\<rparr>)"
    and ?b = "word_of_nat (length L div P + 1) # ty # bytes_at 2 (n - 2) block"
    have run: "do_block_write e ty block n d = Some (Inr (), ?hdr, ?d')"
      using ok m positive pm len er(1) hdr wr by (simp add: do_block_write_def)
    obtain K where K: "contents_inv P bs eb ev (mem b2) L K" "length L < K" "K \<le> ea + P" using er(3) ok(2) by blast
    have tk: "take n ?hdr = ?b" using len by (simp add: bytes_at_def take_Cons' numeral_2_eq_2 drop_take)
    have bok: "block_ok P bs (length L) ?b" using len by (simp add: block_ok_def bytes_at_def)
    have "slot_erased bs ev (mem b2) (length L mod P)" using K(1,2) by (simp add: contents_inv_def)
    then have "mem b3 = store_bytes ((length L mod P) * bs) ?b (mem b2)"
      using write_data [of "length L mod P" ty "take n ?hdr" b2 b3] wr ok(3) tk len positive by (simp add: bytes_at_def)
    then have "contents_inv P bs eb ev (mem b3) (L @ [?b]) K" using contents_store [OF K(1,2) positive(3) bok] by simp
    moreover have "u32 (length L + 1) = length L + 1" using space inv geometry by (simp add: dl_inv_def dl_match_def)
    ultimately have "dl_inv P bs eb ev mem (L @ [?b]) ?d'"
      using m space K(3) by (auto simp: dl_inv_def dl_match_def pm_put_mem)
    then show ?thesis by (intro that [OF run]) auto
  qed
qed

lemma block_write_inv:
  assumes plain: "plain_logger e bs" and inv: "dl_inv P bs eb ev mem L d" and room: "earliest_block d + eb < 4294967296"
    and n: "2 \<le> n" "n \<le> bs" "bs \<le> length block" and idle: "dl_flags d AND DATA_LOGGER_FLAGS_ERASING = 0"
  obtains rc block' d' where
    "data_logger_block_write e ty block n d = Some (rc, block', d')"
    "rc = Inr () \<longrightarrow> dl_inv P bs eb ev mem (L @ [logged_block e P ev (length L) ty block n]) d'"
    "(\<exists>err. rc = Inl err) \<longrightarrow> dl_match P bs eb ev d' \<and> current_block d' = length L \<and> logical_blocks d' = logical_blocks d \<and>
       (earliest_block d' = earliest_block d \<or> earliest_block d' = earliest_block d + eb)"
    "dl_flags d' = dl_flags d"
proof (cases "length L < logical_blocks d")
  case True
  let ?n = "logged_len e n" and ?b = "store_at n (replicate (logged_len e n - n) ev) block"
  have m: "block_size d = bs" "erase_val d = ev" "current_block d = length L" using inv by (simp_all add: dl_inv_def dl_match_def)
  have l: "n \<le> ?n" "?n \<le> bs" using logged_len_le [OF plain n(2) positive(2)] .
  have "n + (?n - n) \<le> length block" using l n by simp
  then have lb: "length ?b = length block" "bytes_at 2 (?n - 2) ?b = bytes_at 2 (n - 2) block @ replicate (?n - n) ev"
    using bytes_at_padded [OF n(1), of "?n - n"] l by simp_all
  have args: "2 \<le> ?n" "?n \<le> bs" "?n \<le> length ?b" using l lb n by simp_all
  obtain rc block' d' where w: "do_block_write e ty ?b ?n d = Some (rc, block', d')"
    "rc = Inr () \<longrightarrow> dl_inv P bs eb ev mem (L @ [word_of_nat (length L div P + 1) # ty # bytes_at 2 (?n - 2) ?b]) d'"
    "(\<exists>err. rc = Inl err) \<longrightarrow> dl_match P bs eb ev d' \<and> current_block d' = length L \<and> logical_blocks d' = logical_blocks d \<and>
       (earliest_block d' = earliest_block d \<or> earliest_block d' = earliest_block d + eb)"
    "dl_flags d' = dl_flags d"
    using do_block_write_inv [OF inv room args True] .
  have "handle_block_write e ty block n d = do_block_write e ty ?b ?n d"
    using write_align_exact [OF plain n(2,3) positive(2) geometry(2)] plain m
    by (auto simp: handle_block_write_def plain_logger_def)
  then have run: "data_logger_block_write e ty block n d = Some (rc, block', d')"
    using w(1) True n(2) m idle plain by (auto simp: data_logger_block_write_def plain_logger_def)
  show ?thesis by (rule that [OF run]) (use w(2-4) lb(2) in \<open>simp_all add: logged_block_def\<close>)
next
  case False
  then have run: "data_logger_block_write e ty block n d = Some (Inl ENOMEM, block, handle_block_write_fail ty block n ENOMEM d)"
    using inv n by (simp add: data_logger_block_write_def dl_inv_def dl_match_def)
  show ?thesis by (rule that [OF run]) (use inv in \<open>auto simp: dl_inv_def dl_match_def\<close>)
qed

text \<open>A read never leaves defined behaviour, and what it returns is the part of the log asked for.\<close>

lemma block_read_frame:
  assumes "data_logger_block_read e j off n d = Some (rc, d')"
  shows "d'\<lparr>backend := backend d\<rparr> = d \<and> mem (backend d') = mem (backend d)"
proof -
  obtain rd where rd: "api_read (de_api e) = Some rd" using readable by blast
  have "mem b' = mem b" if "rd p off n b = (res, b')" for p off n b res b' using read_mem [OF rd that] .
  then show ?thesis using assms rd
    by (auto simp: data_logger_block_read_def Let_def pm_put_mem split: if_splits prod.splits sum.splits dest!: pm_get_mem)
qed

lemma read_bounds:
  assumes "j + extra_blocks_accessed off n bs < N" "off < bs"
  shows "j * bs + off + n \<le> N * bs"
proof -
  let ?x = "extra_blocks_accessed off n bs"
  have "off + n \<le> (?x + 1) * bs"
  proof (cases "off + n = 0")
    case False
    then have "?x = (off + n - 1) div bs" by (simp add: extra_blocks_accessed_def)
    then have "off + n - 1 < (?x + 1) * bs"
      using dividend_less_div_times [OF positive(2), of "off + n - 1"] by (simp add: add.commute)
    then show ?thesis by linarith
  qed simp
  then have "j * bs + off + n \<le> (j + ?x + 1) * bs" by (simp add: add_mult_distrib)
  also have "\<dots> \<le> N * bs" using assms(1) by (intro mult_le_mono1) simp
  finally show ?thesis .
qed

lemma read_split_ring:
  assumes "off < bs" "n < 65536" "extra_blocks_accessed off n bs < P"
    and ws: "wrap_split P bs (j mod P) ((j + extra_blocks_accessed off n bs) mod P) off n = (first, second)"
  shows "map m [j mod P * bs + off..<j mod P * bs + off + first] @ map m [0..<second] =
      map (\<lambda>k. m ((j * bs + off + k) mod (P * bs))) [0..<n]"
    and "j mod P * bs + off + first \<le> P * bs" "second \<le> P * bs" "second < 65536"
proof -
  let ?a = "j mod P * bs + off" and ?x = "extra_blocks_accessed off n bs"
  have "(j mod P + 1) * bs \<le> P * bs" using positive by (intro mult_le_mono1) (simp add: Suc_leI)
  then have a: "?a < P * bs" using assms(1) by simp
  have cases: "first + second = n \<and> (second = 0 \<and> ?a + n \<le> P * bs \<or> first = P * bs - ?a \<and> second \<le> P * bs)"
  proof (cases "n = 0")
    case True
    then have "?x = 0" using assms(1) geometry(1) by (auto simp: extra_blocks_accessed_def)
    then show ?thesis using True ws a by (auto simp: wrap_split_def)
  next
    case False
    then have "?x = (off + n - 1) div bs" by (simp add: extra_blocks_accessed_def)
    then show ?thesis
      using wrap_split_exact [of "j mod P" P off bs n ?x] False assms positive geometry(7) ws by (auto simp: mod_add_left_eq)
  qed
  have "(?a + k) mod (P * bs) = (j * bs + off + k) mod (P * bs)" for k
    by (metis add.assoc mod_add_left_eq mult_mod_left)
  then show "map m [?a..<?a + first] @ map m [0..<second] = map (\<lambda>k. m ((j * bs + off + k) mod (P * bs))) [0..<n]"
    using split_read [OF a, of first second n m] cases by simp
  show "?a + first \<le> P * bs" "second \<le> P * bs" "second < 65536" using cases a assms(2) by auto
qed

lemma block_read_data:
  assumes inv: "dl_inv P bs eb ev mem L d" and run: "data_logger_block_read e j off n d = Some (Inr bytes, d')"
    and range: "n < 65536" "j + 65536 < 4294967296"
  shows "bytes = bytes_at (j * bs + off) n (log_stream bs ev L)"
proof -
  obtain rd where rd: "api_read (de_api e) = Some rd" using readable by blast
  obtain K where K: "contents_inv P bs eb ev (mem (backend d)) L K" "K \<le> earliest_block d + P"
    using inv by (auto simp: dl_inv_def)
  have m: "block_size d = bs" "physical_blocks d = P" "current_block d = length L" using inv by (simp_all add: dl_inv_def dl_match_def)
  let ?x = "extra_blocks_accessed off n bs" and ?a = "j mod P * bs + off"
  obtain first second where ws: "wrap_split P bs (j mod P) (u32 (j + ?x) mod P) off n = (first, second)" by fastforce
  obtain rc b0 where pm: "de_pm_get e (backend d) = (rc, b0)" by fastforce
  obtain r1 b1 where r1: "rd (j mod P) off first b0 = (r1, b1)" by fastforce
  obtain r2 b2 where r2: "rd 0 0 (u16 second) b1 = (r2, b2)" by fastforce
  have ok: "earliest_block d \<le> j" "u32 (j + ?x) < length L" "off < bs"
    using run rd m by (auto simp: data_logger_block_read_def Let_def split: if_splits)
  have res: "(\<exists>x. r1 = Inr x \<and> (if second = 0 then bytes = x else \<exists>y. r2 = Inr y \<and> bytes = x @ y))"
    using run rd m ws pm r1 r2 ok by (auto simp: data_logger_block_read_def Let_def split: if_splits sum.splits)
  have "(off + n - 1) div bs \<le> (off + n - 1) div 2" using geometry(1) by (intro div_le_mono2) simp_all
  moreover have "(off + n - 1) div 2 \<le> 65535"
    using div_le_mono [of "off + n - 1" 131070 2] geometry(2) ok(3) range(1) by simp
  ultimately have "?x \<le> 65535" using geometry(1) by (simp add: extra_blocks_accessed_def)
  then have x: "u32 (j + ?x) = j + ?x" using range(2) by simp
  then have "?x < P" using ok K contents_frontier [OF K(1) positive(3)] by linarith
  note ring = read_split_ring [OF ok(3) range(1) this ws [unfolded x]]
  have "bytes = map (mem (backend d)) [?a..<?a + first] @ map (mem (backend d)) [0..<second]"
  proof -
    obtain x where x: "r1 = Inr x" using res by blast
    have "x = map (mem (backend d)) [?a..<?a + first]"
      using read_data [OF rd, of "j mod P" off first b0 x b1] r1 x ring(2) pm_get_mem [OF pm] by simp
    moreover have "y = map (mem (backend d)) [0..<second]" if "r2 = Inr y" for y
      using read_data [OF rd, of 0 0 second b1 y b2] r2 that ring(3,4) read_mem [OF rd r1] pm_get_mem [OF pm] by simp
    ultimately show ?thesis using res x by (auto split: if_splits)
  qed
  also have "\<dots> = map (\<lambda>k. mem (backend d) ((j * bs + off + k) mod (P * bs))) [0..<n]" by (rule ring(1))
  also have "\<dots> = bytes_at (j * bs + off) n (log_stream bs ev L)"
    using read_bounds [of j off n "length L"] ok x K(2) positive by (intro ring_read [OF K(1)]) simp_all
  finally show ?thesis .
qed

lemma erase_inv:
  assumes inv: "dl_inv P bs eb ev mem L d" and run: "data_logger_erase e erase_all progress d = (Inr (), d')"
  shows "dl_inv P bs eb ev mem [] d'"
proof -
  obtain K where K: "contents_inv P bs eb ev (mem (backend d)) L K" using inv by (auto simp: dl_inv_def)
  have m: "physical_blocks d = P" "current_block d = length L" using inv by (simp_all add: dl_inv_def dl_match_def)
  let ?hint = "if erase_all then P else min (length L) P"
  obtain rs where rs: "api_reset (de_api e) = Some rs" using run by (auto simp: data_logger_erase_def split: option.splits)
  obtain rc b where pm: "de_pm_get e (backend d) = (rc, b)" by fastforce
  obtain rc2 b2 w2 where r: "rs ?hint progress b (cb_data d) = (rc2, b2, w2)" by (metis prod_cases3)
  have rc: "rc = Inr ()" using run rs pm by (cases rc) (simp_all add: data_logger_erase_def)
  have rc2: "rc2 = Inr ()" using run rs pm r rc m by (cases erase_all) (simp_all add: data_logger_erase_def Let_def)
  have "d\<lparr>cb_data := w2, current_block := 0, earliest_block := 0, boot_block := 0, backend := de_pm_put e b2,
      dl_flags := (dl_flags d OR DATA_LOGGER_FLAGS_ERASING) AND NOT DATA_LOGGER_FLAGS_ERASING\<rparr> = d'"
    using run rs pm r rc rc2 m by (cases erase_all) (simp_all add: data_logger_erase_def Let_def)
  note d' = this [symmetric]
  have ok: "mem (backend d') = mem b2" "current_block d' = 0" "earliest_block d' = 0"
    "dl_match P bs eb ev d' = dl_match P bs eb ev d"
    unfolding d' by (simp_all add: pm_put_mem dl_match_def)
  have all: "(\<forall>a < ?hint * bs. mem b2 a = ev) \<and> (\<forall>a. mem b2 a = mem (backend d) a \<or> mem b2 a = ev)"
    unfolding pm_get_mem [OF pm, symmetric] using r [unfolded rc2]
    by (intro reset_data [OF rs, of ?hint progress b "cb_data d" b2 w2]) simp_all
  note reset = conjunct1 [OF all] conjunct2 [OF all]
  have "slot_erased bs ev (mem b2) p" if p: "p < P" for p
  proof (cases "p < ?hint")
    case True
    then have "(p + 1) * bs \<le> ?hint * bs" by (intro mult_le_mono1) (simp split: if_splits)
    then show ?thesis unfolding slot_erased_def using reset(1) by (metis add.commute add_less_cancel_left add_mult_distrib less_le_trans mult_1)
  next
    case False
    then have "length L \<le> p" "K = P" using p K by (auto simp: contents_inv_def split: if_splits)
    then have "slot_erased bs ev (mem (backend d)) (p mod P)" using K p by (simp add: contents_inv_def)
    then have "\<forall>i < bs. mem (backend d) (p * bs + i) = ev" using p by (simp add: slot_erased_def)
    then show ?thesis unfolding slot_erased_def using reset(2) by metis
  qed
  then have "contents_inv P bs eb ev (mem b2) [] P" using geometry(6) by (intro contents_empty) simp_all
  moreover have "dl_match P bs eb ev d'" using ok(4) inv by (simp add: dl_inv_def)
  ultimately show ?thesis unfolding dl_inv_def ok(1-3) by auto
qed

end

end
