(* ===== verification/Logger_Recovery.thy ===== *)
theory Logger_Recovery
  imports Logger_Backend
begin

text \<open>
  The recovery of the logger's state at boot, \<open>data_logger_common_init\<close>: from the wrap counters in the storage the
  binary search and the search for the earliest block find the state that the blocks logged before imply.
\<close>

text \<open>An error of a search is an error of a read of a block header.\<close>

definition read_fails :: "('b, 'c) dl_env \<Rightarrow> errno \<Rightarrow> bool" where
  "read_fails e err \<longleftrightarrow> (\<exists>rd p b b'. api_read (de_api e) = Some rd \<and> rd p 0 2 b = (Inl err, b'))"

text \<open>The state that is recovered: all fields that \<open>dl_inv\<close> relates to the storage.\<close>

definition recovered ::
    "('b, 'c) dl_env \<Rightarrow> ('b \<Rightarrow> storage) \<Rightarrow> nat \<Rightarrow> nat \<Rightarrow> ('b, 'c) data_logger_common_data \<Rightarrow>
     unit res \<Rightarrow> ('b, 'c) data_logger_common_data \<Rightarrow> bool" where
  "recovered e mem n ea d rc d' \<longleftrightarrow>
     (case rc of
        Inl err \<Rightarrow> read_fails e err
      | Inr _ \<Rightarrow> current_block d' = n \<and> earliest_block d' = ea \<and> mem (backend d') = mem (backend d) \<and>
          physical_blocks d' = physical_blocks d \<and> logical_blocks d' = logical_blocks d \<and> block_size d' = block_size d \<and>
          erase_size d' = erase_size d \<and> erase_val d' = erase_val d \<and> dl_flags d' = dl_flags d)"

lemma current_block_search_run:
  assumes "api_read (de_api e) = Some rd" "api_search_hint (de_api e) = None" "u32 (physical_blocks d + 4294967295) = h"
    and "block_search rd c 0 h 0 (backend d) = Some (Inr t, b)" "c \<noteq> 1" "0 < physical_blocks d" "0 < block_size d"
    and "u32 ((unat c + 4294967295) * physical_blocks d + t + 1) = n" "u32 (n + 4294967296 - physical_blocks d) = ea"
    and "u32 (2 * (erase_size d div block_size d)) = k"
  shows "current_block_search e c d =
    Some (earliest_search rd k (ea mod physical_blocks d) (d\<lparr>backend := b, current_block := n, earliest_block := ea\<rparr>))"
  using assms by (simp add: current_block_search_def search_range_def)

text \<open>A device that boots: the same storage and configuration, and nothing else of the state before.\<close>

definition fresh_boot ::
    "nat \<Rightarrow> nat \<Rightarrow> nat \<Rightarrow> byte \<Rightarrow> ('b, 'c) data_logger_common_data \<Rightarrow> ('b, 'c) data_logger_common_data \<Rightarrow> bool" where
  "fresh_boot P bs eb ev d d0 \<longleftrightarrow> dl_match P bs eb ev d0 \<and> logical_blocks d0 = logical_blocks d \<and> backend d0 = backend d"

context block_backend
begin

lemma header_in_range: "p < P \<Longrightarrow> p * bs + 2 \<le> P * bs"
proof -
  assume "p < P"
  then have "(p + 1) * bs \<le> P * bs" by (intro mult_le_mono1) simp
  then show ?thesis using geometry(1) by simp
qed

lemma read_header:
  assumes "api_read (de_api e) = Some rd" "p < P" "rd p 0 2 b = (res, b')"
  shows "mem b' = mem b" "\<And>bytes. res = Inr bytes \<Longrightarrow> bytes ! 0 = mem b (p * bs)" "\<And>err. res = Inl err \<Longrightarrow> read_fails e err"
proof -
  show "mem b' = mem b" using read_mem [OF assms(1) assms(3)] .
  show "bytes ! 0 = mem b (p * bs)" if "res = Inr bytes" for bytes
    using read_data [OF assms(1), of p 0 2 b bytes b'] assms that header_in_range [OF assms(2)] by simp
  show "read_fails e err" if "res = Inl err" for err using assms that by (auto simp: read_fails_def)
qed

lemma block_search_finds:
  assumes rd: "api_read (de_api e) = Some rd" and t: "t < P" "\<And>p. p < P \<Longrightarrow> (m (p * bs) = c) = (p \<le> t)"
    and "mem b = m" "low \<le> t + 1" "t \<le> high" "high < P" "0 < low \<longrightarrow> found = low - 1"
  shows "\<exists>rc b'. block_search rd c low high found b = Some (rc, b') \<and> mem b' = m \<and>
    (rc = Inr t \<or> (\<exists>err. rc = Inl err \<and> read_fails e err))"
  using assms(4-)
proof (induction "high + 1 - low" arbitrary: low high found b rule: less_induct)
  case less
  show ?case
  proof (cases "high < low")
    case True
    then show ?thesis using less.prems by (subst block_search.simps) auto
  next
    case False
    let ?mid = "(low + high) div 2"
    have P: "P < 4294967296" using geometry(8) by simp
    have mid: "low \<le> ?mid" "?mid \<le> high" "?mid < P" "u32 (low + high) = low + high" "u32 (?mid + 1) = ?mid + 1"
      using False less.prems geometry(8) by (simp_all add: u32_def)
    obtain res b1 where r: "rd ?mid 0 2 b = (res, b1)" by fastforce
    note h = read_header [OF rd mid(3) r]
    show ?thesis
    proof (cases res)
      case (Inl err)
      then show ?thesis using False h r mid less.prems by (subst block_search.simps) (auto simp: Let_def)
    next
      case (Inr bytes)
      have b0: "bytes ! 0 = m (?mid * bs)" using h(2) [OF Inr] less.prems(1) by simp
      have m1: "mem b1 = m" using h(1) less.prems(1) by simp
      show ?thesis
      proof (cases "?mid \<le> t")
        case True
        then have "block_search rd c low high found b = block_search rd c (?mid + 1) high ?mid b1"
          using False r Inr b0 t(2) [OF mid(3)] mid by (subst block_search.simps) (simp add: Let_def)
        moreover have "\<exists>rc b'. block_search rd c (?mid + 1) high ?mid b1 = Some (rc, b') \<and> mem b' = m \<and>
            (rc = Inr t \<or> (\<exists>err. rc = Inl err \<and> read_fails e err))"
          using True m1 less.prems False mid by (intro less.hyps) auto
        ultimately show ?thesis by simp
      next
        case gt: False
        then have s: "u32 (?mid + 4294967295) = ?mid - 1"
          using mid(3) P u32_sub [of 1 ?mid] by (simp add: add.commute)
        then have "block_search rd c low high found b = block_search rd c low (?mid - 1) found b1"
          using False gt r Inr b0 t(2) [OF mid(3)] mid by (subst block_search.simps) (simp add: Let_def)
        moreover have "\<exists>rc b'. block_search rd c low (?mid - 1) found b1 = Some (rc, b') \<and> mem b' = m \<and>
            (rc = Inr t \<or> (\<exists>err. rc = Inl err \<and> read_fails e err))"
          using gt m1 less.prems False mid by (intro less.hyps) auto
        ultimately show ?thesis by simp
      qed
    qed
  qed
qed

lemma block_search_whole:
  assumes "api_read (de_api e) = Some rd" "t < P" "\<And>p. p < P \<Longrightarrow> (mem b (p * bs) = c) = (p \<le> t)"
  obtains rc b' where "block_search rd c 0 (P - 1) 0 b = Some (rc, b')" "mem b' = mem b"
    "rc = Inr t \<or> (\<exists>err. rc = Inl err \<and> read_fails e err)"
proof -
  have "t \<le> P - 1" "P - 1 < P" using assms(2) by simp_all
  then show ?thesis using block_search_finds [OF assms refl, of 0 "P - 1" 0] that by auto
qed

text \<open>The search for the earliest block passes the erased blocks, of which there are \<open>c\<close>.\<close>

lemma earliest_search_finds:
  assumes rd: "api_read (de_api e) = Some rd"
    and "\<And>i. i < c \<Longrightarrow> erased_wrap (mem (backend d) ((p + i) * bs))" "p < P" "p + c \<le> P"
    and "if p + c < P then \<not> erased_wrap (mem (backend d) ((p + c) * bs)) \<and> c < k else c \<le> k"
    and "physical_blocks d = P" "earliest_block d + c < 4294967296"
  shows "\<exists>rc b' ea. earliest_search rd k p d = (rc, d\<lparr>backend := b', earliest_block := ea\<rparr>) \<and> mem b' = mem (backend d) \<and>
    (rc = Inr () \<and> ea = earliest_block d + c \<or> (\<exists>err. rc = Inl err \<and> read_fails e err))"
  using assms(2-)
proof (induction c arbitrary: p k d)
  case 0
  then obtain k' where k: "k = Suc k'" by (cases k) auto
  obtain res b1 where r: "rd p 0 2 (backend d) = (res, b1)" by fastforce
  note h = read_header [OF rd 0(2) r]
  show ?case
  proof (cases res)
    case (Inl err)
    then show ?thesis using k r h by (auto intro!: exI [of _ "earliest_block d"])
  next
    case (Inr bytes)
    then have "\<not> erased_wrap (bytes ! 0)" using h(2) [OF Inr] 0 by simp
    then show ?thesis using k r h(1) Inr by (auto simp: erased_wrap_def Let_def intro!: exI [of _ "earliest_block d"])
  qed
next
  case (Suc c)
  then obtain k' where k: "k = Suc k'" by (cases k) (auto split: if_splits)
  obtain res b1 where r: "rd p 0 2 (backend d) = (res, b1)" by fastforce
  note h = read_header [OF rd Suc.prems(2) r]
  let ?d = "d\<lparr>backend := b1, earliest_block := earliest_block d + 1\<rparr>"
  show ?case
  proof (cases res)
    case (Inl err)
    then show ?thesis using k r h by (auto intro!: exI [of _ "earliest_block d"])
  next
    case (Inr bytes)
    have "erased_wrap (bytes ! 0)" using h(2) [OF Inr] Suc.prems(1) [of 0] by simp
    moreover have "u32 (earliest_block d + 1) = earliest_block d + 1" using Suc.prems(6) by simp
    ultimately have run: "earliest_search rd k p d = (if p + 1 = P then (Inr (), ?d) else earliest_search rd k' (p + 1) ?d)"
      using k r Inr Suc.prems(5) by (auto simp: erased_wrap_def Let_def)
    show ?thesis
    proof (cases "p + 1 = P")
      case True
      then have "c = 0" using Suc.prems(3) by simp
      then show ?thesis using run True h(1) by auto
    next
      case False
      have "\<exists>rc b' ea. earliest_search rd k' (p + 1) ?d = (rc, ?d\<lparr>backend := b', earliest_block := ea\<rparr>) \<and> mem b' = mem (backend ?d) \<and>
          (rc = Inr () \<and> ea = earliest_block ?d + c \<or> (\<exists>err. rc = Inl err \<and> read_fails e err))"
      proof (rule Suc.IH)
        show "erased_wrap (mem (backend ?d) ((p + 1 + i) * bs))" if "i < c" for i
          using Suc.prems(1) [of "Suc i"] that h(1) by simp
        show "if p + 1 + c < P then \<not> erased_wrap (mem (backend ?d) ((p + 1 + c) * bs)) \<and> c < k' else c \<le> k'"
          using Suc.prems(4) k h(1) by (auto split: if_splits)
      qed (use Suc.prems False in auto)
      then show ?thesis using run False h(1) by auto
    qed
  qed
qed

text \<open>The headers in the storage.\<close>

lemma header_live:
  assumes "contents_inv P bs eb ev m L K" "K - P \<le> j" "j < length L"
  shows "m (j mod P * bs) = word_of_nat (j div P + 1)"
proof -
  have "slot_holds bs m (j mod P) (pad_block bs ev (L ! j))" "block_ok P bs j (L ! j)"
    using assms by (simp_all add: contents_inv_def)
  then have "m (j mod P * bs) = pad_block bs ev (L ! j) ! 0" "2 \<le> length (L ! j)" "L ! j ! 0 = word_of_nat (j div P + 1)"
    using positive by (auto simp: slot_holds_def block_ok_def dest: spec [of _ 0])
  then show ?thesis by (auto simp: pad_block_def nth_append)
qed

lemma header_erased:
  assumes "contents_inv P bs eb ev m L K" "length L \<le> j" "j < K"
  shows "m (j mod P * bs) = ev"
proof -
  have "slot_erased bs ev m (j mod P)" using assms by (simp add: contents_inv_def)
  then show ?thesis using positive(2) by (auto simp: slot_erased_def dest: spec [of _ 0])
qed

lemma wrap_value:
  assumes "0 < k" "k < 255"
  shows "unat (word_of_nat k :: byte) = k" "\<not> erased_wrap (word_of_nat k)"
proof -
  show u: "unat (word_of_nat k :: byte) = k" using assms by (simp add: unat_of_nat)
  then show "\<not> erased_wrap (word_of_nat k)" using assms by (auto simp: erased_wrap_def dest: arg_cong [of _ _ unat])
qed

lemma wrap_differs:
  assumes "0 < k" "k < 255" "k' < 255" "k \<noteq> k'"
  shows "(word_of_nat k :: byte) \<noteq> word_of_nat k'" "(word_of_nat k :: byte) \<noteq> ev"
proof -
  have "unat (word_of_nat k' :: byte) = k'" using assms by (simp add: unat_of_nat)
  then show "(word_of_nat k :: byte) \<noteq> word_of_nat k'" using wrap_value(1) [OF assms(1,2)] assms(4) by metis
  show "(word_of_nat k :: byte) \<noteq> ev" using wrap_value(2) [OF assms(1,2)] erased_value by metis
qed

text \<open>The prepared slots end with the current pass over the ring, and an unwritten chunk is exactly one.\<close>

lemma frontier_in_pass:
  assumes inv: "contents_inv P bs eb ev m L K"
  shows "length L mod P \<noteq> 0 \<Longrightarrow> K \<le> (length L div P + 1) * P"
    and "length L mod P = 0 \<Longrightarrow> P \<le> length L \<Longrightarrow> K = length L \<or> K = length L + eb"
proof -
  let ?n = "length L" and ?N = "(length L div P + 1) * P"
  have K: "eb dvd K" "if ?n < P then K = P else ?n \<le> K \<and> K \<le> ?n + eb" using inv by (simp_all add: contents_inv_def)
  have n: "?n < ?N" using positive(1) by (metis Suc_eq_plus1 add.commute dividend_less_div_times mult_Suc)
  show "K \<le> ?N" if "?n mod P \<noteq> 0"
  proof (rule ccontr)
    assume "\<not> K \<le> ?N"
    moreover have "eb dvd K - ?N" using K(1) geometry(6) by (simp add: dvd_diff_nat)
    ultimately have "eb \<le> K - ?N" by (intro dvd_imp_le) simp_all
    then show False using K(2) n \<open>\<not> K \<le> ?N\<close> by (auto split: if_splits)
  qed
  show "K = ?n \<or> K = ?n + eb" if "?n mod P = 0" "P \<le> ?n"
  proof -
    have "eb dvd ?n" using that(1) geometry(6) by (meson dvd_trans mod_eq_0_iff_dvd)
    then have "eb dvd K - ?n" using K(1) by (simp add: dvd_diff_nat)
    then have "K - ?n = 0 \<or> eb \<le> K - ?n" by (meson dvd_imp_le not_gr_zero)
    then show ?thesis using K(2) that(2) by auto
  qed
qed

lemma current_search_first_pass:
  assumes inv: "contents_inv P bs eb ev (mem (backend d)) L K" and n: "0 < length L" "length L < P"
    and m: "dl_match P bs eb ev d" "length L \<le> 254 * P"
  shows "\<exists>rc d'. current_block_search e 1 d = Some (rc, d') \<and> recovered e mem (length L) 0 d rc d'"
proof -
  obtain rd where rd: "api_read (de_api e) = Some rd" using readable by blast
  have K: "K = P" using inv n by (simp add: contents_inv_def)
  have hdr: "(mem (backend d) (p * bs) = 1) = (p \<le> length L - 1)" if "p < P" for p
  proof (cases "p < length L")
    case True
    then show ?thesis using header_live [OF inv, of p] that K by auto
  next
    case False
    then have "\<not> p \<le> length L - 1" using n(1) by linarith
    then show ?thesis using header_erased [OF inv, of p] that K False erased_value by (auto simp: erased_wrap_def)
  qed
  obtain rc b' where b: "block_search rd 1 0 (P - 1) 0 (backend d) = Some (rc, b')" "mem b' = mem (backend d)"
    "rc = Inr (length L - 1) \<or> (\<exists>err. rc = Inl err \<and> read_fails e err)"
    using block_search_whole [OF rd _ hdr] n by (metis diff_le_self order_le_less_trans)
  have P: "u32 (P + 4294967295) = P - 1" "P < 4294967296"
    using u32_sub [of 1 P] positive(1) geometry(8) by (simp_all add: add.commute)
  obtain t where t: "length L = Suc t" using n(1) by (cases "length L") auto
  have "Suc (4294967296 * P + t) = Suc t + P * 4294967296" "Suc t < 4294967296" using n(2) P(2) t by simp_all
  then have "u32 (Suc (4294967296 * P + t)) = Suc t" by (simp only: u32_def mod_mult_self1 mod_less)
  then show ?thesis using rd b P m t no_hint
    by (auto simp: current_block_search_def search_range_def dl_match_def recovered_def)
qed

lemma header_pass:
  assumes inv: "contents_inv P bs eb ev m L K" and n: "P \<le> length L" "length L mod P \<noteq> 0" "length L div P < 254" and p: "p < P"
  shows "(m (p * bs) = word_of_nat (length L div P + 1)) = (p \<le> length L mod P - 1)"
proof -
  let ?w = "length L div P" and ?r = "length L mod P"
  let ?j = "?w * P + p"
  have L: "length L = ?w * P + ?r" by simp
  have K: "K \<le> ?w * P + P" using frontier_in_pass(1) [OF inv n(2)] by (simp add: add.commute)
  have j: "?j mod P = p" "?j div P = ?w" using p by simp_all
  have w: "0 < ?w" using n(1) positive(1) by (simp add: div_greater_zero_iff)
  show ?thesis
  proof (cases "p < ?r")
    case True
    then show ?thesis using header_live [OF inv, of ?j] L K j by simp
  next
    case False
    have "m (p * bs) \<noteq> word_of_nat (?w + 1)"
    proof (cases "?j < K")
      case True
      then show ?thesis using header_erased [OF inv, of ?j] False L j wrap_differs(2) [of "?w + 1" 0] n(3) by auto
    next
      case jK: False
      have pj: "?j - P = (?w - 1) * P + p" using w by (simp add: diff_mult_distrib)
      then have "(?j - P) mod P = p" "(?j - P) div P = ?w - 1" using p by simp_all
      moreover have "K - P \<le> ?j - P" "?j - P < length L" using jK p L n(1) by linarith+
      ultimately have "m (p * bs) = word_of_nat (?w - 1 + 1)" using header_live [OF inv, of "?j - P"] by simp
      then show ?thesis using wrap_differs(1) [of "?w + 1" "?w"] w n(3) by auto
    qed
    then show ?thesis using False n(2) by auto
  qed
qed

lemma earliest_search_later_pass:
  assumes rd: "api_read (de_api e) = Some rd" and inv: "contents_inv P bs eb ev (mem (backend d)) L K"
    and n: "P \<le> length L" "length L mod P \<noteq> 0" "length L div P < 254"
    and d: "physical_blocks d = P" "earliest_block d = length L - P"
  shows "\<exists>rc b' ea. earliest_search rd (2 * eb) (length L mod P) d = (rc, d\<lparr>backend := b', earliest_block := ea\<rparr>) \<and>
    mem b' = mem (backend d) \<and> (rc = Inr () \<and> ea = K - P \<or> (\<exists>err. rc = Inl err \<and> read_fails e err))"
proof -
  let ?w = "length L div P" and ?r = "length L mod P"
  have w: "0 < ?w" using n(1) positive(1) by (simp add: div_greater_zero_iff)
  have r: "?r < P" "length L = ?w * P + ?r" using positive(1) by simp_all
  have K: "length L \<le> K" "K \<le> ?w * P + P" "K \<le> length L + eb"
    using frontier_in_pass(1) [OF inv n(2)] inv n(1) by (simp_all add: add.commute contents_inv_def)
  define c where "c = K - length L"
  have c: "c \<le> eb" "?r + c \<le> P" "earliest_block d + c = K - P" "length L + c = K" "K - P \<le> ?w * P"
    using K r(2) d(2) n(1) unfolding c_def by linarith+
  have "?w * P \<le> 253 * P" using n(3) by (intro mult_le_mono1) simp
  then have fits: "earliest_block d + c < 4294967296" using c(3,5) geometry(8) by linarith
  have erased: "erased_wrap (mem (backend d) ((?r + i) * bs))" if "i < c" for i
  proof -
    have "?r + i < P" using that c(2) by linarith
    then have "(length L + i) mod P = ?r + i" by (metis mod_add_left_eq mod_less)
    then show ?thesis using header_erased [OF inv, of "length L + i"] that c(4) erased_value by simp
  qed
  have live: "\<not> erased_wrap (mem (backend d) ((?r + c) * bs))" if "?r + c < P"
  proof -
    have "K - P = (?w - 1) * P + (?r + c)" using c(4) r(2) w by (simp add: diff_mult_distrib)
    then have "(K - P) div P = ?w - 1" "(K - P) mod P = ?r + c" using that by simp_all
    moreover have "K - P < length L" using K(3) geometry(5) n(1) positive(1) by linarith
    ultimately have "mem (backend d) ((?r + c) * bs) = word_of_nat (?w - 1 + 1)"
      using header_live [OF inv, of "K - P"] by (simp only: order_refl simp_thms)
    then show ?thesis using wrap_value(2) [of "?w - 1 + 1"] n(3) by (simp only:) simp
  qed
  have "if ?r + c < P then \<not> erased_wrap (mem (backend d) ((?r + c) * bs)) \<and> c < 2 * eb else c \<le> 2 * eb"
    using live c(1) geometry(3) by auto
  from earliest_search_finds [OF rd erased r(1) c(2) this d(1) fits] show ?thesis unfolding c(3) .
qed

lemma current_search_later_pass:
  assumes inv: "contents_inv P bs eb ev (mem (backend d)) L K" and n: "P \<le> length L" "length L mod P \<noteq> 0" "length L div P < 254"
    and m: "dl_match P bs eb ev d" and counter: "c = word_of_nat (length L div P + 1)"
  shows "\<exists>rc d'. current_block_search e c d = Some (rc, d') \<and> recovered e mem (length L) (K - P) d rc d'"
proof -
  let ?w = "length L div P" and ?r = "length L mod P"
  obtain rd where rd: "api_read (de_api e) = Some rd" using readable by blast
  have c: "unat c = ?w + 1" unfolding counter using n(3) by (intro wrap_value) simp_all
  have w: "0 < ?w" using n(1) positive(1) by (simp add: div_greater_zero_iff)
  have c1: "c \<noteq> 1" using c w by (metis One_nat_def add_eq_self_zero add_is_1 not_gr_zero unat_1)
  have r: "?r < P" "length L = ?w * P + ?r" using positive(1) by simp_all
  obtain rc b' where b: "block_search rd c 0 (P - 1) 0 (backend d) = Some (rc, b')" "mem b' = mem (backend d)"
    "rc = Inr (?r - 1) \<or> (\<exists>err. rc = Inl err \<and> read_fails e err)"
    using block_search_whole [OF rd _ header_pass [OF inv n, folded counter]] r(1) by (metis diff_le_self order_le_less_trans)
  have "?w * P \<le> 253 * P" using n(3) by (intro mult_le_mono1) simp
  then have len: "length L < 4294967296" using geometry(8) r by linarith
  have P: "u32 (P + 4294967295) = P - 1" using u32_sub [of 1 P] positive(1) geometry(8) by (simp add: add.commute)
  note P = P len
  have cur: "u32 ((unat c + 4294967295) * P + (?r - 1) + 1) = length L"
  proof -
    have "(unat c + 4294967295) * P = ?w * P + P * 4294967296" unfolding c by (simp add: algebra_simps)
    then have "(unat c + 4294967295) * P + (?r - 1) + 1 = length L + P * 4294967296" using r(2) n(2) by linarith
    then show ?thesis using len by (simp only: u32_def mod_mult_self1 mod_less)
  qed
  show ?thesis
  proof (cases rc)
    case (Inl err)
    then show ?thesis using rd b P no_hint m by (auto simp: current_block_search_def search_range_def dl_match_def recovered_def)
  next
    case (Inr t)
    let ?d = "d\<lparr>backend := b', current_block := length L, earliest_block := length L - P\<rparr>"
    have d: "contents_inv P bs eb ev (mem (backend ?d)) L K" "physical_blocks ?d = P" "earliest_block ?d = length L - P"
      using inv b(2) m by (simp_all add: dl_match_def)
    obtain rc2 b2 ea where es: "earliest_search rd (2 * eb) ?r ?d = (rc2, ?d\<lparr>backend := b2, earliest_block := ea\<rparr>)"
      "mem b2 = mem (backend ?d)" "rc2 = Inr () \<and> ea = K - P \<or> (\<exists>err. rc2 = Inl err \<and> read_fails e err)"
      using earliest_search_later_pass [OF rd d(1) n d(2,3)] by blast
    have ph: "physical_blocks d = P" "0 < physical_blocks d" "0 < block_size d" using m positive by (simp_all add: dl_match_def)
    have k: "u32 (2 * (erase_size d div block_size d)) = 2 * eb" using erase_unit(2) [OF m] geometry(4) by simp
    have t: "t = ?r - 1" using b(3) Inr by simp
    have "(length L - P) mod P = ?r" using n(1) by (simp add: le_mod_geq)
    then have "current_block_search e c d = Some (earliest_search rd (2 * eb) ?r ?d)"
      using current_block_search_run [OF rd no_hint _ _ c1 ph(2,3) _ _ k] P(1) b(1) cur u32_sub [OF n(1) P(2)]
      unfolding ph(1) Inr t by metis
    then show ?thesis using es b(2) by (auto simp: recovered_def)
  qed
qed

lemma recover_full_pass:
  assumes inv: "contents_inv P bs eb ev (mem (backend d)) L K" and n: "P \<le> length L" "length L mod P = 0" "length L \<le> 254 * P"
    and m: "dl_match P bs eb ev d"
  shows "\<exists>rc d'. recover_state e (mem (backend d) 0) (mem (backend d) ((P - 1) * bs)) d = Some (rc, d') \<and>
    recovered e mem (length L) (K - P) d rc d'"
proof -
  let ?w = "length L div P" and ?m = "mem (backend d)"
  have L: "length L = ?w * P" using n(2) by auto
  have w: "0 < ?w" "?w < 255" using n(1,3) positive(1) by (simp_all add: div_greater_zero_iff less_mult_imp_div_less)
  have fits: "length L < 4294967296" using n(3) geometry(8) by linarith
  have K: "length L \<le> K" "K \<le> length L + eb" using inv n(1) by (simp_all add: contents_inv_def)
  have uw: "unat (word_of_nat ?w :: byte) = ?w" "\<not> erased_wrap (word_of_nat ?w)" using wrap_value [OF w] .
  have eu: "u16 (erase_size d div block_size d) = eb" "block_size d = bs" "physical_blocks d = P"
    using erase_unit [OF m] m by (simp_all add: dl_match_def)
  have j1: "(length L - 1) div P = ?w - 1" "(length L - 1) mod P = P - 1"
  proof -
    obtain q w' where q: "P = Suc q" "?w = Suc w'" using positive(1) w(1) by (metis Suc_pred)
    then have "length L - 1 = w' * P + q" using L by simp
    moreover have "(w' * P + q) div P = w'" "(w' * P + q) mod P = q" using q(1) by (simp_all only: div_mult_self3 mod_mult_self3) simp_all
    ultimately show "(length L - 1) div P = ?w - 1" "(length L - 1) mod P = P - 1" using q by (simp_all only: diff_Suc_1)
  qed
  have "K - P \<le> length L - 1" "length L - 1 < length L" using K geometry(5) n(1) positive(1) by linarith+
  then have lst: "?m ((P - 1) * bs) = word_of_nat ?w" using header_live [OF inv, of "length L - 1"] j1 w(1) by simp
  have cur: "u32 (?w * P) = length L" "u32 (length L + 4294967296 - P) = length L - P" using L fits u32_sub [OF n(1) fits] by simp_all
  consider "K = length L" | "K = length L + eb" using frontier_in_pass(2) [OF inv n(2,1)] by blast
  then show ?thesis
  proof cases
    case 1
    have "(length L - P) div P = ?w - 1" "(length L - P) mod P = 0" using n(1,2) by (simp_all add: le_div_geq le_mod_geq positive)
    then have "?m 0 = word_of_nat ?w" using header_live [OF inv, of "length L - P"] 1 n(1) positive(1) w(1) by simp
    then show ?thesis using lst 1 uw eu cur positive by (simp add: recover_state_def recovered_def Let_def)
  next
    case 2
    then have first: "?m 0 = ev" using header_erased [OF inv, of "length L"] n(2) geometry(3) by simp
    have "u32 (length L + 4294967296 - P + eb) = length L - P + eb"
    proof -
      have "length L + 4294967296 - P + eb = (length L - P + eb) + 4294967296" using n(1) by linarith
      moreover have "length L - P + eb < 4294967296" using fits geometry(5) n(1) by linarith
      ultimately show ?thesis by (simp only: u32_def mod_add_self2 mod_less)
    qed
    moreover have "ev \<noteq> word_of_nat ?w" using uw(2) erased_value by metis
    moreover have "K - P = length L - P + eb" using 2 n(1) by linarith
    ultimately show ?thesis using lst first uw eu cur positive erased_value by (simp add: recover_state_def recovered_def Let_def)
  qed
qed

lemma recover_state_exact:
  assumes inv: "contents_inv P bs eb ev (mem (backend d)) L K" and n: "length L \<le> 254 * P"
    and m: "dl_match P bs eb ev d" "earliest_block d = 0"
  shows "\<exists>rc d'. recover_state e (mem (backend d) 0) (mem (backend d) ((P - 1) * bs)) d = Some (rc, d') \<and>
    recovered e mem (length L) (K - P) d rc d'"
proof -
  let ?m = "mem (backend d)"
  have bs: "block_size d \<noteq> 0" using m(1) positive by (simp add: dl_match_def)
  consider (empty) "length L = 0" | (first) "0 < length L" "length L < P"
    | (full) "P \<le> length L" "length L mod P = 0" | (later) "P \<le> length L" "length L mod P \<noteq> 0" by linarith
  then show ?thesis
  proof cases
    case empty
    then have "K = P" using inv positive by (simp add: contents_inv_def)
    moreover from this have "?m (p * bs) = ev" if "p < P" for p using header_erased [OF inv, of p] that empty by simp
    from this [of 0] this [of "P - 1"] have "?m 0 = ev" "?m ((P - 1) * bs) = ev" using positive by simp_all
    ultimately show ?thesis using empty bs m(2) erased_value by (simp add: recover_state_def recovered_def)
  next
    case first
    then have K: "K = P" using inv by (simp add: contents_inv_def)
    have h: "?m 0 = 1" using header_live [OF inv, of 0] K first by simp
    have l: "?m ((P - 1) * bs) = ev" using header_erased [OF inv, of "P - 1"] K first by simp
    have "1 \<noteq> ev" "\<not> erased_wrap 1" using erased_value by (auto simp: erased_wrap_def)
    then have "recover_state e (?m 0) (?m ((P - 1) * bs)) d = current_block_search e 1 d"
      using bs h l by (simp add: recover_state_def)
    then show ?thesis using current_search_first_pass [OF inv first m(1) n] K by simp
  next
    case full
    then show ?thesis using recover_full_pass [OF inv full n m(1)] by simp
  next
    case later
    let ?c = "word_of_nat (length L div P + 1) :: byte"
    have "length L < 254 * P" using n later(2) by (cases "length L = 254 * P") auto
    then have w: "length L div P < 254" by (simp add: less_mult_imp_div_less)
    have h: "?m 0 = ?c" using header_pass [OF inv later w, of 0] positive by simp
    have "\<not> P - 1 \<le> length L mod P - 1" using later(2) mod_less_divisor [OF positive(1), of "length L"] by linarith
    then have l: "?m ((P - 1) * bs) \<noteq> ?c" using header_pass [OF inv later w, of "P - 1"] positive by simp
    have "\<not> erased_wrap ?c" using w by (intro wrap_value) simp_all
    then have "recover_state e (?m 0) (?m ((P - 1) * bs)) d = current_block_search e ?c d"
      using bs h l unfolding recover_state_def Let_def by (simp only: if_False simp_thms) metis
    then show ?thesis using current_search_later_pass [OF inv later w m(1) refl] by simp
  qed
qed

text \<open>Booting the device on the storage of a logger.\<close>

lemma init_recovers:
  assumes old: "dl_inv P bs eb ev mem L dx" and fresh: "fresh_boot P bs eb ev dx d"
  obtains rc d' where "data_logger_common_init e d = Some (rc, d')"
    "(\<exists>err. rc = Inl err \<and> read_fails e err) \<or>
     rc = Inr () \<and> dl_inv P bs eb ev mem L d' \<and> earliest_block d' \<le> earliest_block dx \<and>
       earliest_block d' + P \<le> max P (length L + eb) \<and> boot_block d' = length L \<and> dl_flags d' = 0"
proof -
  obtain rd where rd: "api_read (de_api e) = Some rd" using readable by blast
  obtain K where K: "contents_inv P bs eb ev (mem (backend d)) L K" "K \<le> earliest_block dx + P"
    using old fresh by (auto simp: dl_inv_def fresh_boot_def)
  have n: "length L \<le> 254 * P" and m: "dl_match P bs eb ev d" using old fresh by (auto simp: dl_inv_def dl_match_def fresh_boot_def)
  have PP: "physical_blocks d = P" "u32 (P + 4294967295) = P - 1"
    using m u32_sub [of 1 P] positive(1) geometry(8) by (simp_all add: dl_match_def add.commute)
  obtain r1 b1 where r1: "rd 0 0 2 (backend d) = (r1, b1)" by fastforce
  obtain r2 b2 where r2: "rd (P - 1) 0 2 b1 = (r2, b2)" by fastforce
  have "0 < P" "P - 1 < P" using positive(1) by simp_all
  note h1 = read_header [OF rd this(1) r1] and h2 = read_header [OF rd this(2) r2]
  let ?d = "d\<lparr>callbacks := [], bytes_logged := 0, boot_block := 0, current_block := 0, earliest_block := 0, dl_flags := 0, backend := b2\<rparr>"
  consider (e1) err where "r1 = Inl err" | (e2) err f where "r1 = Inr f" "r2 = Inl err" | (ok) f l where "r1 = Inr f" "r2 = Inr l"
    by (cases r1; cases r2) auto
  then show ?thesis
  proof cases
    case e1
    then show ?thesis using that rd r1 h1(3) by (auto simp: data_logger_common_init_def Let_def)
  next
    case e2
    then show ?thesis using that rd r1 r2 h2(3) PP by (auto simp: data_logger_common_init_def Let_def)
  next
    case ok
    have mem2: "mem b2 = mem (backend d)" using h1(1) h2(1) by simp
    have d: "contents_inv P bs eb ev (mem (backend ?d)) L K" "dl_match P bs eb ev ?d" "earliest_block ?d = 0"
      using K(1) m mem2 by (simp_all add: dl_match_def)
    obtain rc d' where r: "recover_state e (mem (backend ?d) 0) (mem (backend ?d) ((P - 1) * bs)) ?d = Some (rc, d')"
      "recovered e mem (length L) (K - P) ?d rc d'"
      using recover_state_exact [OF d(1) n d(2,3)] by blast
    have hd: "f ! 0 = mem b2 0" "l ! 0 = mem b2 ((P - 1) * bs)" using h1(2) [OF ok(1)] h2(1) h2(2) [OF ok(2)] mem2 by simp_all
    let ?d'' = "case rc of Inl _ \<Rightarrow> d' | Inr _ \<Rightarrow> d'\<lparr>boot_block := current_block d'\<rparr>"
    have run: "data_logger_common_init e d = Some (rc, ?d'')"
      using rd r1 r2 ok PP r(1) hd by (simp add: data_logger_common_init_def Let_def split: sum.splits)
    show ?thesis
    proof (rule that [OF run], cases rc)
      case (Inr u)
      have "if length L < P then K = P else length L \<le> K \<and> K \<le> length L + eb" using K(1) by (simp add: contents_inv_def)
      then have k: "K - P + P \<le> max P (length L + eb)" "K - P \<le> earliest_block dx" using K(2) by (cases "length L < P"; simp)+
      have "K \<le> K - P + P" by simp
      then have "dl_inv P bs eb ev mem L ?d''" using r(2) Inr d(1,2) old fresh by (auto simp: recovered_def dl_inv_def dl_match_def fresh_boot_def)
      then show "(\<exists>err. rc = Inl err \<and> read_fails e err) \<or> rc = Inr () \<and> dl_inv P bs eb ev mem L ?d'' \<and>
          earliest_block ?d'' \<le> earliest_block dx \<and> earliest_block ?d'' + P \<le> max P (length L + eb) \<and> boot_block ?d'' = length L \<and> dl_flags ?d'' = 0"
        using r(2) Inr k by (simp add: recovered_def)
    qed (use r(2) in \<open>auto simp: recovered_def\<close>)
  qed
qed

end

subsection \<open>Reachable states\<close>

text \<open>
  The effect of a failed write on the storage that is allowed for: none, or that the next chunk was erased and
  dropped from the log before the block could be written.
\<close>

definition failed_clean ::
    "('b \<Rightarrow> storage) \<Rightarrow> nat \<Rightarrow> nat \<Rightarrow> nat \<Rightarrow> byte \<Rightarrow> ('b, 'c) data_logger_common_data \<Rightarrow> ('b, 'c) data_logger_common_data \<Rightarrow> bool" where
  "failed_clean mem P bs eb ev d d' \<longleftrightarrow>
     mem (backend d') = mem (backend d) \<or>
     (P \<le> current_block d \<and> eb dvd current_block d \<and> earliest_block d' = earliest_block d + eb \<and>
      mem (backend d') = fill_bytes ((current_block d mod P) * bs) (eb * bs) ev (mem (backend d)))"

definition write_args :: "nat \<Rightarrow> nat \<Rightarrow> ('b, 'c) data_logger_common_data \<Rightarrow> byte list \<Rightarrow> nat \<Rightarrow> bool" where
  "write_args bs eb d block n \<longleftrightarrow>
     2 \<le> n \<and> n \<le> bs \<and> bs \<le> length block \<and> dl_flags d AND DATA_LOGGER_FLAGS_ERASING = 0 \<and> earliest_block d + eb < 4294967296"

text \<open>
  The states of a logger from erased storage on, with the blocks logged: after writes that succeed or fail, reads,
  erasing the logger, and reboots. A write has a buffer of a block with at least the header, and is not made while
  the logger is erased.
\<close>

inductive dl_reach ::
    "('b, 'c) dl_env \<Rightarrow> ('b \<Rightarrow> storage) \<Rightarrow> nat \<Rightarrow> nat \<Rightarrow> nat \<Rightarrow> byte \<Rightarrow> byte list list \<Rightarrow> ('b, 'c) data_logger_common_data \<Rightarrow> bool"
  for e mem P bs eb ev where
  start: "dl_match P bs eb ev d \<Longrightarrow> current_block d = 0 \<Longrightarrow> earliest_block d = 0 \<Longrightarrow>
    (\<forall>p < P. slot_erased bs ev (mem (backend d)) p) \<Longrightarrow> dl_reach e mem P bs eb ev [] d"
| written: "dl_reach e mem P bs eb ev L d \<Longrightarrow> write_args bs eb d block n \<Longrightarrow>
    data_logger_block_write e ty block n d = Some (Inr (), block', d') \<Longrightarrow>
    dl_reach e mem P bs eb ev (L @ [logged_block e P ev (length L) ty block n]) d'"
| write_failed: "dl_reach e mem P bs eb ev L d \<Longrightarrow> write_args bs eb d block n \<Longrightarrow>
    data_logger_block_write e ty block n d = Some (Inl err, block', d') \<Longrightarrow> failed_clean mem P bs eb ev d d' \<Longrightarrow>
    dl_reach e mem P bs eb ev L d'"
| read: "dl_reach e mem P bs eb ev L d \<Longrightarrow> data_logger_block_read e j off n d = Some (rc, d') \<Longrightarrow> dl_reach e mem P bs eb ev L d'"
| erased: "dl_reach e mem P bs eb ev L d \<Longrightarrow> data_logger_erase e erase_all progress d = (Inr (), d') \<Longrightarrow>
    dl_reach e mem P bs eb ev [] d'"
| reboot: "dl_reach e mem P bs eb ev L d \<Longrightarrow> fresh_boot P bs eb ev d d0 \<Longrightarrow>
    data_logger_common_init e d0 = Some (Inr (), d') \<Longrightarrow> dl_reach e mem P bs eb ev L d'"
| register: "dl_reach e mem P bs eb ev L d \<Longrightarrow> dl_reach e mem P bs eb ev L (data_logger_register_cb cb d)"

lemma dl_inv_backend:
  assumes "dl_inv P bs eb ev mem L d" "d'\<lparr>backend := backend d\<rparr> = d" "mem (backend d') = mem (backend d)"
  shows "dl_inv P bs eb ev mem L d'"
proof -
  note f = arg_cong [OF assms(2)]
  have "physical_blocks d' = physical_blocks d" "logical_blocks d' = logical_blocks d" "block_size d' = block_size d"
    "erase_size d' = erase_size d" "erase_val d' = erase_val d" "current_block d' = current_block d" "earliest_block d' = earliest_block d"
    using f [of physical_blocks] f [of logical_blocks] f [of block_size] f [of erase_size] f [of erase_val] f [of current_block]
      f [of earliest_block] by simp_all
  then show ?thesis using assms(1,3) by (simp add: dl_inv_def dl_match_def)
qed

context block_backend
begin

lemma failed_write_inv:
  assumes plain: "plain_logger e bs" and inv: "dl_inv P bs eb ev mem L d" and args: "write_args bs eb d block n"
    and run: "data_logger_block_write e ty block n d = Some (Inl err, block', d')" and clean: "failed_clean mem P bs eb ev d d'"
  shows "dl_inv P bs eb ev mem L d'"
proof -
  have a: "earliest_block d + eb < 4294967296" "2 \<le> n" "n \<le> bs" "bs \<le> length block" "dl_flags d AND DATA_LOGGER_FLAGS_ERASING = 0"
    using args by (simp_all add: write_args_def)
  have "dl_match P bs eb ev d' \<and> current_block d' = length L \<and> logical_blocks d' = logical_blocks d \<and>
      (earliest_block d' = earliest_block d \<or> earliest_block d' = earliest_block d + eb)"
    by (rule block_write_inv [OF plain inv a, of ty]) (use run in simp)
  then have d': "dl_match P bs eb ev d'" "current_block d' = length L" "logical_blocks d' = logical_blocks d"
    "earliest_block d' = earliest_block d \<or> earliest_block d' = earliest_block d + eb" by simp_all
  obtain K where K: "contents_inv P bs eb ev (mem (backend d)) L K" "K \<le> earliest_block d + P" using inv by (auto simp: dl_inv_def)
  have n: "current_block d = length L" "length L \<le> logical_blocks d" using inv by (simp_all add: dl_inv_def)
  have "\<exists>K. contents_inv P bs eb ev (mem (backend d')) L K \<and> K \<le> earliest_block d' + P"
  proof (cases "mem (backend d') = mem (backend d)")
    case True
    then show ?thesis using K d'(4) by (intro exI [of _ K]) auto
  next
    case False
    then have f: "P \<le> length L" "eb dvd length L" "earliest_block d' = earliest_block d + eb"
      "mem (backend d') = fill_bytes ((length L mod P) * bs) (eb * bs) ev (mem (backend d))"
      using clean n by (simp_all add: failed_clean_def)
    then have "contents_inv P bs eb ev (mem (backend d')) L (length L + eb)" using contents_erase [OF K(1)] geometry by simp
    moreover have "length L + eb \<le> earliest_block d' + P" using f(3) K contents_frontier [OF K(1) positive(3)] by linarith
    ultimately show ?thesis by blast
  qed
  then show ?thesis using d' n by (simp add: dl_inv_def)
qed

lemma reach_inv:
  assumes "plain_logger e bs" "dl_reach e mem P bs eb ev L d"
  shows "dl_inv P bs eb ev mem L d"
  using assms(2)
proof (induction rule: dl_reach.induct)
  case (start d)
  then have "contents_inv P bs eb ev (mem (backend d)) [] P" using contents_empty [OF geometry(6)] by blast
  then show ?case using start by (auto simp: dl_inv_def)
next
  case (written L d block n ty block' d')
  have a: "earliest_block d + eb < 4294967296" "2 \<le> n" "n \<le> bs" "bs \<le> length block" "dl_flags d AND DATA_LOGGER_FLAGS_ERASING = 0"
    using written.hyps by (simp_all add: write_args_def)
  show ?case by (rule block_write_inv [OF assms(1) written.IH a, of ty]) (use written.hyps in simp)
next
  case (write_failed L d block n ty err block' d')
  show ?case using failed_write_inv [OF assms(1) write_failed.IH write_failed.hyps(2-4)] .
next
  case (read L d j off n rc d')
  show ?case using dl_inv_backend [OF read.IH] block_read_frame [OF read.hyps(2)] by simp
next
  case (erased L d erase_all progress d')
  show ?case by (rule erase_inv [OF erased.IH erased.hyps(2)])
next
  case (reboot L d d0 d')
  show ?case by (rule init_recovers [OF reboot.IH reboot.hyps(2)]) (use reboot.hyps(3) in auto)
next
  case (register L d cb)
  then show ?case by (simp add: dl_inv_def dl_match_def data_logger_register_cb_def)
qed

end

subsection \<open>Causes of errors\<close>

definition backend_fails :: "('b, 'c) dl_env \<Rightarrow> errno \<Rightarrow> bool" where
  "backend_fails e err \<longleftrightarrow>
     (\<exists>b b'. de_pm_get e b = (Inl err, b')) \<or>
     (\<exists>rd p off n b b'. api_read (de_api e) = Some rd \<and> rd p off n b = (Inl err, b')) \<or>
     (\<exists>er p n b b'. api_erase (de_api e) = Some er \<and> er p n b = (Inl err, b')) \<or>
     (\<exists>p ty data b b'. api_write (de_api e) p ty data b = (Inl err, b'))"

lemma erase_next_chunk_error: "erase_next_chunk e d = Some (Inl err, d') \<Longrightarrow> backend_fails e err"
  by (auto simp: erase_next_chunk_def Let_def backend_fails_def split: if_splits prod.splits sum.splits option.splits bind_splits)

lemma do_block_write_error: "do_block_write e ty block n d = Some (Inl err, block', d') \<Longrightarrow> backend_fails e err"
  by (auto simp: do_block_write_def Let_def backend_fails_def split: if_splits prod.splits sum.splits bind_splits
      dest!: erase_next_chunk_error [unfolded backend_fails_def])

context block_backend
begin

lemma block_write_direct:
  assumes plain: "plain_logger e bs" and inv: "dl_inv P bs eb ev mem L d" and args: "write_args bs eb d block n"
    and space: "length L < logical_blocks d"
  shows "data_logger_block_write e ty block n d =
      do_block_write e ty (store_at n (replicate (logged_len e n - n) (erase_val d)) block) (logged_len e n) d"
proof -
  have m: "block_size d = bs" "current_block d = length L" using inv by (simp_all add: dl_inv_def dl_match_def)
  have n: "n \<le> bs" "bs \<le> length block" "dl_flags d AND DATA_LOGGER_FLAGS_ERASING = 0" using args by (simp_all add: write_args_def)
  show ?thesis
    using write_align_exact [OF plain n(1,2) positive(2) geometry(2)] plain m n space
    by (auto simp: data_logger_block_write_def handle_block_write_def plain_logger_def)
qed

lemma block_write_cause:
  assumes plain: "plain_logger e bs" and inv: "dl_inv P bs eb ev mem L d" and args: "write_args bs eb d block n"
    and run: "data_logger_block_write e ty block n d = Some (Inl err, block', d')" and space: "length L < logical_blocks d"
  shows "backend_fails e err"
  using run do_block_write_error unfolding block_write_direct [OF plain inv args space] by blast

text \<open>The slots of the storage in a state of the logger: every block from the earliest one on, and the last one.\<close>

lemma inv_slots:
  assumes inv: "dl_inv P bs eb ev mem L d"
  shows "earliest_block d \<le> j \<Longrightarrow> j < length L \<Longrightarrow> slot_holds bs (mem (backend d)) (j mod P) (pad_block bs ev (L ! j))"
    and "L \<noteq> [] \<Longrightarrow> slot_holds bs (mem (backend d)) ((length L - 1) mod P) (pad_block bs ev (last L))"
proof -
  obtain K where K: "contents_inv P bs eb ev (mem (backend d)) L K" "K \<le> earliest_block d + P"
    using inv by (auto simp: dl_inv_def)
  then have slots: "\<And>j. K - P \<le> j \<Longrightarrow> j < length L \<Longrightarrow> slot_holds bs (mem (backend d)) (j mod P) (pad_block bs ev (L ! j))"
    and k: "if length L < P then K = P else K \<le> length L + eb"
    by (auto simp: contents_inv_def)
  show "earliest_block d \<le> j \<Longrightarrow> j < length L \<Longrightarrow> slot_holds bs (mem (backend d)) (j mod P) (pad_block bs ev (L ! j))"
    using slots K(2) by simp
  assume "L \<noteq> []"
  moreover from this k have "K - P \<le> length L - 1" using geometry(5) by (cases L) (auto split: if_splits)
  ultimately show "slot_holds bs (mem (backend d)) ((length L - 1) mod P) (pad_block bs ev (last L))"
    using slots [of "length L - 1"] by (simp add: last_conv_nth)
qed

text \<open>A successful write that starts a chunk erases it, and drops one erase unit from the log.\<close>

lemma do_block_write_due:
  assumes inv: "dl_inv P bs eb ev mem L d" and room: "earliest_block d + eb < 4294967296"
    and len: "2 \<le> n" "n \<le> bs" "n \<le> length block" and due: "P \<le> length L" "eb dvd length L"
    and run: "do_block_write e ty block n d = Some (Inr (), block', d')"
  defines "b \<equiv> word_of_nat (length L div P + 1) # ty # bytes_at 2 (n - 2) block"
  shows "earliest_block d' = earliest_block d + eb" "contents_inv P bs eb ev (mem (backend d')) (L @ [b]) (length L + eb)"
proof -
  obtain K where K: "contents_inv P bs eb ev (mem (backend d)) L K" using inv by (auto simp: dl_inv_def)
  have m: "dl_match P bs eb ev d" "block_size d = bs" "physical_blocks d = P" "current_block d = length L"
    using inv by (simp_all add: dl_inv_def dl_match_def)
  obtain er where er: "api_erase (de_api e) = Some er" using erasable by blast
  obtain rc1 b1 where pm: "de_pm_get e (backend d) = (rc1, b1)" by fastforce
  obtain rc2 b2 where e2: "er (length L mod P) eb b1 = (rc2, b2)" by fastforce
  let ?hdr = "word_of_nat (length L div P + 1) # ty # drop 2 block"
  obtain rc3 b3 where wr: "api_write (de_api e) (length L mod P) ty (take n ?hdr) b2 = (rc3, b3)" by fastforce
  have chunk: "erase_next_chunk e (d\<lparr>backend := b1\<rparr>) = Some (case rc2 of
      Inl err \<Rightarrow> (Inl err, d\<lparr>earliest_block := u32 (earliest_block d + eb + 4294967296 - eb), backend := b2\<rparr>)
    | Inr _ \<Rightarrow> (Inr (), d\<lparr>earliest_block := earliest_block d + eb, backend := b2\<rparr>))"
    using due er e2 m room erase_unit(1) [OF m(1)] geometry by (simp add: erase_next_chunk_def Let_def mod_eq_0_iff_dvd split: sum.split)
  have hdr: "block_header e ty block (d\<lparr>earliest_block := x, backend := y\<rparr>) = Some ?hdr" for x y
    using len m by (simp add: block_header_def block_wrap_of_def store_at_def numeral_2_eq_2)
  have ok1: "rc1 = Inr ()" using run m positive pm by (cases rc1) (simp_all add: do_block_write_def)
  have ok2: "rc2 = Inr ()" using run m positive pm ok1 chunk by (cases rc2) (simp_all add: do_block_write_def)
  have chunk': "erase_next_chunk e (d\<lparr>backend := b1\<rparr>) = Some (Inr (), d\<lparr>earliest_block := earliest_block d + eb, backend := b2\<rparr>)"
    using chunk ok2 by simp
  have frame: "(length ?hdr < n) = False" "backend (d\<lparr>earliest_block := x, backend := y\<rparr>) = y" for x y using len by simp_all
  note run' = run [unfolded do_block_write_def Let_def m pm ok1 prod.case sum.case chunk' bind.simps hdr frame wr]
  have ok3: "rc3 = Inr ()" using run' positive by (cases rc3) simp_all
  then have d': "d' = block_written ty n (d\<lparr>earliest_block := earliest_block d + eb, backend := de_pm_put e b3\<rparr>)"
    using run' positive by simp
  note ok = ok1 ok2 ok3
  show "earliest_block d' = earliest_block d + eb" unfolding d' by simp
  have "mem b2 = fill_bytes ((length L mod P) * bs) (eb * bs) ev (mem (backend d))"
    using erase_data [OF er, of "length L mod P" eb b1 b2] e2 ok(2) chunk_in_range [of eb P "length L"] due geometry pm_get_mem [OF pm] by simp
  then have c2: "contents_inv P bs eb ev (mem b2) L (length L + eb)" using contents_erase [OF K] due geometry by simp
  have tk: "take n ?hdr = b" using len by (simp add: b_def bytes_at_def take_Cons' numeral_2_eq_2 drop_take)
  have bok: "block_ok P bs (length L) b" using len by (simp add: block_ok_def b_def bytes_at_def)
  have "slot_erased bs ev (mem b2) (length L mod P)" using c2 geometry(3) by (simp add: contents_inv_def)
  then have "mem b3 = store_bytes ((length L mod P) * bs) b (mem b2)"
    using write_data [of "length L mod P" ty "take n ?hdr" b2 b3] wr ok(3) tk bok len positive by (simp add: block_ok_def)
  then have "contents_inv P bs eb ev (mem b3) (L @ [b]) (length L + eb)"
    using contents_store [OF c2 _ positive(3) bok] geometry(3) by simp
  then show "contents_inv P bs eb ev (mem (backend d')) (L @ [b]) (length L + eb)" unfolding d' by (simp add: pm_put_mem)
qed

lemma block_read_total:
  assumes inv: "dl_inv P bs eb ev mem L d"
  obtains rc d' where "data_logger_block_read e j off n d = Some (rc, d')"
    "earliest_block d \<le> j \<and> j + extra_blocks_accessed off n bs < length L \<and> off < bs \<and>
       dl_flags d AND DATA_LOGGER_FLAGS_ERASING = 0 \<longrightarrow> (\<exists>bytes. rc = Inr bytes) \<or> (\<exists>err. rc = Inl err \<and> backend_fails e err)"
proof -
  obtain rd where rd: "api_read (de_api e) = Some rd" using readable by blast
  have m: "block_size d = bs" "physical_blocks d = P" "current_block d = length L" "length L \<le> 254 * P"
    using inv by (auto simp: dl_inv_def dl_match_def)
  then have u: "u32 (j + extra_blocks_accessed off n bs) = j + extra_blocks_accessed off n bs"
    if "j + extra_blocks_accessed off n bs < length L" using that geometry(8) by simp
  have "\<exists>rc d'. data_logger_block_read e j off n d = Some (rc, d') \<and>
      (earliest_block d \<le> j \<and> j + extra_blocks_accessed off n bs < length L \<and> off < bs \<and>
       dl_flags d AND DATA_LOGGER_FLAGS_ERASING = 0 \<longrightarrow> (\<exists>bytes. rc = Inr bytes) \<or> (\<exists>err. rc = Inl err \<and> backend_fails e err))"
    using m u rd positive by (auto simp: data_logger_block_read_def Let_def backend_fails_def split: prod.splits sum.splits)
  then show ?thesis using that by blast
qed

end

end
