(* ===== verification/Flash_Map_Logger.thy ===== *)
theory Flash_Map_Logger
  imports Logger_Recovery
begin

text \<open>
  The flash backend of the data logger, \<open>subsys/data_logger/backends/flash_map.c\<close>, and the logger on it. The flash
  area is Zephyr's and a parameter; its documented behaviour is the locale \<open>flash_area\<close>. The locale
  \<open>flash_map_logger\<close> adds the geometry of a logger, and is a \<open>block_backend\<close>: what is shown for a logger over any
  backend holds for the logger on flash. The properties say that blocks are read back as they were written, also
  across the end of the area and after a reboot.
\<close>

subsection \<open>The backend\<close>

definition DATA_LOGGER_FLASH_MAP_MAX_WRAPS :: nat where "DATA_LOGGER_FLASH_MAP_MAX_WRAPS = 254"

record dl_flash_map_config =
  fm_physical_blocks :: nat
  fm_erase_size :: nat
  fm_max_block_size :: nat
  fm_block_addr_shift :: nat

record 'f flash_area_api =
  flash_area_read :: "nat \<Rightarrow> nat \<Rightarrow> 'f \<Rightarrow> byte list res \<times> 'f"
  flash_area_write :: "nat \<Rightarrow> byte list \<Rightarrow> 'f \<Rightarrow> unit res \<times> 'f"
  flash_area_erase :: "nat \<Rightarrow> nat \<Rightarrow> 'f \<Rightarrow> unit res \<times> 'f"

text \<open>An offset in the flash area, a \<open>uint32_t\<close> passed as \<open>off_t\<close>; sizes are not near the end of the 32 bit range.\<close>

definition block_addr :: "dl_flash_map_config \<Rightarrow> nat \<Rightarrow> nat" where
  "block_addr config phy_block = u32 (push_bit (fm_block_addr_shift config) phy_block)"

definition logger_flash_map_write ::
    "dl_flash_map_config \<Rightarrow> 'f flash_area_api \<Rightarrow> nat \<Rightarrow> byte \<Rightarrow> byte list \<Rightarrow> 'f \<Rightarrow> unit res \<times> 'f" where
  "logger_flash_map_write config fa phy_block data_type data f = flash_area_write fa (block_addr config phy_block) data f"

definition logger_flash_map_read ::
    "dl_flash_map_config \<Rightarrow> 'f flash_area_api \<Rightarrow> nat \<Rightarrow> nat \<Rightarrow> nat \<Rightarrow> 'f \<Rightarrow> byte list res \<times> 'f" where
  "logger_flash_map_read config fa phy_block block_offset len f =
     flash_area_read fa (u32 (block_addr config phy_block + block_offset)) len f"

definition logger_flash_map_erase ::
    "dl_flash_map_config \<Rightarrow> 'f flash_area_api \<Rightarrow> nat \<Rightarrow> nat \<Rightarrow> 'f \<Rightarrow> unit res \<times> 'f" where
  "logger_flash_map_erase config fa phy_block num f =
     flash_area_erase fa (block_addr config phy_block) (block_addr config num) f"

text \<open>
  The loop of \<open>logger_flash_map_reset\<close>. A chunk of no bytes comes from an erase size of zero, for which the rounding
  before the loop divides by zero; the loop ends then.
\<close>

function reset_loop ::
    "'f flash_area_api \<Rightarrow> nat \<Rightarrow> nat \<Rightarrow> (nat \<Rightarrow> 'c \<Rightarrow> 'c) \<Rightarrow> nat \<Rightarrow> nat \<Rightarrow> nat \<Rightarrow> 'f \<Rightarrow> 'c \<Rightarrow> unit res \<times> 'f \<times> 'c" where
  "reset_loop fa shift chunk_size erase_progress complete offset remaining f w =
     (if remaining = 0 \<or> chunk_size = 0 then (Inr (), f, w)
      else
        let to_erase = min remaining chunk_size
        in case flash_area_erase fa offset to_erase f of
             (Inl err, f) \<Rightarrow> (Inl err, f, w)
           | (Inr _, f) \<Rightarrow>
               let complete = complete + drop_bit shift to_erase
               in reset_loop fa shift chunk_size erase_progress complete (offset + to_erase) (remaining - to_erase) f
                    (erase_progress complete w))"
  by pat_completeness auto
termination
  by (relation "measure (\<lambda>(fa, shift, chunk_size, erase_progress, complete, offset, remaining, f, w). remaining)") auto

declare reset_loop.simps [simp del]

definition round_up :: "nat \<Rightarrow> nat \<Rightarrow> nat" where
  "round_up n align = (n + align - 1) div align * align"

lemma round_up_bounds:
  assumes "0 < a" "n \<le> k * a"
  shows "n \<le> round_up n a" "round_up n a \<le> k * a"
proof -
  have "(n + a - 1) div a * a + (n + a - 1) mod a = n + a - 1" by simp
  moreover have "(n + a - 1) mod a < a" using assms(1) by simp
  ultimately show "n \<le> round_up n a" unfolding round_up_def by linarith
  have "n + a - 1 < (k + 1) * a" using assms by simp
  then have "(n + a - 1) div a < k + 1" by (rule less_mult_imp_div_less)
  then show "round_up n a \<le> k * a" unfolding round_up_def by (intro mult_le_mono1) simp
qed

definition logger_flash_map_reset ::
    "dl_flash_map_config \<Rightarrow> 'f flash_area_api \<Rightarrow> nat \<Rightarrow> (nat \<Rightarrow> 'c \<Rightarrow> 'c) \<Rightarrow> 'f \<Rightarrow> 'c \<Rightarrow> unit res \<times> 'f \<times> 'c" where
  "logger_flash_map_reset config fa block_hint erase_progress f w =
     (let chunk_size = if fm_erase_size config = 4096 then 65536 else fm_erase_size config;
          remaining = round_up (block_addr config block_hint) (fm_erase_size config)
      in reset_loop fa (fm_block_addr_shift config) chunk_size erase_progress 0 0 remaining f w)"

definition data_logger_flash_map_api :: "dl_flash_map_config \<Rightarrow> 'f flash_area_api \<Rightarrow> ('f, 'c) data_logger_api" where
  "data_logger_flash_map_api config fa =
     \<lparr>api_write = logger_flash_map_write config fa, api_write_burst = None,
      api_read = Some (logger_flash_map_read config fa), api_erase = Some (logger_flash_map_erase config fa),
      api_reset = Some (logger_flash_map_reset config fa), api_search_hint = None\<rparr>"

datatype pm_action = PM_DEVICE_ACTION_SUSPEND | PM_DEVICE_ACTION_RESUME | PM_DEVICE_ACTION_OTHER

text \<open>Power management of the logger is that of the flash device: its own get and put functions.\<close>

definition flash_map_pm_control ::
    "('f \<Rightarrow> unit res \<times> 'f) \<Rightarrow> ('f \<Rightarrow> unit res \<times> 'f) \<Rightarrow> pm_action \<Rightarrow> 'f \<Rightarrow> unit res \<times> 'f" where
  "flash_map_pm_control get put action f =
     (case action of
        PM_DEVICE_ACTION_SUSPEND \<Rightarrow> put f
      | PM_DEVICE_ACTION_RESUME \<Rightarrow> get f
      | _ \<Rightarrow> (Inl ENOTSUP, f))"

text \<open>Initialisation; \<open>opened\<close> is the result of opening the flash area, with the erase value of the flash.\<close>

definition logger_flash_map_init ::
    "('f, 'c) dl_env \<Rightarrow> dl_flash_map_config \<Rightarrow> byte res \<Rightarrow> ('f, 'c) data_logger_common_data \<Rightarrow>
     (unit res \<times> ('f, 'c) data_logger_common_data) option" where
  "logger_flash_map_init e config opened d =
     (let d = d\<lparr>physical_blocks := fm_physical_blocks config,
                logical_blocks := u32 (fm_physical_blocks config * DATA_LOGGER_FLASH_MAP_MAX_WRAPS),
                block_size := fm_max_block_size config, erase_size := fm_erase_size config, erase_val := 0xFF\<rparr>
      in case opened of
           Inl _ \<Rightarrow> Some (Inl ENODEV, d)
         | Inr erase_value \<Rightarrow> data_logger_common_init e (d\<lparr>erase_val := erase_value\<rparr>))"

subsection \<open>Flash areas\<close>

locale flash_area =
  fixes fa :: "'f flash_area_api" and area :: "'f \<Rightarrow> storage" and extent :: nat and ev :: byte
  assumes fa_read_area: "flash_area_read fa off n f = (res, f') \<Longrightarrow> area f' = area f"
    and fa_read_data: "flash_area_read fa off n f = (Inr bytes, f') \<Longrightarrow> off + n \<le> extent \<Longrightarrow> bytes = map (area f) [off..<off + n]"
    and fa_write_data: "flash_area_write fa off data f = (Inr (), f') \<Longrightarrow> off + length data \<le> extent \<Longrightarrow>
        (\<forall>i < length data. area f (off + i) = ev) \<Longrightarrow> area f' = store_bytes off data (area f)"
    and fa_erase_data: "flash_area_erase fa off n f = (Inr (), f') \<Longrightarrow> off + n \<le> extent \<Longrightarrow> area f' = fill_bytes off n ev (area f)"
begin

lemma reset_loop_erases:
  assumes "reset_loop fa shift chunk progress complete off n f w = (Inr (), f', w')" "off + n \<le> extent" "0 < chunk"
  shows "area f' = fill_bytes off n ev (area f)"
  using assms(1,2)
proof (induction n arbitrary: complete off f w rule: less_induct)
  case (less n)
  show ?case
  proof (cases "n = 0")
    case True
    then show ?thesis using less.prems by (auto simp: reset_loop.simps fill_bytes_def fun_eq_iff)
  next
    case False
    let ?t = "min n chunk"
    obtain rc f1 where er: "flash_area_erase fa off ?t f = (rc, f1)" by fastforce
    have rc: "rc = Inr ()" and
      rest: "reset_loop fa shift chunk progress (complete + drop_bit shift ?t) (off + ?t) (n - ?t) f1
         (progress (complete + drop_bit shift ?t) w) = (Inr (), f', w')"
      using less.prems(1) False assms(3) er by (subst (asm) reset_loop.simps; cases rc; simp add: Let_def)+
    have "area f1 = fill_bytes off ?t ev (area f)" using fa_erase_data [of off ?t f f1] er rc less.prems(2) by simp
    moreover have "area f' = fill_bytes (off + ?t) (n - ?t) ev (area f1)"
      using less.IH [OF _ rest] False assms(3) less.prems(2) by simp
    ultimately show ?thesis by (auto simp: fill_bytes_def fun_eq_iff)
  qed
qed

end

subsection \<open>The logger on flash\<close>

text \<open>The geometry that the build makes: block sizes are powers of two, and areas a multiple of the erase size.\<close>

definition erase_blocks :: "dl_flash_map_config \<Rightarrow> nat" where
  "erase_blocks config = fm_erase_size config div fm_max_block_size config"

definition flash_geometry :: "dl_flash_map_config \<Rightarrow> bool" where
  "flash_geometry config \<longleftrightarrow>
     fm_max_block_size config = 2 ^ fm_block_addr_shift config \<and> 0 < fm_block_addr_shift config \<and> fm_block_addr_shift config < 16 \<and>
     fm_erase_size config = erase_blocks config * fm_max_block_size config \<and>
     0 < erase_blocks config \<and> erase_blocks config < 65536 \<and> erase_blocks config < fm_physical_blocks config \<and>
     erase_blocks config dvd fm_physical_blocks config \<and>
     fm_physical_blocks config * fm_max_block_size config < 4294967296 \<and> 255 * fm_physical_blocks config < 4294967296"

locale flash_map_logger = flash_area fa area "fm_physical_blocks config * fm_max_block_size config" ev
  for fa :: "'f flash_area_api" and area and config and ev +
  fixes e :: "('f, 'c) dl_env"
  assumes layout: "flash_geometry config" "erased_wrap ev"
    and api: "de_api e = data_logger_flash_map_api config fa"
    and pm_get_area: "de_pm_get e f = (rc, f') \<Longrightarrow> area f' = area f"
    and pm_put_area: "area (de_pm_put e f) = area f"
begin

lemma layout_simps:
  "fm_max_block_size config = 2 ^ fm_block_addr_shift config"
  "fm_erase_size config = erase_blocks config * fm_max_block_size config"
  "0 < erase_blocks config" "fm_physical_blocks config * fm_max_block_size config < 4294967296"
  using layout(1) unfolding flash_geometry_def by blast+

lemma block_addr_exact: "p \<le> fm_physical_blocks config \<Longrightarrow> block_addr config p = p * fm_max_block_size config"
proof -
  assume "p \<le> fm_physical_blocks config"
  then have "p * fm_max_block_size config < 4294967296"
    using layout_simps(4) by (meson le_less_trans mult_le_mono1)
  then show ?thesis by (simp add: block_addr_def push_bit_eq_mult layout_simps(1))
qed

lemma slot_end: "p < fm_physical_blocks config \<Longrightarrow> p * fm_max_block_size config + fm_max_block_size config \<le> fm_physical_blocks config * fm_max_block_size config"
proof -
  assume "p < fm_physical_blocks config"
  then have "(p + 1) * fm_max_block_size config \<le> fm_physical_blocks config * fm_max_block_size config" by (intro mult_le_mono1) simp
  then show ?thesis by simp
qed

lemma flash_read_data:
  assumes "logger_flash_map_read config fa p off n f = (Inr bytes, f')"
    "p * fm_max_block_size config + off + n \<le> fm_physical_blocks config * fm_max_block_size config"
  shows "bytes = map (area f) [p * fm_max_block_size config + off..<p * fm_max_block_size config + off + n]"
proof -
  have bs: "0 < fm_max_block_size config" using layout_simps(1) by simp
  have "p * fm_max_block_size config \<le> fm_physical_blocks config * fm_max_block_size config" using assms(2) by linarith
  then have "p \<le> fm_physical_blocks config" using bs by simp
  then have "u32 (block_addr config p + off) = p * fm_max_block_size config + off"
    using assms(2) layout_simps(4) by (simp add: block_addr_exact)
  then show ?thesis using assms fa_read_data by (simp add: logger_flash_map_read_def)
qed

lemma flash_write_data:
  assumes "logger_flash_map_write config fa p ty data f = (Inr (), f')" "p < fm_physical_blocks config"
    "length data \<le> fm_max_block_size config" "slot_erased (fm_max_block_size config) ev (area f) p"
  shows "area f' = store_bytes (p * fm_max_block_size config) data (area f)"
  using assms slot_end [OF assms(2)] fa_write_data [of "p * fm_max_block_size config" data f f']
  by (simp add: logger_flash_map_write_def block_addr_exact slot_erased_def)

lemma flash_erase_data:
  assumes "logger_flash_map_erase config fa p n f = (Inr (), f')" "p + n \<le> fm_physical_blocks config"
  shows "area f' = fill_bytes (p * fm_max_block_size config) (n * fm_max_block_size config) ev (area f)"
proof -
  have "(p + n) * fm_max_block_size config \<le> fm_physical_blocks config * fm_max_block_size config" using assms(2) by (intro mult_le_mono1)
  then show ?thesis using assms fa_erase_data [of "p * fm_max_block_size config" "n * fm_max_block_size config" f f']
    by (simp add: logger_flash_map_erase_def block_addr_exact add_mult_distrib)
qed

lemma reset_erases:
  assumes run: "logger_flash_map_reset config fa hint progress f w = (Inr (), f', w')" and hint: "hint \<le> fm_physical_blocks config"
  shows "\<exists>n. hint * fm_max_block_size config \<le> n \<and> area f' = fill_bytes 0 n ev (area f)"
proof -
  let ?bs = "fm_max_block_size config" and ?es = "fm_erase_size config" and ?P = "fm_physical_blocks config"
  have bs: "0 < ?bs" using layout_simps(1) by simp
  then have es: "0 < ?es" unfolding layout_simps(2) using layout_simps(3) by simp
  let ?n = "round_up (hint * ?bs) ?es"
  have "erase_blocks config dvd ?P" using layout(1) unfolding flash_geometry_def by blast
  then have k: "?P * ?bs = ?P div erase_blocks config * ?es" unfolding layout_simps(2) by (simp only: mult.assoc [symmetric] dvd_div_mult_self)
  then have "hint * ?bs \<le> ?P div erase_blocks config * ?es" using mult_le_mono1 [OF hint, of ?bs] by (simp only:)
  note n = round_up_bounds [OF es this, folded k]
  have "area f' = fill_bytes 0 ?n ev (area f)"
    by (rule reset_loop_erases [OF run [unfolded logger_flash_map_reset_def Let_def block_addr_exact [OF hint]]]) (use es n(2) in simp_all)
  then show ?thesis using n(1) by blast
qed

end

sublocale flash_map_logger \<subseteq>
  block_backend e area "fm_physical_blocks config" "fm_max_block_size config" "erase_blocks config" ev
proof
  have "(2 :: nat) ^ 1 \<le> 2 ^ fm_block_addr_shift config" "(2 :: nat) ^ fm_block_addr_shift config < 2 ^ 16"
    using layout(1) by (intro power_increasing power_strict_increasing; simp add: flash_geometry_def)+
  then show "2 \<le> fm_max_block_size config" "fm_max_block_size config < 65536" using layout_simps(1) by simp_all
  show "area f' = area f" if "api_read (de_api e) = Some rd" "rd p off n f = (res, f')" for rd p off n f res f'
    using that fa_read_area by (auto simp: api data_logger_flash_map_api_def logger_flash_map_read_def)
  show "(\<forall>a < hint * fm_max_block_size config. area f' a = ev) \<and> (\<forall>a. area f' a = area f a \<or> area f' a = ev)"
    if "api_reset (de_api e) = Some rs" "rs hint progress f w = (Inr (), f', w')" "hint \<le> fm_physical_blocks config"
    for rs hint progress f w f' w'
    using that reset_erases [of hint progress f w f' w'] by (auto simp: api data_logger_flash_map_api_def fill_bytes_def)
  show "0 < erase_blocks config" "erase_blocks config < 65536" "erase_blocks config < fm_physical_blocks config"
    "erase_blocks config dvd fm_physical_blocks config" "fm_physical_blocks config * fm_max_block_size config < 4294967296"
    "255 * fm_physical_blocks config < 4294967296"
    using layout(1) unfolding flash_geometry_def by blast+
  show "erased_wrap ev" by (rule layout(2))
  show "area f' = area f" if "de_pm_get e f = (rc, f')" for f rc f' using that by (rule pm_get_area)
  show "area (de_pm_put e f) = area f" for f by (rule pm_put_area)
  show "bytes = map (area f) [p * fm_max_block_size config + off..<p * fm_max_block_size config + off + n]"
    if "api_read (de_api e) = Some rd" "rd p off n f = (Inr bytes, f')"
      "p * fm_max_block_size config + off + n \<le> fm_physical_blocks config * fm_max_block_size config" for rd p off n f bytes f'
    using that flash_read_data by (simp add: api data_logger_flash_map_api_def)
  show "area f' = store_bytes (p * fm_max_block_size config) data (area f)"
    if "api_write (de_api e) p ty data f = (Inr (), f')" "p < fm_physical_blocks config" "length data \<le> fm_max_block_size config"
      "slot_erased (fm_max_block_size config) ev (area f) p" for p ty data f f'
    using that flash_write_data by (simp add: api data_logger_flash_map_api_def)
  show "area f' = fill_bytes (p * fm_max_block_size config) (n * fm_max_block_size config) ev (area f)"
    if "api_erase (de_api e) = Some er" "er p n f = (Inr (), f')" "p + n \<le> fm_physical_blocks config" for er p n f f'
    using that flash_erase_data by (simp add: api data_logger_flash_map_api_def)
qed (simp_all add: api data_logger_flash_map_api_def)


context flash_map_logger
begin

lemmas flash_backend = block_backend_axioms

end

subsection \<open>Properties of the logger on flash\<close>

abbreviation flash_reach ::
    "('f, 'c) dl_env \<Rightarrow> ('f \<Rightarrow> storage) \<Rightarrow> dl_flash_map_config \<Rightarrow> byte \<Rightarrow> byte list list \<Rightarrow> ('f, 'c) data_logger_common_data \<Rightarrow> bool" where
  "flash_reach e area config ev \<equiv>
     dl_reach e area (fm_physical_blocks config) (fm_max_block_size config) (erase_blocks config) ev"

text \<open>
  C9. Reading the log. In every state that a logger on flash reaches by writes, failed writes, erasing and reboots,
  reading \<open>n\<close> bytes (fewer than 65536, from a block index that leaves 65536 below 2 ^ 32) from an offset in a block is defined, and the bytes returned are those of the blocks logged, in
  order, also across the end of the flash area; the read of blocks from the earliest to the last is only refused with an
  error of the flash or of its power management.
\<close>

theorem flash_log_read:
  assumes flash: "flash_map_logger fa area config ev e" and plain: "plain_logger e (fm_max_block_size config)"
    and reach: "flash_reach e area config ev L d" and sz: "n < 65536" "j + 65536 < 4294967296"
  shows "\<exists>rc d'. data_logger_block_read e j off n d = Some (rc, d') \<and>
    (\<forall>bytes. rc = Inr bytes \<longrightarrow>
       bytes = bytes_at (j * fm_max_block_size config + off) n (log_stream (fm_max_block_size config) ev L)) \<and>
    (earliest_block d \<le> j \<and> j + extra_blocks_accessed off n (fm_max_block_size config) < length L \<and>
     off < fm_max_block_size config \<and> dl_flags d AND DATA_LOGGER_FLAGS_ERASING = 0 \<longrightarrow>
       (\<exists>bytes. rc = Inr bytes) \<or> (\<exists>err. rc = Inl err \<and> backend_fails e err))"
proof -
  note bb = flash_map_logger.flash_backend [OF flash]
  note inv = block_backend.reach_inv [OF bb plain reach]
  obtain rc d' where run: "data_logger_block_read e j off n d = Some (rc, d')"
    "earliest_block d \<le> j \<and> j + extra_blocks_accessed off n (fm_max_block_size config) < length L \<and>
     off < fm_max_block_size config \<and> dl_flags d AND DATA_LOGGER_FLAGS_ERASING = 0 \<longrightarrow>
       (\<exists>bytes. rc = Inr bytes) \<or> (\<exists>err. rc = Inl err \<and> backend_fails e err)"
    using block_backend.block_read_total [OF bb inv] .
  then show ?thesis using block_backend.block_read_data [OF bb inv _ sz] by blast
qed

text \<open>
  C10. The log survives a reboot. Initialising the logger on the storage of any reachable state ends; unless a read of
  the flash fails, the number of blocks logged is recovered by the binary search, the state is again a reachable
  state with the same log, nothing that could be read before is lost, and all but one erase unit of the area is kept.
\<close>

theorem flash_log_reboot:
  assumes flash: "flash_map_logger fa area config ev e" and plain: "plain_logger e (fm_max_block_size config)"
    and reach: "flash_reach e area config ev L d" and full: "logical_blocks d = fm_physical_blocks config * DATA_LOGGER_FLASH_MAP_MAX_WRAPS"
    and boot: "backend d0 = backend d"
  shows "\<exists>rc d'. logger_flash_map_init e config (Inr ev) d0 = Some (rc, d') \<and>
    (rc \<noteq> Inr () \<longrightarrow> (\<exists>err. rc = Inl err \<and> read_fails e err)) \<and>
    (rc = Inr () \<longrightarrow> flash_reach e area config ev L d' \<and> current_block d' = length L \<and> boot_block d' = length L \<and>
       earliest_block d' \<le> earliest_block d \<and>
       earliest_block d' + fm_physical_blocks config \<le> max (fm_physical_blocks config) (length L + erase_blocks config))"
proof -
  let ?P = "fm_physical_blocks config" and ?bs = "fm_max_block_size config" and ?eb = "erase_blocks config"
  let ?d = "d0\<lparr>physical_blocks := ?P, logical_blocks := ?P * 254, block_size := ?bs, erase_size := fm_erase_size config, erase_val := ev\<rparr>"
  note bb = flash_map_logger.flash_backend [OF flash]
  note inv = block_backend.reach_inv [OF bb plain reach]
  have geo: "255 * ?P < 4294967296" "fm_erase_size config = ?eb * ?bs"
    using flash_map_logger.layout(1) [OF flash] unfolding flash_geometry_def by blast+
  have fresh: "fresh_boot ?P ?bs ?eb ev d ?d"
    using full boot geo by (simp add: fresh_boot_def dl_match_def DATA_LOGGER_FLASH_MAP_MAX_WRAPS_def)
  obtain rc d' where run: "data_logger_common_init e ?d = Some (rc, d')"
    "(\<exists>err. rc = Inl err \<and> read_fails e err) \<or>
     rc = Inr () \<and> dl_inv ?P ?bs ?eb ev area L d' \<and> earliest_block d' \<le> earliest_block d \<and>
       earliest_block d' + ?P \<le> max ?P (length L + ?eb) \<and> boot_block d' = length L \<and> dl_flags d' = 0"
    using block_backend.init_recovers [OF bb inv fresh] .
  have "logger_flash_map_init e config (Inr ev) d0 = Some (rc, d')"
    using run(1) geo(1) by (simp add: logger_flash_map_init_def DATA_LOGGER_FLASH_MAP_MAX_WRAPS_def Let_def)
  moreover have "flash_reach e area config ev L d'" if "rc = Inr ()"
    using dl_reach.reboot [OF reach fresh] run(1) that by simp
  ultimately show ?thesis using run(2) by (auto simp: dl_inv_def)
qed

lemma pad_logged_block:
  assumes "plain_logger e bs" "2 \<le> n" "n \<le> bs" "bs \<le> length block"
  shows "pad_block bs ev (logged_block e P ev j ty block n) =
    pad_block bs ev (word_of_nat (j div P + 1) # ty # bytes_at 2 (n - 2) block)"
proof -
  have l: "n \<le> logged_len e n" "logged_len e n \<le> bs" using logged_len_le [OF assms(1,3)] assms(2,3) by simp_all
  have "length (bytes_at 2 (n - 2) block) = n - 2" using assms by (simp add: bytes_at_def)
  moreover have "replicate (logged_len e n - n) ev @ replicate (bs - logged_len e n) ev = replicate (bs - n) ev"
    using l by (simp flip: replicate_add)
  ultimately show ?thesis using l assms(2) by (simp add: pad_block_def logged_block_def Suc_diff_Suc numeral_2_eq_2)
qed

text \<open>
  C11. Writing to the log. In every reachable state, a write of at least a header that fits a block is defined. When it
  succeeds the block is logged after all earlier blocks: its physical block on the flash holds the number of the pass over
  the flash and the type in the header, then the bytes given, then erased bytes up to the end, also where the
  write was padded to the alignment; and every earlier block that the logger still offers is on the flash as it was
  logged. When it fails no block is counted, and the cause is an error of the flash, or that the logger is full.
\<close>

theorem flash_log_write:
  assumes flash: "flash_map_logger fa area config ev e" and plain: "plain_logger e (fm_max_block_size config)"
    and reach: "flash_reach e area config ev L d" and args: "write_args (fm_max_block_size config) (erase_blocks config) d block n"
  shows "\<exists>rc block' d'. data_logger_block_write e ty block n d = Some (rc, block', d') \<and>
    (case rc of
       Inr _ \<Rightarrow> flash_reach e area config ev (L @ [logged_block e (fm_physical_blocks config) ev (length L) ty block n]) d' \<and>
               current_block d' = length L + 1 \<and>
               slot_holds (fm_max_block_size config) (area (backend d')) (length L mod fm_physical_blocks config)
                 (pad_block (fm_max_block_size config) ev
                   (word_of_nat (length L div fm_physical_blocks config + 1) # ty # bytes_at 2 (n - 2) block)) \<and>
               (\<forall>j. earliest_block d' \<le> j \<and> j < length L \<longrightarrow>
                 slot_holds (fm_max_block_size config) (area (backend d')) (j mod fm_physical_blocks config)
                   (pad_block (fm_max_block_size config) ev (L ! j)))
     | Inl err \<Rightarrow> current_block d' = length L \<and> (if length L < logical_blocks d then backend_fails e err else err = ENOMEM))"
proof -
  let ?P = "fm_physical_blocks config" and ?bs = "fm_max_block_size config" and ?eb = "erase_blocks config"
  note bb = flash_map_logger.flash_backend [OF flash]
  note inv = block_backend.reach_inv [OF bb plain reach]
  have a: "earliest_block d + ?eb < 4294967296" "2 \<le> n" "n \<le> ?bs" "?bs \<le> length block" "dl_flags d AND DATA_LOGGER_FLAGS_ERASING = 0"
    using args by (simp_all add: write_args_def)
  obtain rc block' d' where run: "data_logger_block_write e ty block n d = Some (rc, block', d')"
    "rc = Inr () \<longrightarrow> dl_inv ?P ?bs ?eb ev area (L @ [logged_block e ?P ev (length L) ty block n]) d'"
    "(\<exists>err. rc = Inl err) \<longrightarrow> dl_match ?P ?bs ?eb ev d' \<and> current_block d' = length L \<and> logical_blocks d' = logical_blocks d \<and>
       (earliest_block d' = earliest_block d \<or> earliest_block d' = earliest_block d + ?eb)"
    "dl_flags d' = dl_flags d"
    using block_backend.block_write_inv [OF bb plain inv a] .
  show ?thesis
  proof (cases rc)
    case (Inl err)
    have "err = ENOMEM" if "\<not> length L < logical_blocks d"
      using that run(1) Inl inv a(3) by (simp add: data_logger_block_write_def dl_inv_def dl_match_def)
    then show ?thesis using run(1,3) Inl block_backend.block_write_cause [OF bb plain inv args] by auto
  next
    case (Inr u)
    let ?b = "word_of_nat (length L div ?P + 1) # ty # bytes_at 2 (n - 2) block"
    have inv': "dl_inv ?P ?bs ?eb ev area (L @ [logged_block e ?P ev (length L) ty block n]) d'" using run(2) Inr by simp
    then have c: "current_block d' = length L + 1" by (simp add: dl_inv_def)
    note slots = block_backend.inv_slots [OF bb inv']
    have "slot_holds ?bs (area (backend d')) (j mod ?P) (pad_block ?bs ev (L ! j))" if "earliest_block d' \<le> j" "j < length L" for j
      using slots(1) [of j] that by (simp add: nth_append)
    moreover have "pad_block ?bs ev (logged_block e ?P ev (length L) ty block n) = pad_block ?bs ev ?b"
      by (rule pad_logged_block [OF plain a(2-4)])
    then have "slot_holds ?bs (area (backend d')) (length L mod ?P) (pad_block ?bs ev ?b)" using slots(2) by simp
    ultimately show ?thesis using c dl_reach.written [OF reach args] run(1) Inr by auto
  qed
qed


subsection \<open>A flash area in memory\<close>

definition mem_flash :: "byte list flash_area_api" where
  "mem_flash =
     \<lparr>flash_area_read = (\<lambda>off n f. if off + n \<le> length f then (Inr (bytes_at off n f), f) else (Inl EINVAL, f)),
      flash_area_write = (\<lambda>off data f. if off + length data \<le> length f then (Inr (), store_at off data f) else (Inl EINVAL, f)),
      flash_area_erase = (\<lambda>off n f. if off + n \<le> length f then (Inr (), store_at off (replicate n 0xFF) f) else (Inl EINVAL, f))\<rparr>"

definition list_area :: "byte list \<Rightarrow> storage" where
  "list_area f = (\<lambda>a. if a < length f then f ! a else 0xFF)"

lemma list_area_store:
  assumes "off + length data \<le> length f"
  shows "list_area (store_at off data f) = store_bytes off data (list_area f)"
proof
  fix a
  have "length (store_at off data f) = length f" using assms by simp
  then show "list_area (store_at off data f) a = store_bytes off data (list_area f) a"
    using assms by (auto simp: list_area_def store_bytes_def store_at_def nth_append)
qed

lemma list_area_read:
  assumes "off + n \<le> length f"
  shows "bytes_at off n f = map (list_area f) [off..<off + n]"
  using assms by (intro nth_equalityI) (simp_all add: bytes_at_def list_area_def)

lemma fill_store: "fill_bytes off n v m = store_bytes off (replicate n v) m"
  by (auto simp: fill_bytes_def store_bytes_def fun_eq_iff)

definition demo_flash_config :: dl_flash_map_config where
  "demo_flash_config = \<lparr>fm_physical_blocks = 4, fm_erase_size = 8, fm_max_block_size = 4, fm_block_addr_shift = 2\<rparr>"

definition demo_logger :: "(byte list, unit) dl_env" where
  "demo_logger =
     \<lparr>de_api = data_logger_flash_map_api demo_flash_config mem_flash,
      de_config = \<lparr>ram_buf_null = False, ram_buf_len = 0, block_write_align = 4, requires_full_block_write = False, queued_writes = False\<rparr>,
      de_pm_get = (\<lambda>f. (Inr (), f)), de_pm_put = (\<lambda>f. f),
      CONFIG_RAM_BUFFER = False, CONFIG_BURST_WRITES = False, CONFIG_OFFLOAD_WRITES = False, CONFIG_OFFLOAD_MAX_BLOCK_SIZE = 0\<rparr>"

interpretation demo_flash: flash_map_logger mem_flash list_area demo_flash_config "0xFF" demo_logger
proof
  show "list_area f' = list_area f" if "flash_area_read mem_flash off n f = (res, f')" for off n f res f'
    using that by (auto simp: mem_flash_def split: if_splits)
  show "bytes = map (list_area f) [off..<off + n]" if "flash_area_read mem_flash off n f = (Inr bytes, f')" for off n f bytes f'
    using that list_area_read by (auto simp: mem_flash_def split: if_splits)
  show "list_area f' = store_bytes off data (list_area f)" if "flash_area_write mem_flash off data f = (Inr (), f')" for off data f f'
    using that list_area_store by (auto simp: mem_flash_def split: if_splits)
  show "list_area f' = fill_bytes off n 255 (list_area f)" if "flash_area_erase mem_flash off n f = (Inr (), f')" for off n f f'
    using that list_area_store [of off "replicate n 255" f] by (auto simp: mem_flash_def fill_store split: if_splits)
qed (auto simp: flash_geometry_def demo_flash_config_def erase_blocks_def erased_wrap_def demo_logger_def)

text \<open>A sequence of writes of full blocks, with the blocks that it logs.\<close>

definition demo_start :: "(byte list, unit) data_logger_common_data" where
  "demo_start =
     \<lparr>callbacks = [], bytes_logged = 0, logical_blocks = 1016, physical_blocks = 4, boot_block = 0, current_block = 0,
      earliest_block = 0, erase_size = 8, block_size = 4, erase_val = 0xFF, dl_flags = 0, ram_buf_offset = 0, ram_buf_data = [],
      block_commit_fifo = [], cb_data = (), backend = replicate 16 0xFF\<rparr>"

fun demo_run :: "byte list list \<Rightarrow> byte list list \<Rightarrow> (byte list, unit) data_logger_common_data \<Rightarrow>
    (byte list list \<times> (byte list, unit) data_logger_common_data) option" where
  "demo_run [] L d = Some (L, d)"
| "demo_run (block # blocks) L d =
     (if write_args 4 2 d block 3 then
        case data_logger_block_write demo_logger 7 block 3 d of
          Some (Inr _, _, d') \<Rightarrow> demo_run blocks (L @ [logged_block demo_logger 4 0xFF (length L) 7 block 3]) d'
        | _ \<Rightarrow> None
      else None)"

lemma demo_config: "fm_physical_blocks demo_flash_config = 4" "fm_max_block_size demo_flash_config = 4" "erase_blocks demo_flash_config = 2"
  by (simp_all add: demo_flash_config_def erase_blocks_def)

lemma demo_plain: "plain_logger demo_logger (fm_max_block_size demo_flash_config)"
  by (simp add: plain_logger_def demo_logger_def demo_flash_config_def)

lemma demo_run_reach:
  assumes "demo_run blocks L d = Some (L', d')" "flash_reach demo_logger list_area demo_flash_config 0xFF L d"
  shows "flash_reach demo_logger list_area demo_flash_config 0xFF L' d'"
  using assms
proof (induction blocks L d rule: demo_run.induct)
  case (2 block blocks L d)
  then show ?case using dl_reach.written [OF 2(3), of block 3 7]
    by (auto simp: demo_config split: if_splits option.splits sum.splits prod.splits)
qed simp

lemma demo_start_reach: "flash_reach demo_logger list_area demo_flash_config 0xFF [] demo_start"
  by (intro dl_reach.start) (auto simp: demo_start_def demo_config dl_match_def slot_erased_def list_area_def)


definition demo_blocks :: "byte list list" where
  "demo_blocks = [[0, 0, 1, 0], [0, 0, 2, 0], [0, 0, 3, 0], [0, 0, 4, 0], [0, 0, 5, 0]]"

lemma demo_reached:
  obtains L d where "flash_reach demo_logger list_area demo_flash_config 0xFF L d" "length L = 5" "earliest_block d = 2"
    "logical_blocks d = fm_physical_blocks demo_flash_config * DATA_LOGGER_FLASH_MAP_MAX_WRAPS"
    "write_args (fm_max_block_size demo_flash_config) (erase_blocks demo_flash_config) d [0, 0, 6, 0] 3"
    "map_option fst (data_logger_block_read demo_logger 3 2 6 d) = Some (Inr [4, 0xFF, 2, 7, 5, 0xFF])"
    "map_option fst (data_logger_block_write demo_logger 7 [0, 0, 6, 0] 3 d) = Some (Inr ())"
    "map_option fst (logger_flash_map_init demo_logger demo_flash_config (Inr 0xFF) (demo_start\<lparr>backend := backend d\<rparr>)) = Some (Inr ())"
proof -
  have run: "case demo_run demo_blocks [] demo_start of None \<Rightarrow> False | Some (L, d) \<Rightarrow>
      length L = 5 \<and> earliest_block d = 2 \<and> logical_blocks d = fm_physical_blocks demo_flash_config * DATA_LOGGER_FLASH_MAP_MAX_WRAPS \<and>
      write_args (fm_max_block_size demo_flash_config) (erase_blocks demo_flash_config) d [0, 0, 6, 0] 3 \<and>
      map_option fst (data_logger_block_read demo_logger 3 2 6 d) = Some (Inr [4, 0xFF, 2, 7, 5, 0xFF]) \<and>
      map_option fst (data_logger_block_write demo_logger 7 [0, 0, 6, 0] 3 d) = Some (Inr ()) \<and>
      map_option fst (logger_flash_map_init demo_logger demo_flash_config (Inr 0xFF) (demo_start\<lparr>backend := backend d\<rparr>)) = Some (Inr ())"
    by code_simp
  then obtain L d where Ld: "demo_run demo_blocks [] demo_start = Some (L, d)" by (cases "demo_run demo_blocks [] demo_start") auto
  show ?thesis by (rule that [OF demo_run_reach [OF Ld demo_start_reach]]) (use run Ld in simp_all)
qed

theorem flash_log_read_witness:
  "\<exists>L d d'. flash_reach demo_logger list_area demo_flash_config 0xFF L d \<and> length L = 5 \<and>
     data_logger_block_read demo_logger 3 2 6 d = Some (Inr (bytes_at 14 6 (log_stream 4 0xFF L)), d')"
proof -
  obtain L d where r: "flash_reach demo_logger list_area demo_flash_config 0xFF L d" "length L = 5"
    "map_option fst (data_logger_block_read demo_logger 3 2 6 d) = Some (Inr [4, 0xFF, 2, 7, 5, 0xFF])" using demo_reached by metis
  obtain rc d' where "data_logger_block_read demo_logger 3 2 6 d = Some (rc, d')"
    "\<forall>bytes. rc = Inr bytes \<longrightarrow> bytes = bytes_at (3 * fm_max_block_size demo_flash_config + 2) 6 (log_stream (fm_max_block_size demo_flash_config) 0xFF L)"
    using flash_log_read [OF demo_flash.flash_map_logger_axioms demo_plain r(1), of 6 3 2] by auto
  then show ?thesis using r by (auto simp: demo_config)
qed

theorem flash_log_reboot_witness:
  "\<exists>L d d'. flash_reach demo_logger list_area demo_flash_config 0xFF L d \<and> length L = 5 \<and>
     logger_flash_map_init demo_logger demo_flash_config (Inr 0xFF) (demo_start\<lparr>backend := backend d\<rparr>) = Some (Inr (), d') \<and>
     current_block d' = 5 \<and> earliest_block d' \<le> 2"
proof -
  obtain L d where r: "flash_reach demo_logger list_area demo_flash_config 0xFF L d" "length L = 5" "earliest_block d = 2"
    "logical_blocks d = fm_physical_blocks demo_flash_config * DATA_LOGGER_FLASH_MAP_MAX_WRAPS"
    "map_option fst (logger_flash_map_init demo_logger demo_flash_config (Inr 0xFF) (demo_start\<lparr>backend := backend d\<rparr>)) = Some (Inr ())"
    using demo_reached by metis
  have "backend (demo_start\<lparr>backend := backend d\<rparr>) = backend d" by simp
  from flash_log_reboot [OF demo_flash.flash_map_logger_axioms demo_plain r(1,4) this] show ?thesis using r by auto
qed

theorem flash_log_write_witness:
  "\<exists>L d block' d'. flash_reach demo_logger list_area demo_flash_config 0xFF L d \<and> length L = 5 \<and>
     data_logger_block_write demo_logger 7 [0, 0, 6, 0] 3 d = Some (Inr (), block', d') \<and> current_block d' = 6 \<and>
     slot_holds 4 (list_area (backend d')) 1 [2, 7, 6, 0xFF]"
proof -
  obtain L d where r: "flash_reach demo_logger list_area demo_flash_config 0xFF L d" "length L = 5"
    "write_args (fm_max_block_size demo_flash_config) (erase_blocks demo_flash_config) d [0, 0, 6, 0] 3"
    "map_option fst (data_logger_block_write demo_logger 7 [0, 0, 6, 0] 3 d) = Some (Inr ())" using demo_reached by metis
  obtain x where x: "data_logger_block_write demo_logger 7 [0, 0, 6, 0] 3 d = Some x" "fst x = Inr ()" using r(4) by auto
  from flash_log_write [OF demo_flash.flash_map_logger_axioms demo_plain r(1,3), of 7] have "current_block (snd (snd x)) = 6 \<and>
      slot_holds 4 (list_area (backend (snd (snd x)))) 1 [2, 7, 6, 0xFF]"
    using x r(2) by (auto simp: demo_config pad_block_def bytes_at_def)
  then show ?thesis using x r(1,2) by (metis prod.collapse)
qed

end
