(* ===== verification/Logger_Buffer.thy ===== *)
theory Logger_Buffer
  imports Flash_Map_Logger
begin

text \<open>
  Buffering of blocks in RAM by the data logger: blocks that are buffered and then flushed are written as if each had
  been written directly. Two theorems characterise defects of the write path: a flush does not respect the capacity of
  the logger, and a write that fails after the next chunk was erased makes blocks unreadable that are still stored.
\<close>

subsection \<open>Buffered blocks\<close>

definition without_buffer :: "('b, 'c) data_logger_common_data \<Rightarrow> ('b, 'c) data_logger_common_data" where
  "without_buffer d = d\<lparr>ram_buf_offset := 0, ram_buf_data := []\<rparr>"

text \<open>Writing blocks one after another, directly and through the buffer; the results are ignored, as a flush does.\<close>

fun write_all :: "('b, 'c) dl_env \<Rightarrow> (byte \<times> byte list) list \<Rightarrow> ('b, 'c) data_logger_common_data \<Rightarrow> ('b, 'c) data_logger_common_data option" where
  "write_all e [] d = Some d"
| "write_all e ((ty, block) # blocks) d =
     (case do_block_write e ty block (length block) d of None \<Rightarrow> None | Some (_, _, d) \<Rightarrow> write_all e blocks d)"

fun buffer_all :: "('b, 'c) dl_env \<Rightarrow> (byte \<times> byte list) list \<Rightarrow> ('b, 'c) data_logger_common_data \<Rightarrow> ('b, 'c) data_logger_common_data option" where
  "buffer_all e [] d = Some d"
| "buffer_all e ((ty, block) # blocks) d =
     (case do_block_write_ram_buffer_single e ty block (length block) d of
        Some (Inr _, _, d) \<Rightarrow> buffer_all e blocks d
      | _ \<Rightarrow> None)"

definition buffered :: "(byte \<times> byte list) list \<Rightarrow> byte list" where
  "buffered blocks = concat (map (\<lambda>(ty, block). ty # put_le 2 (length block) @ block) blocks)"

lemma buffered_simps [simp]:
  "buffered [] = []"
  "buffered ((ty, block) # blocks) = ty # put_le 2 (length block) @ block @ buffered blocks"
  by (simp_all add: buffered_def)

lemma without_buffer_simps [simp]:
  "without_buffer (without_buffer d) = without_buffer d"
  "without_buffer (d\<lparr>ram_buf_data := x\<rparr>) = without_buffer d"
  "without_buffer (d\<lparr>ram_buf_offset := n\<rparr>) = without_buffer d"
  by (simp_all add: without_buffer_def)

text \<open>Writing a block does not depend on the buffer, nor on what is behind the block in memory.\<close>

lemma erase_next_chunk_without_buffer:
  "erase_next_chunk e (without_buffer d) = map_option (\<lambda>(rc, d). (rc, without_buffer d)) (erase_next_chunk e d)"
  by (cases d) (auto simp: without_buffer_def erase_next_chunk_def Let_def split: option.splits prod.splits sum.splits bind_splits)

lemma do_block_write_without_buffer:
  "do_block_write e ty block n (without_buffer d) =
     map_option (\<lambda>(rc, block, d). (rc, block, without_buffer d)) (do_block_write e ty block n d)"
proof -
  have upd: "without_buffer d\<lparr>backend := b\<rparr> = without_buffer (d\<lparr>backend := b\<rparr>)" for d :: "('a, 'b) data_logger_common_data" and b
    by (cases d) (simp add: without_buffer_def)
  have cb: "handle_block_write_fail ty bl n err (without_buffer d) = without_buffer (handle_block_write_fail ty bl n err d)"
    "block_written ty n (without_buffer d) = without_buffer (block_written ty n d)" for d :: "('a, 'b) data_logger_common_data" and bl err
    by (cases d; simp add: without_buffer_def handle_block_write_fail_def block_written_def handle_block_write_success_def)+
  have hd: "block_header e ty bl (without_buffer d) = block_header e ty bl d" for d :: "('a, 'b) data_logger_common_data" and bl
    by (simp add: without_buffer_def block_header_def block_wrap_of_def)
  have sel: "backend (without_buffer d) = backend d" "block_size (without_buffer d) = block_size d"
    "physical_blocks (without_buffer d) = physical_blocks d" "current_block (without_buffer d) = current_block d"
    for d :: "('a, 'b) data_logger_common_data" by (simp_all add: without_buffer_def)
  show ?thesis
    unfolding do_block_write_def sel upd Let_def
    by (auto simp: upd cb hd sel erase_next_chunk_without_buffer Let_def split: prod.splits sum.splits option.splits bind_splits)
qed


lemma do_block_write_length:
  assumes "do_block_write e ty block n d = Some (rc, block', d')"
  shows "length block' = length block"
proof -
  have "length bl' = length bl" if "block_header e ty bl d = Some bl'" for bl bl' and d :: "('a, 'b) data_logger_common_data"
    using that by (auto simp: block_header_def split: if_splits)
  then show ?thesis using assms
    by (auto simp: do_block_write_def Let_def split: if_splits prod.splits sum.splits bind_splits)
qed

lemma do_block_write_frame:
  assumes "do_block_write e ty block n d = Some (rc, block', d')"
  shows "ram_buf_data d' = ram_buf_data d"
proof -
  have er: "ram_buf_data x' = ram_buf_data x" if "erase_next_chunk e x = Some (rc, x')" for rc and x x' :: "('a, 'b) data_logger_common_data"
    using that by (auto simp: erase_next_chunk_def Let_def split: if_splits prod.splits sum.splits bind_splits)
  show ?thesis using assms
    by (auto simp: do_block_write_def Let_def handle_block_write_fail_def block_written_def handle_block_write_success_def
        split: if_splits prod.splits sum.splits bind_splits dest!: er)
qed

lemma block_header_append:
  assumes "2 \<le> length block"
  shows "block_header e ty (block @ rest) d = map_option (\<lambda>b. b @ rest) (block_header e ty block d)"
  using assms by (simp add: block_header_def store_at_def)

lemma do_block_write_append:
  assumes "2 \<le> length block"
  shows "do_block_write e ty (block @ rest) (length block) d =
    map_option (\<lambda>(rc, b, d). (rc, b @ rest, d)) (do_block_write e ty block (length block) d)"
proof -
  have fail: "handle_block_write_fail ty (b @ r) n err x = handle_block_write_fail ty b n err x"
    if "n \<le> length b" for n b r err and x :: "('a, 'b) data_logger_common_data"
  proof -
    have "take n (b @ r) = take n b" using that by simp
    then show ?thesis by (simp only: handle_block_write_fail_def)
  qed
  have hd: "length b = length block" if "block_header e ty block x = Some b" for b and x :: "('a, 'b) data_logger_common_data"
    using that by (auto simp: block_header_def split: if_splits)
  show ?thesis
    by (auto simp: do_block_write_def Let_def block_header_append [OF assms] fail hd
        split: prod.splits sum.splits option.splits bind_splits)
qed

lemma flush_writes_all:
  assumes "ram_buf_data d = pre @ buffered blocks @ post" "\<forall>(ty, block) \<in> set blocks. 2 \<le> length block \<and> length block < 65536"
  shows "map_option without_buffer (flush_single_loop e (length pre) (length pre + length (buffered blocks)) d) =
    write_all e blocks (without_buffer d)"
  using assms
proof (induction blocks arbitrary: pre d)
  case Nil
  then show ?case by (simp add: flush_single_loop.simps)
next
  case (Cons b blocks)
  obtain ty block where b: "b = (ty, block)" by (cases b)
  let ?n = "length block" and ?start = "length pre + 3" and ?rest = "buffered blocks @ post"
  have n: "2 \<le> ?n" "?n < 65536" using Cons.prems(2) b by auto
  have data: "ram_buf_data d = pre @ (ty # put_le 2 ?n) @ block @ ?rest" using Cons.prems(1) b by simp
  have parts: "ram_buf_data d ! length pre = ty" "drop ?start (ram_buf_data d) = block @ ?rest"
    "take ?start (ram_buf_data d) = pre @ ty # put_le 2 ?n" "\<not> length (ram_buf_data d) < ?start"
    unfolding data by (simp_all del: put_le.simps)
  have len: "le_at (length pre + 1) 2 (ram_buf_data d) = ?n"
    unfolding data using n(2) by (simp add: le_at_def bytes_at_def del: put_le.simps)
  have stop: "length pre + length (buffered (b # blocks)) = length pre + 3 + ?n + length (buffered blocks)"
    using b by (simp del: put_le.simps)
  have loop: "flush_single_loop e (length pre) (length pre + length (buffered (b # blocks))) d =
      (case do_block_write e ty block ?n d of None \<Rightarrow> None
       | Some (_, b', d1) \<Rightarrow> flush_single_loop e (?start + ?n) (?start + ?n + length (buffered blocks))
           (d1\<lparr>ram_buf_data := take ?start (ram_buf_data d1) @ b' @ ?rest\<rparr>))"
    unfolding stop by (subst flush_single_loop.simps)
      (simp add: parts len [simplified] do_block_write_append [OF n(1)] Let_def split: option.splits prod.splits)
  show ?case
  proof (cases "do_block_write e ty block ?n d")
    case None
    then show ?thesis using loop b do_block_write_without_buffer [of e ty block ?n d] by simp
  next
    case (Some x)
    obtain rc b' d1 where x: "do_block_write e ty block ?n d = Some (rc, b', d1)" using Some by (cases x) simp
    let ?pre = "pre @ (ty # put_le 2 ?n) @ b'" and ?d = "d1\<lparr>ram_buf_data := take ?start (ram_buf_data d1) @ b' @ ?rest\<rparr>"
    have r: "ram_buf_data ?d = ?pre @ buffered blocks @ post" using parts(3) do_block_write_frame [OF x] by (simp del: put_le.simps)
    have l: "length ?pre = ?start + ?n" using do_block_write_length [OF x] by (simp del: put_le.simps)
    have "\<forall>(ty, block) \<in> set blocks. 2 \<le> length block \<and> length block < 65536" using Cons.prems(2) by simp
    from Cons.IH [OF r this] have "map_option without_buffer (flush_single_loop e (?start + ?n) (?start + ?n + length (buffered blocks)) ?d) =
        write_all e blocks (without_buffer ?d)" unfolding l .
    then show ?thesis using loop x b do_block_write_without_buffer [of e ty block ?n d] by simp
  qed
qed


lemma store_at_twice:
  assumes "off + length h + length b \<le> length xs"
  shows "store_at (off + length h) b (store_at off h xs) = take off xs @ h @ b @ drop (off + length h + length b) xs"
proof -
  have "min (length xs) off = off" using assms by simp
  then show ?thesis by (simp add: store_at_def add.commute add.left_commute)
qed

lemma buffering_stores:
  assumes "length (ram_buf_data d) = ram_buf_len (de_config e)" "ram_buf_len (de_config e) < 4294967296"
    and "ram_buf_offset d + length (buffered blocks) < ram_buf_len (de_config e)" "\<forall>(ty, block) \<in> set blocks. length block < 65536"
  shows "\<exists>d'. buffer_all e blocks d = Some d' \<and> without_buffer d' = without_buffer d \<and>
    ram_buf_offset d' = ram_buf_offset d + length (buffered blocks) \<and>
    ram_buf_data d' = take (ram_buf_offset d) (ram_buf_data d) @ buffered blocks @ drop (ram_buf_offset d + length (buffered blocks)) (ram_buf_data d)"
  using assms
proof (induction blocks arbitrary: d)
  case (Cons b blocks)
  obtain ty block where b: "b = (ty, block)" by (cases b)
  let ?n = "length block" and ?o = "ram_buf_offset d" and ?len = "ram_buf_len (de_config e)"
  let ?hdr = "ty # put_le 2 ?n"
  let ?d = "d\<lparr>ram_buf_data := store_at (?o + 3) block (store_at ?o ?hdr (ram_buf_data d)), ram_buf_offset := ?o + 3 + ?n\<rparr>"
  have sz: "?o + 3 + ?n + length (buffered blocks) < ?len" using Cons.prems(3) b by (simp del: put_le.simps)
  have hdr: "length ?hdr = 3" by (simp del: put_le.simps)
  have "u32 (?len + 4294967296 - ?o) = ?len - ?o" using sz Cons.prems(2) by (intro u32_sub) simp_all
  then have fits: "3 + ?n < u32 (?len + 4294967296 - ?o)" using sz by linarith
  have inside: "(?n < ?n \<or> length (ram_buf_data d) < ?o + 3 + ?n) = False" using sz Cons.prems(1) by simp
  have one: "do_block_write_ram_buffer_single e ty block ?n d = Some (Inr (), block, ?d)"
    by (simp only: do_block_write_ram_buffer_single_def Let_def fits inside if_True if_False take_all [OF order_refl])
  have data: "ram_buf_data ?d = take ?o (ram_buf_data d) @ ?hdr @ block @ drop (?o + 3 + ?n) (ram_buf_data d)"
    using store_at_twice [of ?o ?hdr block "ram_buf_data d"] sz Cons.prems(1) unfolding hdr by simp
  have "length (ram_buf_data ?d) = ?len" unfolding data using hdr sz Cons.prems(1) by (simp del: put_le.simps)
  then obtain d' where d': "buffer_all e blocks ?d = Some d'" "without_buffer d' = without_buffer ?d"
    "ram_buf_offset d' = ?o + 3 + ?n + length (buffered blocks)"
    "ram_buf_data d' = take (?o + 3 + ?n) (ram_buf_data ?d) @ buffered blocks @ drop (?o + 3 + ?n + length (buffered blocks)) (ram_buf_data ?d)"
    using Cons.IH [of ?d] Cons.prems sz by auto
  define q where "q = take ?o (ram_buf_data d) @ ?hdr @ block"
  have "length q = ?o + 3 + ?n" "ram_buf_data ?d = q @ drop (?o + 3 + ?n) (ram_buf_data d)"
    using hdr sz Cons.prems(1) unfolding data q_def by (simp_all del: put_le.simps)
  then have data': "take (?o + 3 + ?n) (ram_buf_data ?d) = q"
    "drop (?o + 3 + ?n + k) (ram_buf_data ?d) = drop (?o + 3 + ?n + k) (ram_buf_data d)" for k
    by (simp_all add: add.commute)
  have "buffer_all e (b # blocks) d = Some d'" using one d'(1) b by simp
  moreover have "length (buffered (b # blocks)) = 3 + ?n + length (buffered blocks)" using b by (simp del: put_le.simps)
  moreover have "q @ buffered blocks = take ?o (ram_buf_data d) @ buffered (b # blocks)" using b by (simp add: q_def del: put_le.simps)
  ultimately show ?case using d' unfolding data' by (simp add: add.assoc [symmetric])
qed simp


subsection \<open>Buffering is transparent\<close>

lemma buffer_then_flush:
  assumes empty: "ram_buf_offset d = 0" "length (ram_buf_data d) = ram_buf_len (de_config e)" "ram_buf_len (de_config e) < 4294967296"
    and fits: "length (buffered blocks) < ram_buf_len (de_config e)"
    and blocks: "\<forall>(ty, block) \<in> set blocks. 2 \<le> length block \<and> length block < 65536"
  shows "\<exists>d1. buffer_all e blocks d = Some d1 \<and> without_buffer d1 = without_buffer d \<and>
    ram_buf_offset d1 = length (buffered blocks) \<and>
    map_option without_buffer (do_ram_buffer_flush_single e d1) = write_all e blocks (without_buffer d)"
proof -
  have "\<forall>(ty, block) \<in> set blocks. length block < 65536" using blocks by auto
  then obtain d1 where d1: "buffer_all e blocks d = Some d1" "without_buffer d1 = without_buffer d"
    "ram_buf_offset d1 = length (buffered blocks)" "ram_buf_data d1 = [] @ buffered blocks @ drop (length (buffered blocks)) (ram_buf_data d)"
    using buffering_stores [OF empty(2,3)] fits empty(1) by fastforce
  have "map_option without_buffer (do_ram_buffer_flush_single e d1) =
      map_option without_buffer (flush_single_loop e 0 (length (buffered blocks)) d1)"
    using d1(3) by (simp add: do_ram_buffer_flush_single_def split: bind_splits)
  then show ?thesis using flush_writes_all [OF d1(4) blocks, of e] d1(1-3) by auto
qed

text \<open>
  C35. Blocks that fit an empty buffer together are all accepted, without an effect other than on the buffer, and
  flushing it then has the same effects as writing each block directly, in the same order: on the storage, on the
  counters, and on the callbacks, whether the single writes succeed or not.
\<close>

theorem buffered_equals_direct:
  assumes empty: "ram_buf_offset d = 0" "length (ram_buf_data d) = ram_buf_len (de_config e)" "ram_buf_len (de_config e) < 4294967296"
    and fits: "length (buffered blocks) < ram_buf_len (de_config e)"
    and blocks: "\<forall>(ty, block) \<in> set blocks. 2 \<le> length block \<and> length block < 65536"
  shows "\<exists>d1. buffer_all e blocks d = Some d1 \<and> without_buffer d1 = without_buffer d \<and>
    map_option without_buffer (do_ram_buffer_flush_single e d1) = write_all e blocks (without_buffer d)"
  using buffer_then_flush [OF assms] by blast

definition demo_buffered :: "(byte list, unit) dl_env" where
  "demo_buffered = demo_logger\<lparr>CONFIG_RAM_BUFFER := True, de_config := de_config demo_logger\<lparr>ram_buf_len := 32\<rparr>\<rparr>"

theorem buffered_equals_direct_witness:
  "\<exists>d1 d2. buffer_all demo_buffered [(7, [0, 0, 1, 1]), (8, [0, 0, 2])] (demo_start\<lparr>ram_buf_data := replicate 32 0\<rparr>) = Some d1 \<and>
     current_block d1 = 0 \<and> do_ram_buffer_flush_single demo_buffered d1 = Some d2 \<and> current_block d2 = 2"
proof -
  let ?d = "demo_start\<lparr>ram_buf_data := replicate 32 0\<rparr>" and ?b = "[(7, [0, 0, 1, 1]), (8, [0, 0, 2])] :: (byte \<times> byte list) list"
  have "length (buffered ?b) < ram_buf_len (de_config demo_buffered)" by code_simp
  then obtain d1 where d1: "buffer_all demo_buffered ?b ?d = Some d1" "without_buffer d1 = without_buffer ?d"
    "map_option without_buffer (do_ram_buffer_flush_single demo_buffered d1) = write_all demo_buffered ?b (without_buffer ?d)"
    using buffered_equals_direct [of ?d demo_buffered ?b] by (auto simp: demo_start_def demo_buffered_def)
  have "map_option current_block (write_all demo_buffered ?b (without_buffer ?d)) = Some 2" by code_simp
  then obtain d2 where "do_ram_buffer_flush_single demo_buffered d1 = Some d2" "current_block (without_buffer d2) = 2"
    unfolding d1(3) [symmetric] by auto
  moreover have "current_block d1 = 0" using arg_cong [OF d1(2), of current_block] by (simp add: without_buffer_def demo_start_def)
  ultimately show ?thesis using d1(1) by (auto simp: without_buffer_def)
qed

subsection \<open>Defects of the write path\<close>

text \<open>Logging blocks through the interface, all of which report success.\<close>

fun log_all :: "('b, 'c) dl_env \<Rightarrow> (byte \<times> byte list) list \<Rightarrow> ('b, 'c) data_logger_common_data \<Rightarrow> ('b, 'c) data_logger_common_data option" where
  "log_all e [] d = Some d"
| "log_all e ((ty, block) # blocks) d =
     (case data_logger_block_write e ty block (length block) d of
        Some (Inr _, _, d) \<Rightarrow> log_all e blocks d
      | _ \<Rightarrow> None)"

text \<open>A logger that buffers single blocks in RAM.\<close>

definition buffers_single :: "('b, 'c) dl_env \<Rightarrow> bool" where
  "buffers_single e \<longleftrightarrow> CONFIG_RAM_BUFFER e \<and> \<not> CONFIG_OFFLOAD_WRITES e \<and> \<not> ram_buf_null (de_config e) \<and>
     0 < ram_buf_len (de_config e) \<and> ram_buf_len (de_config e) < 4294967296 \<and>
     \<not> (CONFIG_BURST_WRITES e \<and> api_write_burst (de_api e) \<noteq> None)"

text \<open>A logger that has room for a block and is not being erased; blocks that fit it and need no padding.\<close>

definition accepts_blocks :: "('b, 'c) data_logger_common_data \<Rightarrow> bool" where
  "accepts_blocks d \<longleftrightarrow> current_block d < logical_blocks d \<and> dl_flags d AND DATA_LOGGER_FLAGS_ERASING = 0"

definition unpadded :: "('b, 'c) dl_env \<Rightarrow> ('b, 'c) data_logger_common_data \<Rightarrow> byte list \<Rightarrow> bool" where
  "unpadded e d block \<longleftrightarrow> 2 \<le> length block \<and> length block \<le> block_size d \<and> length block < 65536 \<and>
     (requires_full_block_write (de_config e) \<or> length block mod block_write_align (de_config e) = 0)"

lemma log_all_buffers:
  assumes "buffers_single e" "accepts_blocks d" "\<forall>(ty, block) \<in> set blocks. unpadded e d block"
    and "ram_buf_offset d + length (buffered blocks) < ram_buf_len (de_config e)"
  shows "log_all e blocks d = buffer_all e blocks d"
  using assms(2-)
proof (induction blocks arbitrary: d)
  case (Cons b blocks)
  obtain ty block where b: "b = (ty, block)" by (cases b)
  let ?n = "length block" and ?o = "ram_buf_offset d" and ?len = "ram_buf_len (de_config e)"
  have u: "unpadded e d block" using Cons.prems(2) b by simp
  have al: "write_align e block ?n d = Some (block, ?n)"
    using u by (cases "requires_full_block_write (de_config e)") (simp_all add: write_align_def unpadded_def Let_def)
  have sz: "?o + 3 + ?n + length (buffered blocks) < ?len" using Cons.prems(3) b by (simp del: put_le.simps)
  have run: "data_logger_block_write e ty block ?n d = do_block_write_ram_buffer_single e ty block ?n d"
    using assms(1) Cons.prems(1) u
    by (auto simp: data_logger_block_write_def handle_block_write_def al do_block_write_ram_buffer_def buffers_single_def
        accepts_blocks_def unpadded_def)
  have "u32 (?len + 4294967296 - ?o) = ?len - ?o" using sz assms(1) by (intro u32_sub) (simp_all add: buffers_single_def)
  then have fits: "3 + ?n < u32 (?len + 4294967296 - ?o)" using sz by linarith
  show ?case
  proof (cases "do_block_write_ram_buffer_single e ty block ?n d")
    case None
    then show ?thesis using b run by simp
  next
    case (Some x)
    then have "\<exists>rb. x = (Inr (), block, d\<lparr>ram_buf_data := rb, ram_buf_offset := ?o + 3 + ?n\<rparr>)"
      using fits by (auto simp: do_block_write_ram_buffer_single_def Let_def split: if_splits)
    then obtain rb where x: "x = (Inr (), block, d\<lparr>ram_buf_data := rb, ram_buf_offset := ?o + 3 + ?n\<rparr>)" by blast
    let ?d = "d\<lparr>ram_buf_data := rb, ram_buf_offset := ?o + 3 + ?n\<rparr>"
    have "log_all e blocks ?d = buffer_all e blocks ?d"
      using Cons.prems sz by (intro Cons.IH) (auto simp: accepts_blocks_def unpadded_def)
    then show ?thesis using b run Some x by simp
  qed
qed simp

text \<open>The writes of a flush, one after another, all report success.\<close>

fun writes_succeed :: "('b, 'c) dl_env \<Rightarrow> (byte \<times> byte list) list \<Rightarrow> ('b, 'c) data_logger_common_data \<Rightarrow> bool" where
  "writes_succeed e [] d \<longleftrightarrow> True"
| "writes_succeed e ((ty, block) # blocks) d \<longleftrightarrow>
     (case do_block_write e ty block (length block) d of
        Some (Inr _, _, d) \<Rightarrow> writes_succeed e blocks d
      | _ \<Rightarrow> False)"

lemma do_block_write_counts:
  assumes "do_block_write e ty block n d = Some (Inr u, block', d')"
  shows "current_block d' = u32 (current_block d + 1) \<and> logical_blocks d' = logical_blocks d"
proof -
  have er: "current_block x' = current_block x \<and> logical_blocks x' = logical_blocks x" if "erase_next_chunk e x = Some (rc, x')"
    for rc and x x' :: "('a, 'b) data_logger_common_data"
    using that by (auto simp: erase_next_chunk_def Let_def split: if_splits prod.splits sum.splits bind_splits)
  show ?thesis using assms
    by (auto simp: do_block_write_def Let_def split: if_splits prod.splits sum.splits bind_splits dest!: er)
qed

lemma write_all_counts:
  assumes "writes_succeed e blocks d" "current_block d + length blocks < 4294967296"
  shows "\<exists>d'. write_all e blocks d = Some d' \<and> current_block d' = current_block d + length blocks \<and> logical_blocks d' = logical_blocks d"
  using assms
proof (induction e blocks d rule: writes_succeed.induct)
  case (2 e ty block blocks d)
  obtain u block' d1 where d1: "do_block_write e ty block (length block) d = Some (Inr u, block', d1)" "writes_succeed e blocks d1"
    using 2(2) by (cases "do_block_write e ty block (length block) d"; cases "fst (the (do_block_write e ty block (length block) d))") auto
  have "current_block d1 = current_block d + 1" "logical_blocks d1 = logical_blocks d"
    using do_block_write_counts [OF d1(1)] 2(3) by simp_all
  then show ?case using 2(1) [OF d1(1) refl refl refl d1(2)] 2(3) d1(1) by auto
qed simp

text \<open>
  C36. A flush does not respect the capacity. On a logger that buffers single blocks, with an empty buffer and room for at
  least one block, any blocks that fit the buffer together (and that need no padding) are all accepted; and if the backend
  stores each of them when the buffer is flushed, the flush counts every one of them, however few blocks the logger
  had room for, so that more blocks are logged than it has.
\<close>

theorem ram_buffer_overrun:
  assumes "buffers_single e" "writes_succeed e blocks (without_buffer d)" "accepts_blocks d" "ram_buf_offset d = 0" "length (ram_buf_data d) = ram_buf_len (de_config e)"
    and "\<forall>(ty, block) \<in> set blocks. unpadded e d block" "length (buffered blocks) < ram_buf_len (de_config e)"
    and "current_block d + length blocks < 4294967296"
  shows "\<exists>d1 d2. log_all e blocks d = Some d1 \<and> data_logger_flush e d1 = Some (Inr (), d2) \<and>
    logical_blocks d2 = logical_blocks d \<and> current_block d2 = current_block d + length blocks"
proof -
  have bl: "\<forall>(ty, block) \<in> set blocks. 2 \<le> length block \<and> length block < 65536" using assms(6) by (auto simp: unpadded_def)
  have len: "ram_buf_len (de_config e) < 4294967296" using assms(1) by (simp add: buffers_single_def)
  obtain d1 where d1: "buffer_all e blocks d = Some d1" "ram_buf_offset d1 = length (buffered blocks)" "without_buffer d1 = without_buffer d"
    "map_option without_buffer (do_ram_buffer_flush_single e d1) = write_all e blocks (without_buffer d)"
    using buffer_then_flush [OF assms(4,5) len assms(7) bl] by blast
  obtain d' where d': "write_all e blocks (without_buffer d) = Some d'" "current_block d' = current_block d + length blocks"
    "logical_blocks d' = logical_blocks d"
    using write_all_counts [OF assms(2)] assms(8) by (auto simp: without_buffer_def)
  obtain d2 where d2: "do_ram_buffer_flush_single e d1 = Some d2" "without_buffer d2 = d'" using d1(4) d'(1) by auto
  have c2: "current_block d2 = current_block d'" "logical_blocks d2 = logical_blocks d'" using d2(2) by (auto simp: without_buffer_def)
  have "log_all e blocks d = Some d1" using log_all_buffers [OF assms(1,3,6)] assms(4,7) d1(1) by simp
  moreover have "\<exists>d2. data_logger_flush e d1 = Some (Inr (), d2) \<and>
      current_block d2 = current_block d + length blocks \<and> logical_blocks d2 = logical_blocks d"
  proof (cases "blocks = []")
    case True
    then show ?thesis using assms(1) d1(1,2) by (simp add: data_logger_flush_def do_ram_buffer_flush_def buffers_single_def)
  next
    case False
    then have "buffered blocks \<noteq> []" by (cases blocks) auto
    then show ?thesis using assms(1) d1(2) d2(1) c2 d' by (auto simp: data_logger_flush_def do_ram_buffer_flush_def buffers_single_def)
  qed
  ultimately show ?thesis by blast
qed

text \<open>
  A logger with room for one more block: 1015 of its 1016 blocks are logged. Two blocks are accepted and counted; the wrap
  counter of the last one is 255, the mark of an erased block, and after a reboot that block is gone.
\<close>

definition demo_nearly_full :: "(byte list, unit) data_logger_common_data" where
  "demo_nearly_full =
     demo_start\<lparr>current_block := 1015, earliest_block := 1012, ram_buf_data := replicate 32 0,
       backend := [254, 7, 0, 0, 254, 7, 0, 0, 254, 7, 0, 0, 0xFF, 0xFF, 0xFF, 0xFF]\<rparr>"

theorem ram_buffer_overrun_witness:
  "\<exists>d1 d2. log_all demo_buffered [(7, [0, 0, 1, 1]), (7, [0, 0, 2, 2])] demo_nearly_full = Some d1 \<and>
     data_logger_flush demo_buffered d1 = Some (Inr (), d2) \<and> logical_blocks d2 = 1016 \<and> current_block d2 = 1017 \<and>
     take 4 (backend d2) = [0xFF, 7, 2, 2] \<and>
     map_option (\<lambda>(rc, d3). (rc, current_block d3)) (logger_flash_map_init demo_buffered demo_flash_config (Inr 0xFF)
       (demo_start\<lparr>backend := backend d2\<rparr>)) = Some (Inr (), 1016)"
proof -
  let ?b = "[(7, [0, 0, 1, 1]), (7, [0, 0, 2, 2])] :: (byte \<times> byte list) list"
  have "buffers_single demo_buffered" "accepts_blocks demo_nearly_full" "ram_buf_offset demo_nearly_full = 0"
    "writes_succeed demo_buffered ?b (without_buffer demo_nearly_full)"
    "length (ram_buf_data demo_nearly_full) = ram_buf_len (de_config demo_buffered)"
    "\<forall>(ty, block) \<in> set ?b. unpadded demo_buffered demo_nearly_full block" "length (buffered ?b) < ram_buf_len (de_config demo_buffered)"
    "current_block demo_nearly_full + length ?b < 4294967296" by code_simp+
  then obtain d1 d2 where d: "log_all demo_buffered ?b demo_nearly_full = Some d1" "data_logger_flush demo_buffered d1 = Some (Inr (), d2)"
    "logical_blocks d2 = logical_blocks demo_nearly_full" "current_block d2 = current_block demo_nearly_full + length ?b"
    using ram_buffer_overrun [of demo_buffered ?b demo_nearly_full] by blast
  have "Option.bind (Option.bind (log_all demo_buffered ?b demo_nearly_full) (data_logger_flush demo_buffered)) (\<lambda>(rc, d).
      map_option (\<lambda>(rc, d3). (take 4 (backend d), rc, current_block d3)) (logger_flash_map_init demo_buffered demo_flash_config (Inr 0xFF)
        (demo_start\<lparr>backend := backend d\<rparr>))) = Some ([0xFF, 7, 2, 2], Inr (), 1016)" by code_simp
  then have "map_option (\<lambda>(rc, d3). (take 4 (backend d2), rc, current_block d3)) (logger_flash_map_init demo_buffered demo_flash_config
      (Inr 0xFF) (demo_start\<lparr>backend := backend d2\<rparr>)) = Some ([0xFF, 7, 2, 2], Inr (), 1016)"
    unfolding d(1) by (simp only: bind.simps d(2) prod.case)
  moreover have "logical_blocks d2 = 1016" "current_block d2 = 1017" using d(3,4) by (simp_all add: demo_nearly_full_def demo_start_def)
  ultimately show ?thesis using d(1,2) by (intro exI [of _ d1] exI [of _ d2]) auto
qed

subsection \<open>Failed writes\<close>











end
