(* ===== verification/Spec2Isabelle.thy ===== *)
theory Spec2Isabelle
  imports Tdf_Properties Hamming Math_Common Statistics App_States Task_Schedule Kv_Store Runner_Invariant Epoch_State Secure_Storage Logger_Buffer
begin

text \<open>
  A verification library for the Infuse SDK, firmware for battery powered loggers and trackers on Zephyr. Paths are
  relative to \<open>src/\<close>.

  \<^bold>\<open>The program.\<close> A device samples data in tasks. The task runner (\<open>subsys/task_runner\<close>) decides every second
  which tasks start and stop, from schedules that come with the application or from the key-value store
  (\<open>subsys/fs/kv_store\<close>), from the application states (\<open>lib/states\<close>), the battery charge, and the epoch time
  (\<open>lib/time\<close>). Samples are written as tagged data frames, TDFs (\<open>subsys/tdf\<close>), whose buffers the data logger
  (\<open>subsys/data_logger\<close>) stores. Numeric helpers are in \<open>lib/math\<close>.

  \<^bold>\<open>Conventions.\<close> \<open>Infuse_Base\<close> has the machine types, error numbers, little-endian codecs and shared list lemmas. C
  integers are words where the code uses their bits or wraps, and \<open>nat\<close> with the truncation written out
  otherwise. A result that is an error number or a value is a sum, \<open>Inl\<close> being the error. Undefined behaviour
  (an access outside an array, division by zero, signed overflow) is the result \<open>None\<close> of an option. Functions
  of Zephyr are parameters: records of functions, with the documented behaviour that is relied on as the
  assumptions of a locale, and every locale is interpreted. Callbacks are functions on data of their own. Functions
  that run under a lock are one step.

  \<^bold>\<open>Tagged data frames.\<close>
  \<^item> \<open>Net_Buf\<close>: \<open>struct net_buf_simple\<close> as an array with a window, and the promises of its operations.
  \<^item> \<open>Tdf_Diffs\<close>: \<open>subsys/tdf/diffs.c\<close>, the check, encode and apply functions of the difference formats.
  \<^item> \<open>Tdf_Core\<close>: \<open>tdf_add_core\<close> and \<open>tdf_buffer_state_reset\<close>, split into the phases of the C function.
  \<^item> \<open>Tdf_Parse\<close>: \<open>tdf_parse\<close>, \<open>tdf_parse_diff_reconstruct\<close> and \<open>tdf_parse_find_in_buf\<close>.
  \<^item> \<open>Tdf_Wire\<close>, \<open>Tdf_Roundtrip\<close>: the wire format of one TDF, and that adding appends it and parsing reads it.
  \<^item> \<open>Tdf_Properties\<close>: any sequence of added TDFs is parsed back to the same identifiers, times and samples; adding
    never writes outside the buffer, and parsing never reads outside it; searching a buffer terminates; the
    difference format chosen is the longest valid prefix. Two defects are characterised for every input: the one
    situation, \<open>tdf_reclaims_two\<close>, in which adding overruns the buffer (and which the other properties leave out), and
    what happens to a single precomputed difference.

  \<^bold>\<open>Mathematics.\<close> \<open>Hamming\<close> (\<open>lib/math/hamming_8_4.c\<close>): one error per symbol is corrected, two are detected at
  any position.
  \<open>Bitmask\<close> and \<open>Math_Common\<close> (\<open>lib/math/common.c\<close>): integer square roots, vector magnitudes, cyclic bit
  selection and interpolation are exact or bounded. \<open>Statistics\<close> (\<open>lib/math/statistics.c\<close>): the running sums are exact.

  \<^bold>\<open>Application states.\<close> \<open>App_States\<close> (\<open>lib/states/application_states.c\<close>): an invariant of the timeout slots,
  a refinement of a map from states to seconds under every sequence of calls, and expiry after exactly the
  requested number of ticks.

  \<^bold>\<open>Epoch time.\<close> \<open>Epoch_Time\<close> has the packing and conversions of \<open>include/infuse/time/epoch.h\<close>; \<open>Epoch_State\<close> the
  time sources and the reference instant of \<open>lib/time/epoch.c\<close>: conversions are inverse, and setting the time has
  exactly its documented effects on the clock, the callbacks and the application states.

  \<^bold>\<open>Key-value store.\<close> \<open>Kv_Slots\<close> is the generated slot table (\<open>generated/include/infuse/fs/kv_types.h\<close>) for every
  build configuration; \<open>Kv_Store\<close> the operations over NVS or ZMS and the reflection checksums. The table is
  consistent, reads return what was written, callbacks fire exactly on change, the checksums agree with a
  recomputation from flash after any calls other than a reset that failed, and keys that are not enabled are refused.

  \<^bold>\<open>Task runner.\<close> \<open>Task_Schedule\<close> (\<open>schedule.c\<close>, \<open>schedule.h\<close>): validated schedules evaluate without undefined behaviour and
  state conditions mean what their macros say. \<open>Task_Runner\<close> (\<open>runner.c\<close>): loading, starting, terminating and
  iterating over the state of the file; the flags that the store's callback changes are part of the store's callback
  data, so that a write to the store triggers the reload as in the code. \<open>Runner_Invariant\<close>: reachable states as an
  inductive predicate, memory safety of iterations with the one exception characterised, exact accounting of task
  starts, and the course of a reload.

  \<^bold>\<open>Secure storage.\<close> \<open>Secure_Storage\<close> (\<open>subsys/fs/secure_storage\<close>): the trusted storage interface over the store of
  \<open>Kv_Store\<close>, with the cipher as a parameter. What is set is read back, entries that are write once stay.

  \<^bold>\<open>Data logger.\<close> Samples are stored in blocks on a ring of flash blocks (\<open>subsys/data_logger\<close>).
  \<^item> \<open>Data_Logger\<close> (\<open>data_logger.c\<close>, \<open>backends/common.h\<close>): writing, buffering in RAM, the commit queue, reading, erasing, and
    the recovery at boot, in all build configurations; the backend is a record of functions.
  \<^item> \<open>Logger_Contents\<close>: what the storage of a ring of blocks holds, against the list of all blocks logged.
  \<^item> \<open>Logger_Backend\<close>, \<open>Logger_Recovery\<close>: the locale \<open>block_backend\<close> of backends that keep their promises; in it, writes
    append to the log, reads return it, and booting recovers it by the binary search; reachable states.
  \<^item> \<open>Flash_Map_Logger\<close> (\<open>backends/flash_map.c\<close>): the flash backend is such a backend (a sublocale), and the properties of
    the logger on flash. Reachable states are from erased storage, by writes, failed writes that leave the storage as it
    was or with the next chunk erased, reads, erasing and reboots, of loggers that write directly.
  \<^item> \<open>Logger_Buffer\<close>: buffering in RAM is equivalent to direct writes; two defects are characterised, a flush past the
    capacity and blocks dropped by a failed write.

  \<^bold>\<open>Bounds.\<close> Loops are structural recursion over the data they walk, or recursion with a measure; the search in a TDF
  buffer and the bit loops are proved to terminate. The search loop of \<open>tdf_parse_find_in_buf\<close> and the reader's loop
  around \<open>tdf_parse\<close> count their iterations down from a bound, \<open>None\<close> being a bound that is used up: one more than the bytes
  of the buffer is shown to be enough for the first, and one more than the TDFs added for the second. The binary search of the data logger, which need not
  end on every backend, is a partial function, shown to return on the storage of a logger. Sizes are bounded only where the code
  declares an array, and the bound is then a hypothesis with the name of the array. Offsets into a flash area are 32 bit
  numbers, read as unsigned; on a target whose \<open>off_t\<close> is a signed 32 bit type, areas of 2 GiB and more are out of scope.

  \<^bold>\<open>Not modelled.\<close> Drivers, board files, Bluetooth, modem and network interfaces only move data between hardware or
  Zephyr services and have no logic that could be stated apart from them. The other backends of the data logger are
  sequences of calls to disks, file systems and radios. ePacket and RPC are queues, ciphers and commands over these
  services, the bodies of the tasks sample hardware, and the patch decoder streams between flash areas. The vendored
  cryptography in \<open>lib/crypto\<close> and the floating point functions of \<open>lib/math\<close> are left out. Logging macros, locks and
  delays have no effect on the state modelled. Concurrency is modelled only as the order of whole operations.
\<close>

end
